(* ===== verification/Jos_Prelude.thy ===== *)
theory Jos_Prelude
  imports Main "HOL-Library.Word" "HOL-Library.Signed_Division"
begin

text \<open>
  The prelude of the JOS-vmx development: the C integer types of \<^verbatim>\<open>inc/types.h\<close> as
  fixed-width words, the ways a kernel routine can stop (a panic, a failed assertion, an
  access the C program has no meaning for), the sequencing of routines that may stop, and
  the lemmas on words, lists and finite sets that every component shares.
\<close>

unbundle bit_operations_syntax

section \<open>Integer types\<close>

type_synonym u8 = "8 word"
type_synonym u16 = "16 word"
type_synonym u32 = "32 word"
type_synonym u64 = "64 word"

text \<open>Physical page numbers, the index of a \<^verbatim>\<open>struct Page\<close> in \<^verbatim>\<open>pages[]\<close>.\<close>

type_synonym ppn = u32

section \<open>Routines that may stop\<close>

text \<open>
  \<open>Panic\<close> is a call of \<^verbatim>\<open>panic\<close>, \<open>Assertion\<close> a failed \<^verbatim>\<open>assert\<close> (both end in
  \<^verbatim>\<open>_panic\<close>, which never returns), \<open>Fault\<close> an access through a null or wild pointer.
\<close>

datatype stop = Panic string | Assertion string | Fault string

type_synonym 'a res = "stop + 'a"

definition res_bind :: "'e + 'a \<Rightarrow> ('a \<Rightarrow> 'e + 'b) \<Rightarrow> 'e + 'b" where
  "res_bind m f = (case m of Inl e \<Rightarrow> Inl e | Inr x \<Rightarrow> f x)"

lemma res_bind_simps [simp]:
  "res_bind (Inl e) f = Inl e"
  "res_bind (Inr x) f = f x"
  by (simp_all add: res_bind_def)

lemma res_bind_assoc:
  "res_bind (res_bind m f) g = res_bind m (\<lambda>x. res_bind (f x) g)"
  by (simp add: res_bind_def split: sum.split)

lemma res_bind_Inr_iff:
  "res_bind m f = Inr y \<longleftrightarrow> (\<exists>x. m = Inr x \<and> f x = Inr y)"
  by (cases m) simp_all

lemma res_bind_InrE [elim!]:
  assumes "res_bind m f = Inr y"
  obtains x where "m = Inr x" and "f x = Inr y"
  using assms by (auto simp: res_bind_Inr_iff)

text \<open>A sequence whose second part always stops never returns.\<close>

lemma res_bind_stops: "(\<And>x. \<exists>e. f x = Inl e) \<Longrightarrow> \<exists>e. res_bind m f = Inl e"
  by (cases m) simp_all

definition panic :: "string \<Rightarrow> 'a res" where
  "panic msg = Inl (Panic msg)"

definition check :: "bool \<Rightarrow> string \<Rightarrow> unit res" where
  "check b msg = (if b then Inr () else Inl (Assertion msg))"

lemma check_simps [simp]:
  "b \<Longrightarrow> check b msg = Inr ()"
  "\<not> b \<Longrightarrow> check b msg = Inl (Assertion msg)"
  "check b msg = Inr u \<longleftrightarrow> b"
  by (simp_all add: check_def)

section \<open>Error codes\<close>

text \<open>The codes of \<^verbatim>\<open>inc/error.h\<close>; a routine that fails returns the negated number.\<close>

datatype jos_error =
  E_UNSPECIFIED | E_BAD_ENV | E_INVAL | E_NO_MEM | E_NO_FREE_ENV | E_FAULT

fun error_code :: "jos_error \<Rightarrow> int" where
  "error_code E_UNSPECIFIED = 1"
| "error_code E_BAD_ENV = 2"
| "error_code E_INVAL = 3"
| "error_code E_NO_MEM = 4"
| "error_code E_NO_FREE_ENV = 5"
| "error_code E_FAULT = 6"

definition MAXERROR :: int where [simp]: "MAXERROR = 6"

section \<open>Words\<close>

named_theorems word_nat \<open>rewrite a word operation into arithmetic on its natural number\<close>

lemma unat_lt_32 [simp]: "unat (w :: u32) < 4294967296"
  using unsigned_less [of w] by simp

lemma unat_lt_16 [simp]: "unat (w :: u16) < 65536"
  using unsigned_less [of w] by simp

lemma unat_lt_8 [simp]: "unat (w :: u8) < 256"
  using unsigned_less [of w] by simp

lemma unat_and_mask [word_nat]: "unat (w AND mask n) = unat (w :: 'a::len word) mod 2 ^ n"
  by (simp only: flip: take_bit_eq_mask add: unsigned_take_bit_eq) (simp add: take_bit_eq_mod)

lemma unat_drop [word_nat]: "unat (drop_bit n (w :: 'a::len word)) = unat w div 2 ^ n"
  by (metis drop_bit_eq_div unat_drop_bit_eq)

lemma and_not_mask_plus: "((w :: 'a::len word) AND NOT (mask n)) + (w AND mask n) = w"
  by (subst disjunctive_add_eq_or; rule bit_word_eqI; auto simp: bit_simps)

lemma and_not_mask_minus: "(w :: 'a::len word) AND NOT (mask n) = w - (w AND mask n)"
  by (metis and_not_mask_plus add_diff_cancel_right')

lemma unat_and_not_mask [word_nat]:
  "unat ((w :: 'a::len word) AND NOT (mask n)) = unat w div 2 ^ n * 2 ^ n"
proof -
  have "w AND mask n \<le> w" by (rule word_and_le2)
  then have "unat (w AND NOT (mask n)) = unat w - unat (w AND mask n)"
    by (simp add: and_not_mask_minus unat_sub)
  then show ?thesis by (simp only: unat_and_mask minus_mod_eq_div_mult)
qed

lemma unat_or_lt: "unat (a :: 'a::len word) < 2 ^ n \<Longrightarrow> unat b < 2 ^ n \<Longrightarrow> unat (a OR b) < 2 ^ n"
  by (metis (no_types, lifting) take_bit_nat_eq_self_iff take_bit_or unsigned_or_eq)

lemma unat_or_disjoint:
  assumes "(a :: 'a::len word) AND b = 0"
  shows "unat (a OR b) = unat a + unat b"
  using assms by (metis disjunctive_add_eq_or unsigned_0 unsigned_and_eq unsigned_or_eq)

lemma and_low_eq_0:
  assumes "2 ^ n dvd unat (a :: 'a::len word)" and "unat b < 2 ^ n"
  shows "a AND b = 0"
proof (rule bit_word_eqI)
  fix k
  have a: "take_bit n a = 0"
    using assms(1) by (metis and_mask_dvd_nat take_bit_eq_mask)
  have b: "take_bit n b = b"
    using assms(2) by (simp add: word_unat_eq_iff unsigned_take_bit_eq take_bit_nat_eq_self)
  have "bit a k \<Longrightarrow> \<not> k < n" using a by (metis bit_0_eq bit_take_bit_iff bot_apply bot_bool_def)
  moreover have "bit b k \<Longrightarrow> k < n" using b by (metis bit_take_bit_iff)
  ultimately show "bit (a AND b) k \<longleftrightarrow> bit 0 k" by (auto simp: bit_simps)
qed

lemma unat_add_small:
  "unat (a :: 'a::len word) + unat b < 2 ^ LENGTH('a) \<Longrightarrow> unat (a + b) = unat a + unat b"
  by (simp add: unat_word_ariths)

lemma unat_mult_small:
  "unat (a :: 'a::len word) * unat b < 2 ^ LENGTH('a) \<Longrightarrow> unat (a * b) = unat a * unat b"
  by (simp add: unat_word_ariths)

lemma unat_of_nat_small: "n < 2 ^ LENGTH('a) \<Longrightarrow> unat (of_nat n :: 'a::len word) = n"
  by (simp add: unat_of_nat)

section \<open>Counting\<close>

lemma card_Collect_insert:
  assumes "finite {x. P x}" and "\<not> P a" and "\<And>x. Q x \<longleftrightarrow> P x \<or> x = a"
  shows "card {x. Q x} = Suc (card {x. P x})"
proof -
  have "{x. Q x} = insert a {x. P x}" using assms(3) by auto
  then show ?thesis using assms(1,2) by simp
qed

lemma card_Collect_same:
  assumes "\<And>x. Q x \<longleftrightarrow> P x"
  shows "card {x. Q x} = card {x. P x}"
  using assms by simp

end
