(* ===== verification/Mmu.thy ===== *)
theory Mmu
  imports Jos_Prelude
begin

text \<open>
  Part 1 of \<^verbatim>\<open>inc/mmu.h\<close> (paging), the address-space layout of \<^verbatim>\<open>inc/memlayout.h\<close> and
  the rounding macros of \<^verbatim>\<open>inc/types.h\<close>. Addresses are 32-bit words, as \<^verbatim>\<open>uintptr_t\<close>
  and \<^verbatim>\<open>physaddr_t\<close> are. Each macro comes with the natural-number reading that the page
  table proofs use, collected in \<open>word_nat\<close>.
\<close>

section \<open>Rounding\<close>

definition ROUNDDOWN :: "u32 \<Rightarrow> u32 \<Rightarrow> u32" where
  "ROUNDDOWN a n = a - a mod n"

definition ROUNDUP :: "u32 \<Rightarrow> u32 \<Rightarrow> u32" where
  "ROUNDUP a n = ROUNDDOWN (a + n - 1) n"

lemma unat_ROUNDDOWN [word_nat]: "unat (ROUNDDOWN a n) = unat a div unat n * unat n"
proof -
  have "a mod n \<le> a" by (simp add: word_le_nat_alt unat_mod_distrib)
  then have "unat (a - a mod n) = unat a - unat a mod unat n"
    by (simp add: unat_sub unat_mod_distrib)
  then show ?thesis by (simp add: ROUNDDOWN_def minus_mod_eq_div_mult)
qed

lemma unat_ROUNDUP:
  assumes "0 < unat n" and "unat a + unat n \<le> 2 ^ 32"
  shows "unat (ROUNDUP a n) = (unat a + unat n - 1) div unat n * unat n"
proof -
  have "unat (n - 1) = unat n - 1"
    using assms(1) by (simp add: unat_minus_one unat_gt_0)
  moreover from this have "unat (a + (n - 1)) = unat a + unat n - 1"
    using assms by (subst unat_add_small) auto
  moreover have "a + n - 1 = a + (n - 1)" by simp
  ultimately show ?thesis by (simp only: ROUNDUP_def unat_ROUNDDOWN)
qed

section \<open>Address layout\<close>

definition PGSHIFT :: nat where [simp]: "PGSHIFT = 12"
definition PTSHIFT :: nat where [simp]: "PTSHIFT = 22"
definition PGSIZE :: u32 where [simp]: "PGSIZE = 4096"
definition NPDENTRIES :: u32 where [simp]: "NPDENTRIES = 1024"
definition NPTENTRIES :: u32 where [simp]: "NPTENTRIES = 1024"
definition PTSIZE :: u32 where [simp]: "PTSIZE = PGSIZE * NPTENTRIES"

definition PTE_P :: u32 where [simp]: "PTE_P = 0x001"
definition PTE_W :: u32 where [simp]: "PTE_W = 0x002"
definition PTE_U :: u32 where [simp]: "PTE_U = 0x004"

definition IOPHYSMEM :: u32 where [simp]: "IOPHYSMEM = 0x0A0000"
definition EXTPHYSMEM :: u32 where [simp]: "EXTPHYSMEM = 0x100000"
definition KERNBASE :: u32 where [simp]: "KERNBASE = 0xF0000000"
definition VPT :: u32 where [simp]: "VPT = KERNBASE - PTSIZE"
definition KSTACKTOP :: u32 where [simp]: "KSTACKTOP = VPT"
definition KSTKSIZE :: u32 where [simp]: "KSTKSIZE = 8 * PGSIZE"
definition ULIM :: u32 where [simp]: "ULIM = KSTACKTOP - PTSIZE"
definition UVPT :: u32 where [simp]: "UVPT = ULIM - PTSIZE"
definition UPAGES :: u32 where [simp]: "UPAGES = UVPT - PTSIZE"
definition UENVS :: u32 where [simp]: "UENVS = UPAGES - PTSIZE"
definition UTOP :: u32 where [simp]: "UTOP = UENVS"

section \<open>Decomposing a linear address\<close>

definition PGNUM :: "u32 \<Rightarrow> u32" where
  "PGNUM la = drop_bit PGSHIFT la"

definition PDX :: "u32 \<Rightarrow> u32" where
  "PDX la = drop_bit PTSHIFT la AND 0x3FF"

definition PTX :: "u32 \<Rightarrow> u32" where
  "PTX la = drop_bit PGSHIFT la AND 0x3FF"

definition PGOFF :: "u32 \<Rightarrow> u32" where
  "PGOFF la = la AND 0xFFF"

text \<open>
  The header never defines the \<^verbatim>\<open>PDXSHIFT\<close> that \<^verbatim>\<open>PGADDR\<close> shifts by, so it is an
  argument here.
\<close>

definition PGADDR :: "nat \<Rightarrow> u32 \<Rightarrow> u32 \<Rightarrow> u32 \<Rightarrow> u32" where
  "PGADDR pdxshift d t off = (push_bit pdxshift d OR push_bit PGSHIFT t) OR off"

definition PTE_ADDR :: "u32 \<Rightarrow> u32" where
  "PTE_ADDR pte = pte AND NOT 0xFFF"

lemma low_masks: "(0x3FF :: u32) = mask 10" "(0xFFF :: u32) = mask 12"
  by (simp_all add: mask_eq_exp_minus_1)

lemma unat_PGNUM [word_nat]: "unat (PGNUM la) = unat la div 4096"
  by (simp only: PGNUM_def PGSHIFT_def unat_drop) simp

lemma unat_PDX [word_nat]: "unat (PDX la) = unat la div 4194304"
proof -
  have "unat la div 4194304 < 1024" using unat_lt_32 [of la] by linarith
  then show ?thesis unfolding PDX_def PTSHIFT_def low_masks unat_and_mask unat_drop by simp
qed

lemma unat_PTX [word_nat]: "unat (PTX la) = unat la div 4096 mod 1024"
  unfolding PTX_def PGSHIFT_def low_masks unat_and_mask unat_drop by simp

lemma unat_PGOFF [word_nat]: "unat (PGOFF la) = unat la mod 4096"
  by (simp only: PGOFF_def low_masks unat_and_mask) simp

lemma unat_PTE_ADDR [word_nat]: "unat (PTE_ADDR pte) = unat pte div 4096 * 4096"
  unfolding PTE_ADDR_def low_masks unat_and_not_mask by simp

lemma unat_PDX_lt: "unat (PDX la) < 1024"
  unfolding unat_PDX using unat_lt_32 [of la] by linarith

lemma unat_PTX_lt: "unat (PTX la) < 1024"
  by (simp add: unat_PTX)

lemma PDX_PTX_eq_iff:
  "PDX va = PDX va' \<and> PTX va = PTX va' \<longleftrightarrow> PGNUM va = PGNUM va'"
proof -
  have dd: "unat v div 4194304 = unat v div 4096 div 1024" for v :: u32
    by (simp add: div_mult2_eq [symmetric])
  show ?thesis
    unfolding word_unat_eq_iff unat_PDX unat_PTX unat_PGNUM dd
    by (metis div_mult_mod_eq)
qed

section \<open>Properties\<close>

text \<open>
  The three fields rebuild the address, for the shift of 22 that the layout drawing above
  the macros asks for.
\<close>

lemma PGADDR_decompose: "PGADDR PTSHIFT (PDX la) (PTX la) (PGOFF la) = la"
proof (rule bit_word_eqI)
  fix k assume "k < LENGTH(32)"
  then have k: "k < 32" by simp
  consider "k < 12" | "12 \<le> k" "k < 22" | "22 \<le> k" by linarith
  then show "bit (PGADDR PTSHIFT (PDX la) (PTX la) (PGOFF la)) k = bit la k"
    unfolding PGADDR_def PDX_def PTX_def PGOFF_def PGSHIFT_def PTSHIFT_def low_masks
    by cases (use k in \<open>auto simp: bit_simps\<close>)
qed

lemma ROUNDUP_least:
  assumes "0 < n" and "unat a + unat n \<le> 2 ^ 32"
  shows "a \<le> ROUNDUP a n" and "unat n dvd unat (ROUNDUP a n)"
    and "unat (ROUNDUP a n) < unat a + unat n"
proof -
  have n: "0 < unat n" using assms(1) by (simp add: unat_gt_0)
  define m where "m = unat a + unat n - 1"
  have eq: "unat (ROUNDUP a n) = m - m mod unat n"
    by (simp add: unat_ROUNDUP [OF n assms(2)] m_def minus_mod_eq_div_mult)
  have lt: "m mod unat n < unat n" and le: "m mod unat n \<le> m" using n by simp_all
  show "unat n dvd unat (ROUNDUP a n)" unfolding eq by simp
  show "unat (ROUNDUP a n) < unat a + unat n" using n le by (simp add: eq m_def)
  show "a \<le> ROUNDUP a n"
    unfolding word_le_nat_alt eq using n lt le by (simp add: m_def)
qed

end
