(* ===== verification/Printfmt.thy ===== *)
theory Printfmt
  imports Jos_Prelude "HOL-Library.Char_ord"
begin

text \<open>
  \<^verbatim>\<open>lib/printfmt.c\<close> and \<^verbatim>\<open>kern/printf.c\<close>. The argument list is the list of its 32-bit slots
  (a \<^verbatim>\<open>long long\<close> takes two, the low one first); reading past it is a \<open>Fault\<close>. A pointer to
  a string is an address, and \<open>str\<close> gives the characters from it up to the terminating zero.
  The output function \<open>putch\<close> acts on a state of any type. Counters are integers without
  bound: the overflow of a field width of more than nine digits is not modelled.
\<close>

section \<open>Numbers\<close>

type_synonym 's sink = "u32 \<Rightarrow> 's \<Rightarrow> 's"

definition hex_digit :: "nat \<Rightarrow> u32" where
  "hex_digit d = of_char (''0123456789abcdef'' ! d)"

text \<open>The loop \<^verbatim>\<open>while (--width > 0) putch(padc)\<close>.\<close>

function pad_before :: "'s sink \<Rightarrow> int \<Rightarrow> u32 \<Rightarrow> 's \<Rightarrow> 's" where
  "pad_before putch width padc st =
     (let width = width - 1
      in if width > 0 then pad_before putch width padc (putch padc st) else st)"
  by pat_completeness auto
termination by (relation "measure (\<lambda>(_, w, _, _). nat w)") auto

declare pad_before.simps [simp del]

text \<open>The base is at least 2 in every call (8, 10 or 16).\<close>

function printnum :: "'s sink \<Rightarrow> u64 \<Rightarrow> u64 \<Rightarrow> int \<Rightarrow> u32 \<Rightarrow> 's \<Rightarrow> 's" where
  "printnum putch num base width padc st =
     (let st1 =
        (if base \<le> num \<and> 1 < base then printnum putch (num div base) base (width - 1) padc st
         else pad_before putch width padc st)
      in putch (hex_digit (unat (num mod base))) st1)"
  by pat_completeness auto
termination
proof (relation "measure (\<lambda>(_, num, _). unat num)")
  fix num base :: u64
  assume "base \<le> num \<and> 1 < base"
  then have "unat num div unat base < unat num"
    by (intro div_less_dividend) (auto simp: word_le_nat_alt word_less_nat_alt)
  then show "((putch, num div base, base, width - 1, padc, st), putch, num, base, width, padc, st)
      \<in> measure (\<lambda>(_, num, _). unat num)"
    for putch :: "'x sink" and width :: int and padc :: u32 and st :: 'x
    by (simp add: unat_div_distrib)
qed simp

declare printnum.simps [simp del]

section \<open>Arguments\<close>

fun va_int :: "u32 list \<Rightarrow> (u32 \<times> u32 list) res" where
  "va_int [] = Inl (Fault ''va_arg'')"
| "va_int (x # va) = Inr (x, va)"

fun va_longlong :: "u32 list \<Rightarrow> (u64 \<times> u32 list) res" where
  "va_longlong (lo # hi # va) = Inr (ucast lo OR push_bit 32 (ucast hi), va)"
| "va_longlong _ = Inl (Fault ''va_arg'')"

definition getuint :: "nat \<Rightarrow> u32 list \<Rightarrow> (u64 \<times> u32 list) res" where
  "getuint lflag va =
     (if lflag \<ge> 2 then va_longlong va
      else if lflag \<noteq> 0 then res_bind (va_int va) (\<lambda>(x, va). Inr (ucast x, va))
      else res_bind (va_int va) (\<lambda>(x, va). Inr (ucast x, va)))"

definition getint :: "nat \<Rightarrow> u32 list \<Rightarrow> (u64 \<times> u32 list) res" where
  "getint lflag va =
     (if lflag \<ge> 2 then va_longlong va
      else if lflag \<noteq> 0 then res_bind (va_int va) (\<lambda>(x, va). Inr (scast x, va))
      else res_bind (va_int va) (\<lambda>(x, va). Inr (scast x, va)))"

section \<open>Flags\<close>

record flags =
  f_padc :: char
  f_width :: int
  f_precision :: int
  f_lflag :: nat
  f_altflag :: bool

definition no_flags :: flags where
  "no_flags = \<lparr>f_padc = CHR '' '', f_width = -1, f_precision = -1, f_lflag = 0, f_altflag = False\<rparr>"

definition process_precision :: "flags \<Rightarrow> flags" where
  "process_precision f =
     (if f_width f < 0 then f\<lparr>f_width := f_precision f, f_precision := -1\<rparr> else f)"

definition is_digit :: "char \<Rightarrow> bool" where
  "is_digit c \<longleftrightarrow> CHR ''0'' \<le> c \<and> c \<le> CHR ''9''"

definition digit :: "char \<Rightarrow> int" where
  "digit c = of_char c - of_char (CHR ''0'')"

fun num_loop :: "int \<Rightarrow> string \<Rightarrow> int \<times> string" where
  "num_loop p [] = (p, [])"
| "num_loop p (c # cs) = (if is_digit c then num_loop (p * 10 + digit c) cs else (p, c # cs))"

lemma num_loop_length: "num_loop p cs = (p', rest) \<Longrightarrow> length rest \<le> length cs"
  by (induction p cs rule: num_loop.induct) (auto split: if_splits)

text \<open>
  From the label \<^verbatim>\<open>reswitch\<close> to the conversion character: it, the flags, the format after it
  and the arguments left. The end of the format is the character 0.
\<close>

function reswitch :: "flags \<Rightarrow> string \<Rightarrow> u32 list \<Rightarrow> (char \<times> flags \<times> string \<times> u32 list) res" where
  "reswitch f [] va = Inr (CHR 0x00, f, [], va)"
| "reswitch f (c # cs) va =
     (if c = CHR ''-'' then reswitch (f\<lparr>f_padc := CHR ''-''\<rparr>) cs va
      else if c = CHR ''0'' then reswitch (f\<lparr>f_padc := CHR ''0''\<rparr>) cs va
      else if is_digit c then
        (case num_loop (digit c) cs of (p, rest) \<Rightarrow>
           reswitch (process_precision (f\<lparr>f_precision := p\<rparr>)) rest va)
      else if c = CHR ''*'' then
        (case va of
           [] \<Rightarrow> Inl (Fault ''va_arg'')
         | x # va \<Rightarrow> reswitch (process_precision (f\<lparr>f_precision := sint x\<rparr>)) cs va)
      else if c = CHR ''.'' then reswitch (if f_width f < 0 then f\<lparr>f_width := 0\<rparr> else f) cs va
      else if c = CHR ''#'' then reswitch (f\<lparr>f_altflag := True\<rparr>) cs va
      else if c = CHR ''l'' then reswitch (f\<lparr>f_lflag := f_lflag f + 1\<rparr>) cs va
      else Inr (c, f, cs, va))"
  by pat_completeness auto
termination
  by (relation "measure (\<lambda>(_, cs, _). length cs)") (auto dest!: num_loop_length [OF sym])

lemma reswitch_length: "reswitch f cs va = Inr (d, g, rest, va') \<Longrightarrow> length rest \<le> length cs"
proof (induction f cs va rule: reswitch.induct)
  case (2 f c cs va)
  note run = "2.prems" [unfolded reswitch.simps(2)]
  show ?case
  proof (cases "c = CHR ''-'' \<or> c = CHR ''0''")
    case True
    then show ?thesis using run "2.IH"(1,2) by (cases "c = CHR ''-''") simp_all
  next
    case flags: False
    show ?thesis
    proof (cases "is_digit c")
      case True
      obtain q r where q: "num_loop (digit c) cs = (q, r)" by force
      with True flags run have
        "reswitch (process_precision (f\<lparr>f_precision := q\<rparr>)) r va = Inr (d, g, rest, va')"
        by simp
      with "2.IH"(3) [OF _ _ True q [symmetric]] flags have "length rest \<le> length r" by blast
      then show ?thesis using num_loop_length [OF q] by simp
    next
      case digit: False
      show ?thesis
      proof (cases "c = CHR ''*''")
        case True
        then show ?thesis using digit run "2.IH"(4) by (cases va) simp_all
      next
        case False
        then show ?thesis
          using flags digit run "2.IH"(5,6,7) by (simp split: if_splits)
      qed
    qed
  qed
qed simp

section \<open>Conversions\<close>

definition error_string :: "string option list" where
  "error_string =
     [None, Some ''unspecified error'', Some ''bad environment'', Some ''invalid parameter'',
      Some ''out of memory'', Some ''out of environments'', Some ''segmentation fault'']"

text \<open>A character of a \<^verbatim>\<open>char\<close> string is signed.\<close>

definition char_int :: "char \<Rightarrow> u32" where
  "char_int c = scast (of_char c :: u8)"

definition strnlen :: "string \<Rightarrow> int \<Rightarrow> int" where
  "strnlen s n = min (int (length s)) (uint (word_of_int n :: u32))"

fun put_spaces :: "'s sink \<Rightarrow> u32 \<Rightarrow> nat \<Rightarrow> 's \<Rightarrow> 's" where
  "put_spaces putch c 0 st = st"
| "put_spaces putch c (Suc n) st = put_spaces putch c n (putch c st)"

text \<open>The loop over the characters of a string, with the width and the precision left.\<close>

fun put_string :: "'s sink \<Rightarrow> bool \<Rightarrow> string \<Rightarrow> int \<Rightarrow> int \<Rightarrow> 's \<Rightarrow> int \<times> 's" where
  "put_string putch alt [] prec w st = (w, st)"
| "put_string putch alt (c # p) prec w st =
     (if prec < 0 \<or> prec - 1 \<ge> 0 then
        let ch = char_int c;
            st1 = (if alt \<and> (ch <s of_char (CHR '' '') \<or> of_char (CHR ''~'') <s ch)
                   then putch (of_char (CHR ''?'')) st else putch ch st)
        in put_string putch alt p (if prec < 0 then prec else prec - 1) (w - 1) st1
      else (w, st))"

definition conv_string :: "'s sink \<Rightarrow> flags \<Rightarrow> string \<Rightarrow> 's \<Rightarrow> 's" where
  "conv_string putch f p st =
     (let (w, st1) =
        (if f_width f > 0 \<and> f_padc f \<noteq> CHR ''-'' then
           let w = f_width f - strnlen p (f_precision f)
           in (min w 0, put_spaces putch (of_char (f_padc f)) (nat w) st)
         else (f_width f, st));
          (w2, st2) = put_string putch (f_altflag f) p (f_precision f) w st1
      in put_spaces putch (of_char (CHR '' '')) (nat w2) st2)"

definition conv_number :: "'s sink \<Rightarrow> flags \<Rightarrow> u64 \<Rightarrow> u64 \<Rightarrow> 's \<Rightarrow> 's" where
  "conv_number putch f base num st = printnum putch num base (f_width f) (of_char (f_padc f)) st"

definition conv_signed :: "'s sink \<Rightarrow> flags \<Rightarrow> u64 \<Rightarrow> 's \<Rightarrow> 's" where
  "conv_signed putch f num st =
     (if num <s 0 then conv_number putch f 10 (- num) (putch (of_char (CHR ''-'')) st)
      else conv_number putch f 10 num st)"

text \<open>
  \<^verbatim>\<open>%e\<close>. The nested calls of \<^verbatim>\<open>printfmt\<close> are written out; \<open>print_error_nested\<close> below shows that
  they are what \<open>vprintfmt\<close> does with their formats.
\<close>

definition put_text :: "'s sink \<Rightarrow> string \<Rightarrow> 's \<Rightarrow> 's" where
  "put_text putch s st = fold (\<lambda>c. putch (of_char c)) s st"

definition conv_error :: "'s sink \<Rightarrow> u32 \<Rightarrow> 's \<Rightarrow> 's res" where
  "conv_error putch x st =
     (let err = (if x <s 0 then - x else x) in
      if sint err > MAXERROR then
        Inr (conv_signed putch no_flags (scast err) (put_text putch ''error '' st))
      else if err <s 0 then Inl (Fault ''error_string index'')
      else case error_string ! unat err of
             None \<Rightarrow> Inr (conv_signed putch no_flags (scast err) (put_text putch ''error '' st))
           | Some p \<Rightarrow> Inr (conv_string putch no_flags p st))"

definition known_conv :: "char \<Rightarrow> bool" where
  "known_conv c \<longleftrightarrow> c \<in> set ''cesduopx%''"

lemma known_conv_simps [simp]:
  "known_conv CHR ''c''" "known_conv CHR ''e''" "known_conv CHR ''s''" "known_conv CHR ''d''"
  "known_conv CHR ''u''" "known_conv CHR ''o''" "known_conv CHR ''p''" "known_conv CHR ''x''"
  "known_conv CHR ''%''" "\<not> known_conv CHR 0x00"
  by (simp_all add: known_conv_def)

definition convert ::
    "'s sink \<Rightarrow> (u32 \<Rightarrow> string) \<Rightarrow> char \<Rightarrow> flags \<Rightarrow> u32 list \<Rightarrow> 's \<Rightarrow> ('s \<times> u32 list) res" where
  "convert putch str c f va st =
     (if c = CHR ''c'' then res_bind (va_int va) (\<lambda>(x, va). Inr (putch x st, va))
      else if c = CHR ''e'' then
        res_bind (va_int va) (\<lambda>(x, va). res_bind (conv_error putch x st) (\<lambda>st. Inr (st, va)))
      else if c = CHR ''s'' then
        res_bind (va_int va) (\<lambda>(x, va).
          Inr (conv_string putch f (if x = 0 then ''(null)'' else str x) st, va))
      else if c = CHR ''d'' then
        res_bind (getint (f_lflag f) va) (\<lambda>(num, va). Inr (conv_signed putch f num st, va))
      else if c = CHR ''u'' then
        res_bind (getuint (f_lflag f) va) (\<lambda>(num, va). Inr (conv_number putch f 10 num st, va))
      else if c = CHR ''o'' then
        res_bind (getuint (f_lflag f) va) (\<lambda>(num, va). Inr (conv_number putch f 8 num st, va))
      else if c = CHR ''p'' then
        res_bind (va_int va) (\<lambda>(x, va).
          Inr (conv_number putch f 16 (ucast x)
                 (putch (of_char (CHR ''x'')) (putch (of_char (CHR ''0'')) st)), va))
      else if c = CHR ''x'' then
        res_bind (getuint (f_lflag f) va) (\<lambda>(num, va). Inr (conv_number putch f 16 num st, va))
      else if c = CHR ''%'' then Inr (putch (of_char c) st, va)
      else Inr (putch (of_char (CHR ''%'')) st, va))"

text \<open>An unknown conversion goes back to the character after the \<^verbatim>\<open>%\<close>.\<close>

function vprintfmt :: "'s sink \<Rightarrow> (u32 \<Rightarrow> string) \<Rightarrow> string \<Rightarrow> u32 list \<Rightarrow> 's \<Rightarrow> 's res" where
  "vprintfmt putch str [] va st = Inr st"
| "vprintfmt putch str (c # fmt) va st =
     (if c = CHR ''%'' then
        case reswitch no_flags fmt va of
          Inl e \<Rightarrow> Inl e
        | Inr (conv, f, rest, va1) \<Rightarrow>
            (case convert putch str conv f va1 st of
               Inl e \<Rightarrow> Inl e
             | Inr (st1, va2) \<Rightarrow>
                 vprintfmt putch str (if known_conv conv then rest else fmt) va2 st1)
      else if c = CHR 0x00 then Inr st
      else vprintfmt putch str fmt va (putch (of_char c) st))"
  by pat_completeness auto
termination
  by (relation "measure (\<lambda>(_, _, fmt, _, _). length fmt)") (auto dest!: reswitch_length)

section \<open>The output does not depend on the sink\<close>

text \<open>A map between two sinks that commutes with putting a character.\<close>

locale sink_map =
  fixes put :: "'s sink" and put' :: "'t sink" and h :: "'s \<Rightarrow> 't"
  assumes h_put: "h (put c st) = put' c (h st)"
begin

lemma map_pad: "h (pad_before put w c st) = pad_before put' w c (h st)"
proof -
  have "p = put \<Longrightarrow> h (pad_before p w c st) = pad_before put' w c (h st)" for p
    by (induction p w c st rule: pad_before.induct)
      (subst (1 2) pad_before.simps, simp add: Let_def h_put)
  then show ?thesis by simp
qed

lemma map_printnum: "h (printnum put n b w c st) = printnum put' n b w c (h st)"
proof -
  have "p = put \<Longrightarrow> h (printnum p n b w c st) = printnum put' n b w c (h st)" for p
    by (induction p n b w c st rule: printnum.induct)
      (subst (1 2) printnum.simps, auto simp: Let_def h_put map_pad)
  then show ?thesis by simp
qed

lemma map_spaces: "h (put_spaces put c n st) = put_spaces put' c n (h st)"
  by (induction n arbitrary: st) (simp_all add: h_put)

lemma map_string: "put_string put' alt p prec w (h st) = map_prod id h (put_string put alt p prec w st)"
  by (induction p arbitrary: prec w st) (auto simp: Let_def h_put [symmetric])

lemma map_text: "h (put_text put s st) = put_text put' s (h st)"
  by (induction s arbitrary: st) (simp_all add: put_text_def h_put)

lemma map_conv_string: "h (conv_string put f p st) = conv_string put' f p (h st)"
  by (simp add: conv_string_def Let_def map_spaces [symmetric] map_string split: prod.split)

lemma map_conv_signed: "h (conv_signed put f n st) = conv_signed put' f n (h st)"
  by (simp add: conv_signed_def conv_number_def map_printnum h_put)

lemma map_conv_error: "conv_error put' x (h st) = map_sum id h (conv_error put x st)"
  by (simp add: conv_error_def Let_def map_conv_signed map_text map_conv_string split: option.split)

lemma map_convert:
  "convert put' str c f va (h st) = map_sum id (map_prod h id) (convert put str c f va st)"
  by (auto simp: convert_def res_bind_def map_conv_signed map_conv_string map_conv_error
      conv_number_def map_printnum h_put split: sum.split prod.split)

lemma map_vprintfmt: "vprintfmt put' str fmt va (h st) = map_sum id h (vprintfmt put str fmt va st)"
proof -
  have "p = put \<Longrightarrow> vprintfmt put' str fmt va (h st) = map_sum id h (vprintfmt p str fmt va st)" for p
  proof (induction p str fmt va st rule: vprintfmt.induct)
    case (2 p str c fmt va st)
    show ?case
    proof (cases "c = CHR ''%''")
      case True
      show ?thesis
      proof (cases "reswitch no_flags fmt va")
        case (Inr r)
        obtain conv f rest va1 where R: "reswitch no_flags fmt va = Inr (conv, f, rest, va1)"
          using Inr by (cases r) auto
        show ?thesis
        proof (cases "convert put str conv f va1 st")
          case Inl
          then show ?thesis using True R 2(3) by (simp add: map_convert)
        next
          case (Inr q)
          obtain st1 va2 where C: "convert p str conv f va1 st = Inr (st1, va2)"
            using Inr 2(3) by (cases q) auto
          note 2(1) [OF True R refl refl refl C refl 2(3)]
          then show ?thesis using True R C 2(3) by (simp add: map_convert)
        qed
      qed (use True in simp)
    next
      case False
      then show ?thesis using 2(2,3) by (simp add: h_put [symmetric])
    qed
  qed simp
  then show ?thesis by simp
qed

end

definition collect :: "u32 list sink" where
  "collect c out = out @ [c]"

definition sink_of :: "'s sink \<Rightarrow> 's \<Rightarrow> u32 list \<Rightarrow> 's" where
  "sink_of put st out = fold put out st"

interpretation collecting: sink_map collect put "sink_of put st" for put :: "'s sink" and st
  by unfold_locales (simp add: collect_def sink_of_def)

lemma collect_fold: "fold collect xs out = out @ xs"
  by (induction xs arbitrary: out) (simp_all add: collect_def)

text \<open>The characters a call of \<open>vprintfmt\<close> puts, in order.\<close>

definition printed :: "(u32 \<Rightarrow> string) \<Rightarrow> string \<Rightarrow> u32 list \<Rightarrow> u32 list res" where
  "printed str fmt va = vprintfmt collect str fmt va []"

lemma vprintfmt_printed:
  "vprintfmt put str fmt va st = map_sum id (\<lambda>out. fold put out st) (printed str fmt va)"
  using collecting.map_vprintfmt [of put str fmt va st "[]"]
  by (simp add: printed_def sink_of_def [abs_def])

section \<open>Numbers as digits\<close>

text \<open>The digits of a number, the most significant first, and the number they stand for.\<close>

function digits :: "nat \<Rightarrow> nat \<Rightarrow> nat list" where
  "digits b n = (if b \<le> n \<and> 1 < b then digits b (n div b) @ [n mod b] else [n])"
  by pat_completeness auto
termination by (relation "measure snd") (auto intro!: div_less_dividend)

declare digits.simps [simp del]

definition number_of :: "nat \<Rightarrow> nat list \<Rightarrow> nat" where
  "number_of b ds = foldl (\<lambda>v d. b * v + d) 0 ds"

lemma number_of_digits: "1 < b \<Longrightarrow> number_of b (digits b n) = n"
  by (induction b n rule: digits.induct) (subst digits.simps, auto simp: number_of_def)

lemma digits_lt: "1 < b \<Longrightarrow> d \<in> set (digits b n) \<Longrightarrow> d < b"
proof (induction b n rule: digits.induct)
  case (1 b n)
  from 1(3) have "d \<in> set (if b \<le> n \<and> 1 < b then digits b (n div b) @ [n mod b] else [n])"
    by (simp only: digits.simps [symmetric])
  with 1(1,2) show ?case by (auto split: if_splits)
qed

lemma digits_nonempty [simp]: "digits b n \<noteq> []"
  by (subst digits.simps) simp

lemma hd_digits: "1 < b \<Longrightarrow> 0 < n \<Longrightarrow> hd (digits b n) \<noteq> 0"
proof (induction b n rule: digits.induct)
  case (1 b n)
  then show ?case
    by (subst digits.simps) (auto simp: div_greater_zero_iff)
qed

lemma pad_before_fold: "pad_before put w c st = fold put (replicate (nat (w - 1)) c) st"
proof (induction put w c st rule: pad_before.induct)
  case (1 put w c st)
  show ?case
  proof (cases "w - 1 > 0")
    case True
    then have "nat (w - 1) = Suc (nat (w - 1 - 1))" by simp
    then show ?thesis using True 1 by (subst pad_before.simps) (simp add: Let_def)
  qed (subst pad_before.simps, simp)
qed

lemma printnum_fold:
  assumes "1 < base"
  shows "printnum put num base w c st =
    fold put (replicate (nat (w - int (length (digits (unat base) (unat num))))) c @
      map hex_digit (digits (unat base) (unat num))) st"
  using assms
proof (induction put num base w c st rule: printnum.induct)
  case (1 put num base w c st)
  have b: "1 < unat base" using 1(2) by (simp add: word_less_nat_alt)
  show ?case
  proof (cases "base \<le> num")
    case True
    then have d: "digits (unat base) (unat num) =
        digits (unat base) (unat (num div base)) @ [unat num mod unat base]"
      using b by (subst digits.simps) (simp add: word_le_nat_alt unat_div_distrib)
    show ?thesis
      using 1 True by (subst printnum.simps) (simp add: d unat_mod_distrib algebra_simps)
  next
    case False
    then have d: "digits (unat base) (unat num) = [unat num]"
      by (subst digits.simps) (simp add: word_le_nat_alt)
    have "unat (num mod base) = unat num"
      using False by (simp add: unat_mod_distrib word_le_nat_alt)
    then show ?thesis using False by (subst printnum.simps) (simp add: d pad_before_fold)
  qed
qed

text \<open>C35: \<^verbatim>\<open>printnum\<close> puts the digits of the number in the base, without leading zeros,
  preceded by pad characters up to the width; read back in the base the digits give the
  number.\<close>

theorem printnum_digits:
  assumes "base \<in> {8, 10, 16}"
  shows "\<exists>ds. printnum put num base w c st =
      fold put (replicate (nat (w - int (length ds))) c @ map hex_digit ds) st \<and>
    number_of (unat base) ds = unat num \<and> list_all (\<lambda>d. d < unat base) ds \<and>
    (num = 0 \<and> ds = [0] \<or> num \<noteq> 0 \<and> hd ds \<noteq> 0)"
proof -
  have b: "1 < base" "1 < unat base" using assms by auto
  define ds where "ds = digits (unat base) (unat num)"
  have "num = 0 \<and> ds = [0] \<or> num \<noteq> 0 \<and> hd ds \<noteq> 0"
  proof (cases "num = 0")
    case True
    then show ?thesis using b by (simp add: ds_def) (subst digits.simps, simp)
  next
    case False
    then show ?thesis using hd_digits [OF b(2), of "unat num"] by (simp add: ds_def unat_gt_0)
  qed
  moreover have "number_of (unat base) ds = unat num" "list_all (\<lambda>d. d < unat base) ds"
    using number_of_digits [OF b(2)] digits_lt [OF b(2)] by (auto simp: ds_def list_all_iff)
  ultimately show ?thesis
    using printnum_fold [OF b(1), of put num w c st] unfolding ds_def [symmetric] by blast
qed

lemma printnum_digits_witness:
  "\<exists>ds. printnum collect 0x2F 16 4 48 [] = replicate (nat (4 - int (length ds))) 48 @ map hex_digit ds \<and>
     number_of 16 ds = 47"
  using printnum_digits [of 16 collect "0x2F" 4 48 "[]"]
  by (simp add: collect_fold del: fold_append fold_replicate) blast

section \<open>Formats\<close>

text \<open>What \<open>printed\<close> is for the pieces of a format.\<close>

lemma vprintfmt_text:
  assumes "CHR ''%'' \<notin> set s" and "CHR 0x00 \<notin> set s"
  shows "vprintfmt put str (s @ fmt) va st = vprintfmt put str fmt va (put_text put s st)"
  using assms by (induction s arbitrary: st) (auto simp: put_text_def)

lemma printed_text:
  assumes "CHR ''%'' \<notin> set fmt" and "CHR 0x00 \<notin> set fmt"
  shows "printed str fmt va = Inr (map of_char fmt)"
proof -
  have "put_text collect s out = out @ map of_char s" for s out
    by (induction s arbitrary: out) (simp_all add: put_text_def collect_def)
  then show ?thesis
    using vprintfmt_text [OF assms, of collect str "[]" va "[]"] by (simp add: printed_def)
qed

text \<open>The characters \<^verbatim>\<open>vprintfmt\<close> puts depend on the format and the arguments only: with
  any output function the final state is that of putting the same list one by one, so the
  console and the buffer of \<^verbatim>\<open>snprintf\<close> receive the same text.\<close>

lemma output_independent_of_sink:
  "vprintfmt put str fmt va st =
     (case vprintfmt collect str fmt va [] of Inl e \<Rightarrow> Inl e | Inr out \<Rightarrow> Inr (fold put out st))"
  using vprintfmt_printed [of put str fmt va st] by (simp add: printed_def split: sum.split)

lemma unat_of_int: "0 \<le> k \<Longrightarrow> k < 2 ^ LENGTH('a) \<Longrightarrow> unat (word_of_int k :: 'a::len word) = nat k"
  by (simp add: unat_eq_nat_uint uint_word_of_int)

lemma sint_range_32: "- 2147483648 \<le> sint (x :: u32)" "sint (x :: u32) < 2147483648"
  using sint_ge [of x] sint_lt [of x] by simp_all

lemma scast_64:
  fixes x :: u32
  shows "(scast x :: u64) <s 0 \<longleftrightarrow> sint x < 0"
    and "0 \<le> sint x \<Longrightarrow> unat (scast x :: u64) = nat (sint x)"
    and "sint x < 0 \<Longrightarrow> unat (- scast x :: u64) = nat (- sint x)"
proof -
  have "sint (scast x :: u64) = sint x"
    unfolding scast_eq sint_sbintrunc'
    by (rule signed_take_bit_int_eq_self) (use sint_range_32 [of x] in simp_all)
  then show "(scast x :: u64) <s 0 \<longleftrightarrow> sint x < 0" by (simp only: word_sless_alt sint_0)
  show "0 \<le> sint x \<Longrightarrow> unat (scast x :: u64) = nat (sint x)"
    unfolding scast_eq by (rule unat_of_int) (use sint_range_32 [of x] in simp_all)
  have "- (scast x :: u64) = word_of_int (- sint x)" by (subst scast_eq) (rule wi_hom_neg)
  moreover have "unat (word_of_int (- sint x) :: u64) = nat (- sint x)" if "sint x < 0"
    by (rule unat_of_int) (use that sint_range_32 [of x] in linarith, use sint_range_32 [of x] in simp)
  ultimately show "sint x < 0 \<Longrightarrow> unat (- scast x :: u64) = nat (- sint x)" by metis
qed

lemma printed_decimal_digits:
  "\<exists>ds. printed str ''%d'' [x] = Inr ((if sint x < 0 then [0x2D] else []) @ map hex_digit ds) \<and>
     sint x = (if sint x < 0 then - 1 else 1) * int (number_of 10 ds) \<and> list_all (\<lambda>d. d < 10) ds \<and> ds \<noteq> []"
proof -
  define num :: u64 where "num = (if sint x < 0 then - scast x else scast x)"
  define ds where "ds = digits 10 (unat num)"
  have out: "printed str ''%d'' [x] = Inr ((if sint x < 0 then [0x2D] else []) @ map hex_digit ds)"
  proof -
    have "printnum collect num 10 (-1) (of_char CHR '' '') st = st @ map hex_digit ds" for st
      using printnum_fold [of 10 collect num "-1" "of_char CHR '' ''" st]
      by (simp add: collect_fold ds_def)
    note out = this
    show ?thesis
    proof (cases "sint x < 0")
      case True
      then show ?thesis
        using out [of "[0x2D]"]
        by (simp add: printed_def no_flags_def is_digit_def convert_def getint_def conv_signed_def
            conv_number_def scast_64(1) num_def collect_def)
    next
      case False
      then show ?thesis
        using out [of "[]"]
        by (simp add: printed_def no_flags_def is_digit_def convert_def getint_def conv_signed_def
            conv_number_def scast_64(1) num_def)
    qed
  qed
  have n: "unat num = nat \<bar>sint x\<bar>"
    using scast_64(2,3) [of x] by (auto simp: num_def)
  have "int (unat num) = \<bar>sint x\<bar>" by (simp only: n int_nat_eq abs_ge_zero if_True)
  then show ?thesis
    using out number_of_digits [of 10 "unat num"] digits_lt [of 10 _ "unat num"]
    by (intro exI [of _ ds]) (auto simp: ds_def list_all_iff)
qed

text \<open>C34: \<^verbatim>\<open>%d\<close> prints a minus sign exactly for the negative values and then the decimal digits
  of the absolute value, for all 32-bit values, the smallest included.\<close>

theorem printed_decimal:
  "\<exists>ds. printed str ''%d'' [x] = Inr ((if sint x < 0 then [0x2D] else []) @ map hex_digit ds) \<and>
     sint x = (if sint x < 0 then - 1 else 1) * int (number_of 10 ds) \<and> list_all (\<lambda>d. d < 10) ds"
  using printed_decimal_digits [of str x] by blast

section \<open>Error codes and strings\<close>

text \<open>The nested formats of \<^verbatim>\<open>%e\<close> do what \<open>conv_error\<close> has in their place.\<close>

lemma print_error_nested:
  "vprintfmt put str ''error %d'' [err] st =
     Inr (conv_signed put no_flags (scast err) (put_text put ''error '' st))"
  "x \<noteq> 0 \<Longrightarrow> vprintfmt put str ''%s'' [x] st = Inr (conv_string put no_flags (str x) st)"
  by (simp_all add: no_flags_def is_digit_def convert_def getint_def put_text_def)

text \<open>\<^verbatim>\<open>%e\<close> treats a code and its negation alike: for the six codes of \<^verbatim>\<open>inc/error.h\<close> both
  print the same text, and the six texts are different.\<close>

lemma printed_error:
  "\<exists>txt. printed str ''%e'' [of_int (error_code e)] = Inr (map of_char txt) \<and>
     printed str ''%e'' [of_int (- error_code e)] = Inr (map of_char txt) \<and>
     error_string ! nat (error_code e) = Some txt \<and> distinct error_string"
  by (cases e)
    (simp_all add: printed_def no_flags_def is_digit_def convert_def conv_error_def
      error_string_def conv_string_def char_int_def collect_def word_sless_alt)

section \<open>Printing to a buffer\<close>

record sprintbuf =
  sb_out :: "u8 list"
  sb_room :: int
  sb_cnt :: int

text \<open>\<open>sb_out\<close> is what was stored from the start of the buffer, \<open>sb_room\<close> is \<^verbatim>\<open>ebuf - buf\<close>.\<close>

definition sprintputch :: "sprintbuf sink" where
  "sprintputch ch b =
     (let b1 = b\<lparr>sb_cnt := sb_cnt b + 1\<rparr>
      in if sb_room b1 > 0 then b1\<lparr>sb_out := sb_out b1 @ [ucast ch], sb_room := sb_room b1 - 1\<rparr>
         else b1)"

text \<open>
  The bytes written to the buffer and the result; \<open>null\<close> says that the buffer pointer is.
\<close>

definition vsnprintf ::
    "bool \<Rightarrow> int \<Rightarrow> (u32 \<Rightarrow> string) \<Rightarrow> string \<Rightarrow> u32 list \<Rightarrow> (jos_error + u8 list \<times> int) res" where
  "vsnprintf null n str fmt va =
     (if null \<or> n < 1 then Inr (Inl E_INVAL)
      else res_bind (vprintfmt sprintputch str fmt va \<lparr>sb_out = [], sb_room = n - 1, sb_cnt = 0\<rparr>)
             (\<lambda>b. Inr (Inr (sb_out b @ [0], sb_cnt b))))"

definition snprintf ::
    "bool \<Rightarrow> int \<Rightarrow> (u32 \<Rightarrow> string) \<Rightarrow> string \<Rightarrow> u32 list \<Rightarrow> (jos_error + u8 list \<times> int) res" where
  "snprintf null n str fmt va = vsnprintf null n str fmt va"

lemma sprintputch_fold:
  "0 \<le> sb_room b \<Longrightarrow> fold sprintputch out b =
     b\<lparr>sb_out := sb_out b @ map ucast (take (nat (sb_room b)) out),
       sb_room := max 0 (sb_room b - int (length out)), sb_cnt := sb_cnt b + int (length out)\<rparr>"
proof (induction out arbitrary: b)
  case (Cons c out)
  show ?case
  proof (cases "sb_room b = 0")
    case True
    then show ?thesis using Cons.IH [of "sprintputch c b"] by (simp add: sprintputch_def)
  next
    case False
    with Cons.prems have "nat (sb_room b) = Suc (nat (sb_room b - 1))" by simp
    then show ?thesis
      using Cons.IH [of "sprintputch c b"] Cons.prems False by (simp add: sprintputch_def)
  qed
qed simp

text \<open>C38: \<^verbatim>\<open>snprintf\<close> refuses a null buffer and a size below 1 with \<^verbatim>\<open>-E_INVAL\<close>; otherwise it
  stores the formatted text cut to \<open>n - 1\<close> characters and a terminating zero, never more than
  \<open>n\<close> bytes, and returns the length of the whole text.\<close>

theorem snprintf_bounds:
  "(case snprintf null n str fmt va of
      Inl e \<Rightarrow> printed str fmt va = Inl e \<and> \<not> null \<and> 1 \<le> n
    | Inr (Inl err) \<Rightarrow> err = E_INVAL \<and> (null \<or> n < 1)
    | Inr (Inr (bytes, r)) \<Rightarrow> \<not> null \<and> 1 \<le> n \<and> int (length bytes) \<le> n \<and>
        (\<exists>out. printed str fmt va = Inr out \<and> r = int (length out) \<and>
           bytes = map ucast (take (nat (n - 1)) out) @ [0]))"
proof (cases "null \<or> n < 1")
  case True
  then show ?thesis by (auto simp: snprintf_def vsnprintf_def)
next
  case False
  then have n: "\<not> null" "1 \<le> n" by auto
  show ?thesis
  proof (cases "printed str fmt va")
    case (Inl e)
    then show ?thesis using n by (simp add: snprintf_def vsnprintf_def vprintfmt_printed)
  next
    case (Inr out)
    let ?b = "\<lparr>sb_out = [], sb_room = n - 1, sb_cnt = 0\<rparr>"
    have "fold sprintputch out ?b = \<lparr>sb_out = map ucast (take (nat (n - 1)) out),
        sb_room = max 0 (n - 1 - int (length out)), sb_cnt = int (length out)\<rparr>"
      using sprintputch_fold [of ?b out] n by simp
    moreover have "int (length (map ucast (take (nat (n - 1)) out) @ [0 :: u8])) \<le> n"
      using n by simp
    ultimately show ?thesis
      using n Inr by (simp add: snprintf_def vsnprintf_def vprintfmt_printed del: length_append)
  qed
qed

section \<open>Printing to the console\<close>

text \<open>
  \<^verbatim>\<open>putch\<close> of \<^verbatim>\<open>kern/printf.c\<close> has a counter to increment, but \<^verbatim>\<open>*cnt++\<close> increments the
  pointer, its own parameter, so the counter stays.
\<close>

definition cprintf_putch :: "'s sink \<Rightarrow> ('s \<times> int) sink" where
  "cprintf_putch cputchar ch = (\<lambda>(st, cnt). (cputchar ch st, cnt))"

definition vcprintf ::
    "'s sink \<Rightarrow> (u32 \<Rightarrow> string) \<Rightarrow> string \<Rightarrow> u32 list \<Rightarrow> 's \<Rightarrow> (int \<times> 's) res" where
  "vcprintf cputchar str fmt va st =
     res_bind (vprintfmt (cprintf_putch cputchar) str fmt va (st, 0)) (\<lambda>(st, cnt). Inr (cnt, st))"

definition cprintf ::
    "'s sink \<Rightarrow> (u32 \<Rightarrow> string) \<Rightarrow> string \<Rightarrow> u32 list \<Rightarrow> 's \<Rightarrow> (int \<times> 's) res" where
  "cprintf cputchar str fmt va st = vcprintf cputchar str fmt va st"

lemma cprintf_putch_fold: "fold (cprintf_putch put) out (st, n) = (fold put out st, n)"
  by (induction out arbitrary: st) (simp_all add: cprintf_putch_def)

text \<open>\<^verbatim>\<open>cprintf\<close> puts on the console exactly the formatted text, and its result is always 0
  although the number of characters was meant.\<close>

lemma cprintf_returns_0:
  "cprintf put str fmt va st = map_sum id (\<lambda>out. (0, fold put out st)) (printed str fmt va)"
  by (cases "printed str fmt va")
    (simp_all add: cprintf_def vcprintf_def vprintfmt_printed cprintf_putch_fold)

end
