(* ===== verification/Console.thy ===== *)
theory Console
  imports Mmu Printfmt
begin

text \<open>
  \<^verbatim>\<open>kern/console.c\<close>: the serial port, the parallel port, the text display, the keyboard and
  the input buffer. The devices are a state \<open>dev\<close> of any type, and \<open>io\<close> gives what the
  processor's \<^verbatim>\<open>in\<close> and \<^verbatim>\<open>out\<close> instructions do to it; \<open>backed\<close> says at which addresses
  there is display memory, a write elsewhere has no effect. Loops that wait for a device are
  partial functions, \<open>None\<close> when the wait never ends.
\<close>

section \<open>State\<close>

record 'd io =
  inb :: "u32 \<Rightarrow> 'd \<Rightarrow> u8 \<times> 'd"
  outb :: "u32 \<Rightarrow> u8 \<Rightarrow> 'd \<Rightarrow> 'd"
  backed :: "u32 \<Rightarrow> bool"

record cons_ring =
  buf :: "u8 list"
  rpos :: u32
  wpos :: u32

record 'd console =
  dev :: 'd
  serial_exists :: bool
  addr_6845 :: u32
  crt_buf :: u32
  crt_pos :: u16
  vmem :: "u32 \<Rightarrow> u16"
  shift :: u32
  cons :: cons_ring

definition dev_in :: "'d io \<Rightarrow> u32 \<Rightarrow> 'd console \<Rightarrow> u8 \<times> 'd console" where
  "dev_in io port s = (let (v, d) = inb io port (dev s) in (v, s\<lparr>dev := d\<rparr>))"

definition dev_out :: "'d io \<Rightarrow> u32 \<Rightarrow> u8 \<Rightarrow> 'd console \<Rightarrow> 'd console" where
  "dev_out io port v s = s\<lparr>dev := outb io port v (dev s)\<rparr>"

definition poke :: "'d io \<Rightarrow> u32 \<Rightarrow> u16 \<Rightarrow> 'd console \<Rightarrow> 'd console" where
  "poke io a v s = (if backed io a then s\<lparr>vmem := (vmem s)(a := v)\<rparr> else s)"

section \<open>Serial port\<close>

definition COM1 :: u32 where [simp]: "COM1 = 0x3F8"
definition COM_RX :: u32 where [simp]: "COM_RX = 0"
definition COM_DLL :: u32 where [simp]: "COM_DLL = 0"
definition COM_DLM :: u32 where [simp]: "COM_DLM = 1"
definition COM_IER :: u32 where [simp]: "COM_IER = 1"
definition COM_IER_RDI :: u8 where [simp]: "COM_IER_RDI = 0x01"
definition COM_IIR :: u32 where [simp]: "COM_IIR = 2"
definition COM_FCR :: u32 where [simp]: "COM_FCR = 2"
definition COM_LCR :: u32 where [simp]: "COM_LCR = 3"
definition COM_LCR_DLAB :: u8 where [simp]: "COM_LCR_DLAB = 0x80"
definition COM_LCR_WLEN8 :: u8 where [simp]: "COM_LCR_WLEN8 = 0x03"
definition COM_MCR :: u32 where [simp]: "COM_MCR = 4"
definition COM_LSR :: u32 where [simp]: "COM_LSR = 5"
definition COM_LSR_DATA :: u8 where [simp]: "COM_LSR_DATA = 0x01"

definition serial_proc_data :: "'d io \<Rightarrow> 'd console \<Rightarrow> int \<times> 'd console" where
  "serial_proc_data io s =
     (let (v, s) = dev_in io (COM1 + COM_LSR) s in
      if v AND COM_LSR_DATA = 0 then (-1, s)
      else let (v, s) = dev_in io (COM1 + COM_RX) s in (uint v, s))"

definition serial_init :: "'d io \<Rightarrow> 'd console \<Rightarrow> 'd console" where
  "serial_init io s =
     (let s = dev_out io (COM1 + COM_FCR) 0 s;
          s = dev_out io (COM1 + COM_LCR) COM_LCR_DLAB s;
          s = dev_out io (COM1 + COM_DLL) (of_nat (115200 div 9600)) s;
          s = dev_out io (COM1 + COM_DLM) 0 s;
          s = dev_out io (COM1 + COM_LCR) (COM_LCR_WLEN8 AND NOT COM_LCR_DLAB) s;
          s = dev_out io (COM1 + COM_MCR) 0 s;
          s = dev_out io (COM1 + COM_IER) COM_IER_RDI s;
          (v, s) = dev_in io (COM1 + COM_LSR) s;
          s = s\<lparr>serial_exists := (v \<noteq> 0xFF)\<rparr>;
          (_, s) = dev_in io (COM1 + COM_IIR) s;
          (_, s) = dev_in io (COM1 + COM_RX) s
      in s)"

section \<open>Parallel port\<close>

definition delay :: "'d io \<Rightarrow> 'd console \<Rightarrow> 'd console" where
  "delay io s =
     (let s = snd (dev_in io 0x84 s); s = snd (dev_in io 0x84 s);
          s = snd (dev_in io 0x84 s); s = snd (dev_in io 0x84 s) in s)"

text \<open>The wait loop of \<^verbatim>\<open>lpt_putc\<close>, with the turns left.\<close>

fun lpt_wait :: "'d io \<Rightarrow> nat \<Rightarrow> 'd console \<Rightarrow> 'd console" where
  "lpt_wait io k s =
     (let (v, s) = dev_in io (0x378 + 1) s in
      case k of
        0 \<Rightarrow> s
      | Suc k' \<Rightarrow> if v AND 0x80 = 0 then lpt_wait io k' (delay io s) else s)"

declare lpt_wait.simps [simp del]

definition lpt_putc :: "'d io \<Rightarrow> u32 \<Rightarrow> 'd console \<Rightarrow> 'd console" where
  "lpt_putc io c s =
     (let s = lpt_wait io 12800 s;
          s = dev_out io (0x378 + 0) (ucast c) s;
          s = dev_out io (0x378 + 2) (0x08 OR 0x04 OR 0x01) s
      in dev_out io (0x378 + 2) 0x08 s)"

section \<open>Text display\<close>

definition MONO_BASE :: u32 where [simp]: "MONO_BASE = 0x3B4"
definition MONO_BUF :: u32 where [simp]: "MONO_BUF = 0xB0000"
definition CGA_BASE :: u32 where [simp]: "CGA_BASE = 0x3D4"
definition CGA_BUF :: u32 where [simp]: "CGA_BUF = 0xB8000"
definition CRT_ROWS :: nat where [simp]: "CRT_ROWS = 25"
definition CRT_COLS :: nat where [simp]: "CRT_COLS = 80"
definition CRT_SIZE :: nat where [simp]: "CRT_SIZE = CRT_ROWS * CRT_COLS"

text \<open>The position register of the display, in two bytes.\<close>

definition read_cursor :: "'d io \<Rightarrow> 'd console \<Rightarrow> u16 \<times> 'd console" where
  "read_cursor io s =
     (let s = dev_out io (addr_6845 s) 14 s;
          (hi, s) = dev_in io (addr_6845 s + 1) s;
          s = dev_out io (addr_6845 s) 15 s;
          (lo, s) = dev_in io (addr_6845 s + 1) s
      in (push_bit 8 (ucast hi) OR ucast lo, s))"

definition cga_init :: "'d io \<Rightarrow> 'd console \<Rightarrow> 'd console" where
  "cga_init io s =
     (let cp = KERNBASE + CGA_BUF;
          was = vmem s cp;
          s = poke io cp 0xA55A s;
          (cp, s) =
            (if vmem s cp \<noteq> 0xA55A then (KERNBASE + MONO_BUF, s\<lparr>addr_6845 := MONO_BASE\<rparr>)
             else (cp, (poke io cp was s)\<lparr>addr_6845 := CGA_BASE\<rparr>));
          (pos, s) = read_cursor io s
      in s\<lparr>crt_buf := cp, crt_pos := pos\<rparr>)"

definition crt_addr :: "u16 \<Rightarrow> 'd console \<Rightarrow> u32" where
  "crt_addr i s = crt_buf s + 2 * ucast i"

text \<open>Scrolling: the rows move up by one, the last row becomes blank.\<close>

fun copy_cells :: "'d io \<Rightarrow> u32 \<Rightarrow> u32 \<Rightarrow> nat \<Rightarrow> 'd console \<Rightarrow> 'd console" where
  "copy_cells io d a 0 s = s"
| "copy_cells io d a (Suc n) s = copy_cells io (d + 2) (a + 2) n (poke io d (vmem s a) s)"

fun blank_cells :: "'d io \<Rightarrow> u32 \<Rightarrow> nat \<Rightarrow> 'd console \<Rightarrow> 'd console" where
  "blank_cells io d 0 s = s"
| "blank_cells io d (Suc n) s = blank_cells io (d + 2) n (poke io d (0x0700 OR 0x20) s)"

definition cga_scroll :: "'d io \<Rightarrow> 'd console \<Rightarrow> 'd console" where
  "cga_scroll io s =
     (if CRT_SIZE \<le> unat (crt_pos s) then
        let s = copy_cells io (crt_buf s) (crt_buf s + 2 * of_nat CRT_COLS) (CRT_SIZE - CRT_COLS) s;
            s = blank_cells io (crt_buf s + 2 * of_nat (CRT_SIZE - CRT_COLS)) CRT_COLS s
        in s\<lparr>crt_pos := crt_pos s - of_nat CRT_COLS\<rparr>
      else s)"

definition set_cursor :: "'d io \<Rightarrow> 'd console \<Rightarrow> 'd console" where
  "set_cursor io s =
     (let s = dev_out io (addr_6845 s) 14 s;
          s = dev_out io (addr_6845 s + 1) (ucast (drop_bit 8 (crt_pos s))) s;
          s = dev_out io (addr_6845 s) 15 s
      in dev_out io (addr_6845 s + 1) (ucast (crt_pos s)) s)"

definition cga_attr :: "u32 \<Rightarrow> u32" where
  "cga_attr c = (if c AND NOT 0xFF = 0 then c OR 0x0700 else c)"

text \<open>A tab is five calls of \<^verbatim>\<open>cons_putc\<close>, which is \<^verbatim>\<open>cga_putc\<close>, with a space.\<close>

function cga_putc :: "'d io \<Rightarrow> u32 \<Rightarrow> 'd console \<Rightarrow> 'd console" where
  "cga_putc io c0 s =
     (let c = cga_attr c0;
          k = c AND 0xff;
          s1 =
            (if k = 0x08 then
               if crt_pos s > 0 then
                 let s = s\<lparr>crt_pos := crt_pos s - 1\<rparr>
                 in poke io (crt_addr (crt_pos s) s) (ucast ((c AND NOT 0xff) OR 0x20)) s
               else s
             else if k = 0x0A then
               let s = s\<lparr>crt_pos := crt_pos s + of_nat CRT_COLS\<rparr>
               in s\<lparr>crt_pos := crt_pos s - crt_pos s mod of_nat CRT_COLS\<rparr>
             else if k = 0x0D then s\<lparr>crt_pos := crt_pos s - crt_pos s mod of_nat CRT_COLS\<rparr>
             else if k = 0x09 then
               let s = cga_putc io 0x20 s; s = cga_putc io 0x20 s; s = cga_putc io 0x20 s;
                   s = cga_putc io 0x20 s
               in cga_putc io 0x20 s
             else (poke io (crt_addr (crt_pos s) s) (ucast c) s)\<lparr>crt_pos := crt_pos s + 1\<rparr>)
      in set_cursor io (cga_scroll io s1))"
  by pat_completeness auto
termination
  by (relation "measure (\<lambda>(_, c, _). if cga_attr c AND 0xff = 0x09 then 1 else 0)")
    (simp_all add: cga_attr_def)

declare cga_putc.simps [simp del]

definition cons_putc :: "'d io \<Rightarrow> u32 \<Rightarrow> 'd console \<Rightarrow> 'd console" where
  "cons_putc io c s = cga_putc io c s"

definition cputchar :: "'d io \<Rightarrow> u32 \<Rightarrow> 'd console \<Rightarrow> 'd console" where
  "cputchar io c s = cons_putc io c s"

definition get_cursor_loc :: "'d io \<Rightarrow> 'd console \<Rightarrow> 'd console" where
  "get_cursor_loc io s =
     (let s = dev_out io (addr_6845 s) 14 s;
          (hi, s) = dev_in io (addr_6845 s + 1) s;
          s = s\<lparr>crt_pos := push_bit 8 (ucast hi)\<rparr>;
          s = dev_out io (addr_6845 s) 15 s;
          (lo, s) = dev_in io (addr_6845 s + 1) s
      in s\<lparr>crt_pos := crt_pos s OR ucast lo\<rparr>)"

end
