(* ===== verification/Terminal.thy ===== *)
theory Terminal
  imports Console
begin

text \<open>
  What the display of \<^verbatim>\<open>kern/console.c\<close> shows: the abstract terminal is the list of the 2000
  cells of the screen and the cursor, and \<^verbatim>\<open>cga_putc\<close> refines its operation.
\<close>

section \<open>The abstract terminal\<close>

type_synonym terminal = "u16 list \<times> nat"

fun term_scroll :: "terminal \<Rightarrow> terminal" where
  "term_scroll (cells, p) =
     (if CRT_SIZE \<le> p then (drop CRT_COLS cells @ replicate CRT_COLS 0x0720, p - CRT_COLS)
      else (cells, p))"

text \<open>A character with its attribute, other than a tab.\<close>

fun term_char :: "u32 \<Rightarrow> terminal \<Rightarrow> terminal" where
  "term_char c (cells, p) =
     (if c AND 0xff = 0x08 then
        if p = 0 then (cells, p) else (cells[p - 1 := ucast ((c AND NOT 0xff) OR 0x20)], p - 1)
      else if c AND 0xff = 0x0A then (cells, (p div CRT_COLS + 1) * CRT_COLS)
      else if c AND 0xff = 0x0D then (cells, p div CRT_COLS * CRT_COLS)
      else (cells[p := ucast c], p + 1))"

definition term_putc :: "u32 \<Rightarrow> terminal \<Rightarrow> terminal" where
  "term_putc c t =
     term_scroll
       (if cga_attr c AND 0xff = 0x09 then ((term_scroll \<circ> term_char 0x0720) ^^ 5) t
        else term_char (cga_attr c) t)"

section \<open>The cells of the display\<close>

definition cell_at :: "u32 \<Rightarrow> nat \<Rightarrow> u32" where
  "cell_at b i = b + 2 * of_nat i"

lemma cell_at_eq_iff: "i < 2000 \<Longrightarrow> j < 2000 \<Longrightarrow> cell_at b i = cell_at b j \<longleftrightarrow> i = j"
proof -
  assume "i < 2000" "j < 2000"
  then have "unat (2 * of_nat i :: u32) = 2 * i" "unat (2 * of_nat j :: u32) = 2 * j"
    using unat_of_nat_small [of "2 * i", where 'a = 32] unat_of_nat_small [of "2 * j", where 'a = 32]
    by simp_all
  then show ?thesis unfolding cell_at_def by (metis add_left_cancel mult_cancel1 zero_neq_numeral)
qed

lemma cell_at_Suc: "cell_at b (Suc i) = cell_at b i + 2"
  by (simp add: cell_at_def algebra_simps)

definition screen :: "'d console \<Rightarrow> u16 list" where
  "screen s = map (\<lambda>i. vmem s (cell_at (crt_buf s) i)) [0..<2000]"

definition term_of :: "'d console \<Rightarrow> terminal" where
  "term_of s = (screen s, unat (crt_pos s))"

definition screen_backed :: "'d io \<Rightarrow> 'd console \<Rightarrow> bool" where
  "screen_backed io s \<longleftrightarrow> (\<forall>i < 2000. backed io (cell_at (crt_buf s) i))"

text \<open>A step that changes the device, the cursor and the screen only.\<close>

definition screen_step :: "'d console \<Rightarrow> 'd console \<Rightarrow> bool" where
  "screen_step s s' \<longleftrightarrow>
     s' = s\<lparr>dev := dev s', crt_pos := crt_pos s', vmem := vmem s'\<rparr> \<and>
     (\<forall>a. a \<notin> cell_at (crt_buf s) ` {..<2000} \<longrightarrow> vmem s' a = vmem s a)"

lemma screen_step_refl [simp]: "screen_step s s"
  by (simp add: screen_step_def)

lemma screen_stepD:
  assumes "screen_step s s'"
  shows "crt_buf s' = crt_buf s" "addr_6845 s' = addr_6845 s" "shift s' = shift s" "cons s' = cons s"
    "serial_exists s' = serial_exists s"
proof -
  have e: "s' = s\<lparr>dev := dev s', crt_pos := crt_pos s', vmem := vmem s'\<rparr>"
    using assms by (simp add: screen_step_def)
  show "crt_buf s' = crt_buf s" "addr_6845 s' = addr_6845 s" "shift s' = shift s" "cons s' = cons s"
    "serial_exists s' = serial_exists s" by (subst e, simp)+
qed

lemma screen_step_trans:
  assumes "screen_step s t" and "screen_step t u"
  shows "screen_step s u"
proof -
  have "t = s\<lparr>dev := dev t, crt_pos := crt_pos t, vmem := vmem t\<rparr>"
    "u = t\<lparr>dev := dev u, crt_pos := crt_pos u, vmem := vmem u\<rparr>"
    using assms by (simp_all add: screen_step_def)
  then have "u = s\<lparr>dev := dev u, crt_pos := crt_pos u, vmem := vmem u\<rparr>" by (cases s; cases t; cases u) simp
  then show ?thesis
    using assms screen_stepD(1) [OF assms(1)] by (simp add: screen_step_def)
qed

lemma screen_backed_step: "screen_step s s' \<Longrightarrow> screen_backed io s' = screen_backed io s"
  by (simp add: screen_backed_def screen_stepD)

lemma poke_cell:
  assumes "screen_backed io s" and "i < 2000"
  shows "screen (poke io (cell_at (crt_buf s) i) v s) = (screen s)[i := v]"
    and "screen_step s (poke io (cell_at (crt_buf s) i) v s)"
    and "crt_pos (poke io (cell_at (crt_buf s) i) v s) = crt_pos s"
proof -
  have b: "backed io (cell_at (crt_buf s) i)" using assms by (simp add: screen_backed_def)
  show "screen (poke io (cell_at (crt_buf s) i) v s) = (screen s)[i := v]"
    using b assms(2)
    by (intro nth_equalityI) (auto simp: screen_def poke_def nth_list_update cell_at_eq_iff)
  show "screen_step s (poke io (cell_at (crt_buf s) i) v s)"
    using b assms(2) by (auto simp: screen_step_def poke_def)
  show "crt_pos (poke io (cell_at (crt_buf s) i) v s) = crt_pos s" by (simp add: poke_def)
qed

lemma copy_cells_screen:
  assumes "screen_backed io s" and "j + n + 80 \<le> 2000" and "crt_buf s = b"
  shows "let s' = copy_cells io (cell_at b j) (cell_at b (j + 80)) n s in
    screen_step s s' \<and> crt_pos s' = crt_pos s \<and>
    (\<forall>i < 2000. screen s' ! i = (if j \<le> i \<and> i < j + n then screen s ! (i + 80) else screen s ! i))"
  using assms
proof (induction n arbitrary: j s)
  case (Suc n)
  define s1 where "s1 = poke io (cell_at b j) (vmem s (cell_at b (j + 80))) s"
  have "j < 2000" using Suc.prems(2) by simp
  note p = poke_cell [OF Suc.prems(1) this, of "vmem s (cell_at b (j + 80))",
      unfolded Suc.prems(3), folded s1_def]
  have "vmem s (cell_at b (j + 80)) = screen s ! (j + 80)"
    using Suc.prems(2,3) by (simp add: screen_def)
  then have scr: "screen s1 = (screen s)[j := screen s ! (j + 80)]" using p(1) by simp
  have len: "length (screen s) = 2000" by (simp add: screen_def)
  have "let s' = copy_cells io (cell_at b (Suc j)) (cell_at b (Suc j + 80)) n s1 in
    screen_step s1 s' \<and> crt_pos s' = crt_pos s1 \<and>
    (\<forall>i < 2000. screen s' ! i = (if Suc j \<le> i \<and> i < Suc j + n then screen s1 ! (i + 80) else screen s1 ! i))"
    by (rule Suc.IH) (use Suc.prems p screen_backed_step screen_stepD(1) [OF p(2)] in auto)
  moreover have "copy_cells io (cell_at b j) (cell_at b (j + 80)) (Suc n) s =
      copy_cells io (cell_at b (Suc j)) (cell_at b (Suc j + 80)) n s1"
    using cell_at_Suc [of b "j + 80"] by (simp add: s1_def cell_at_Suc)
  ultimately have r: "screen_step s1 (copy_cells io (cell_at b j) (cell_at b (j + 80)) (Suc n) s)"
      "crt_pos (copy_cells io (cell_at b j) (cell_at b (j + 80)) (Suc n) s) = crt_pos s1"
      "\<forall>i < 2000. screen (copy_cells io (cell_at b j) (cell_at b (j + 80)) (Suc n) s) ! i =
        (if Suc j \<le> i \<and> i < Suc j + n then screen s1 ! (i + 80) else screen s1 ! i)"
    unfolding Let_def by metis+
  have "screen (copy_cells io (cell_at b j) (cell_at b (j + 80)) (Suc n) s) ! i =
      (if j \<le> i \<and> i < j + Suc n then screen s ! (i + 80) else screen s ! i)" if "i < 2000" for i
    using r(3) that by (cases "i = j") (auto simp: scr len nth_list_update simp del: copy_cells.simps)
  then show ?case
    using screen_step_trans [OF p(2) r(1)] r(2) p(3) by (simp only: Let_def) simp
qed auto

lemma blank_cells_screen:
  assumes "screen_backed io s" and "j + n \<le> 2000" and "crt_buf s = b"
  shows "let s' = blank_cells io (cell_at b j) n s in
    screen_step s s' \<and> crt_pos s' = crt_pos s \<and>
    (\<forall>i < 2000. screen s' ! i = (if j \<le> i \<and> i < j + n then 0x0720 else screen s ! i))"
  using assms
proof (induction n arbitrary: j s)
  case (Suc n)
  define s1 where "s1 = poke io (cell_at b j) (0x0700 OR 0x20) s"
  have "j < 2000" using Suc.prems(2) by simp
  note p = poke_cell [OF Suc.prems(1) this, of "0x0700 OR 0x20", unfolded Suc.prems(3), folded s1_def]
  have len: "length (screen s) = 2000" by (simp add: screen_def)
  have "let s' = blank_cells io (cell_at b (Suc j)) n s1 in
    screen_step s1 s' \<and> crt_pos s' = crt_pos s1 \<and>
    (\<forall>i < 2000. screen s' ! i = (if Suc j \<le> i \<and> i < Suc j + n then 0x0720 else screen s1 ! i))"
    by (rule Suc.IH) (use Suc.prems p screen_backed_step screen_stepD(1) [OF p(2)] in auto)
  moreover have "blank_cells io (cell_at b j) (Suc n) s = blank_cells io (cell_at b (Suc j)) n s1"
    by (simp add: s1_def cell_at_Suc)
  ultimately have r: "screen_step s1 (blank_cells io (cell_at b j) (Suc n) s)"
      "crt_pos (blank_cells io (cell_at b j) (Suc n) s) = crt_pos s1"
      "\<forall>i < 2000. screen (blank_cells io (cell_at b j) (Suc n) s) ! i =
        (if Suc j \<le> i \<and> i < Suc j + n then 0x0720 else screen s1 ! i)"
    unfolding Let_def by metis+
  have "screen (blank_cells io (cell_at b j) (Suc n) s) ! i =
      (if j \<le> i \<and> i < j + Suc n then 0x0720 else screen s ! i)" if "i < 2000" for i
    using r(3) that p(1) by (cases "i = j") (auto simp: len nth_list_update simp del: blank_cells.simps)
  then show ?case
    using screen_step_trans [OF p(2) r(1)] r(2) p(3) by (simp only: Let_def) simp
qed auto

section \<open>Refinement\<close>

lemma set_cursor_step:
  "screen_step s (set_cursor io s)" "term_of (set_cursor io s) = term_of s"
  by (simp_all add: set_cursor_def dev_out_def screen_step_def term_of_def screen_def Let_def)

lemma cga_scroll_refines:
  assumes "screen_backed io s"
  shows "screen_step s (cga_scroll io s)" and "term_of (cga_scroll io s) = term_scroll (term_of s)"
proof -
  define b where "b = crt_buf s"
  define s1 where "s1 = copy_cells io (cell_at b 0) (cell_at b (0 + 80)) 1920 s"
  define s2 where "s2 = blank_cells io (cell_at b 1920) 80 s1"
  note c = copy_cells_screen [OF assms, of 0 1920 b, folded s1_def, unfolded Let_def]
  have r1: "screen_step s s1" "crt_pos s1 = crt_pos s"
    "\<forall>i < 2000. screen s1 ! i = (if i < 1920 then screen s ! (i + 80) else screen s ! i)"
    using c by (simp_all add: b_def)
  then have "screen_backed io s1" "crt_buf s1 = b"
    using assms screen_backed_step screen_stepD(1) by (auto simp: b_def)
  note d = blank_cells_screen [OF this(1), of 1920 80 b, folded s2_def, unfolded Let_def]
  have r2: "screen_step s1 s2" "crt_pos s2 = crt_pos s1"
    "\<forall>i < 2000. screen s2 ! i = (if 1920 \<le> i then 0x0720 else screen s1 ! i)"
    using d \<open>crt_buf s1 = b\<close> by simp_all
  have len: "length (screen t) = 2000" for t :: "'a console" by (simp add: screen_def)
  have scr: "screen s2 = drop 80 (screen s) @ replicate 80 0x0720"
    by (rule nth_equalityI) (simp_all add: len r1(3) r2(3) nth_append add.commute)
  have e: "cga_scroll io s = (if 2000 \<le> unat (crt_pos s) then s2\<lparr>crt_pos := crt_pos s2 - 80\<rparr> else s)"
    using screen_stepD(1) [OF r1(1)]
    by (simp add: cga_scroll_def Let_def s1_def s2_def cell_at_def b_def)
  have step: "screen_step s2 (s2\<lparr>crt_pos := p\<rparr>)" for p by (simp add: screen_step_def)
  show "screen_step s (cga_scroll io s)"
    using screen_step_trans [OF screen_step_trans [OF r1(1) r2(1)] step] by (simp add: e)
  have "unat (crt_pos s - 80) = unat (crt_pos s) - 80" if "2000 \<le> unat (crt_pos s)"
    using that by (subst unat_sub) (simp_all add: word_le_nat_alt)
  then show "term_of (cga_scroll io s) = term_scroll (term_of s)"
    using scr by (simp add: e term_of_def r1(2) r2(2)) (simp add: screen_def)
qed

lemma cursor_column:
  fixes p :: u16
  shows "unat (p - p mod 80) = unat p div 80 * 80"
proof -
  have "unat (p mod 80) = unat p mod 80" by (simp add: unat_mod_distrib)
  moreover from this have "unat (p - p mod 80) = unat p - unat p mod 80"
    by (subst unat_sub) (simp_all add: word_le_nat_alt)
  ultimately show ?thesis by (simp add: minus_mod_eq_div_mult)
qed

text \<open>The part of \<^verbatim>\<open>cga_putc\<close> before scrolling, for a character other than a tab.\<close>

definition cga_char :: "'d io \<Rightarrow> u32 \<Rightarrow> 'd console \<Rightarrow> 'd console" where
  "cga_char io c s =
     (if c AND 0xff = 0x08 then
        if crt_pos s > 0 then
          poke io (crt_addr (crt_pos s - 1) s) (ucast ((c AND NOT 0xff) OR 0x20)) (s\<lparr>crt_pos := crt_pos s - 1\<rparr>)
        else s
      else if c AND 0xff = 0x0A then s\<lparr>crt_pos := crt_pos s + 80 - (crt_pos s + 80) mod 80\<rparr>
      else if c AND 0xff = 0x0D then s\<lparr>crt_pos := crt_pos s - crt_pos s mod 80\<rparr>
      else (poke io (crt_addr (crt_pos s) s) (ucast c) s)\<lparr>crt_pos := crt_pos s + 1\<rparr>)"

lemma cga_putc_char:
  "cga_attr c AND 0xff \<noteq> 0x09 \<Longrightarrow>
    cga_putc io c s = set_cursor io (cga_scroll io (cga_char io (cga_attr c) s))"
  by (subst cga_putc.simps) (auto simp: Let_def cga_char_def crt_addr_def)

lemma crt_addr_cell: "crt_addr p s = cell_at (crt_buf s) (unat p)"
  by (simp add: crt_addr_def cell_at_def)

lemma cga_char_refines:
  assumes "screen_backed io s" and "unat (crt_pos s) < 2000"
  shows "screen_step s (cga_char io c s)" and "term_of (cga_char io c s) = term_char c (term_of s)"
proof -
  have pos: "screen_step s (s\<lparr>crt_pos := p\<rparr>)" "screen (s\<lparr>crt_pos := p\<rparr>) = screen s"
    "screen_backed io (s\<lparr>crt_pos := p\<rparr>) = screen_backed io s" for s :: "'a console" and p
    by (simp_all add: screen_step_def screen_def screen_backed_def)
  show "screen_step s (cga_char io c s)" and "term_of (cga_char io c s) = term_char c (term_of s)"
  proof (atomize (full), cases "c AND 0xff = 0x08")
    case True
    show "screen_step s (cga_char io c s) \<and> term_of (cga_char io c s) = term_char c (term_of s)"
    proof (cases "crt_pos s = 0")
      case True
      then show ?thesis using \<open>c AND 0xff = 0x08\<close> by (simp add: cga_char_def term_of_def)
    next
      case False
      define s0 where "s0 = s\<lparr>crt_pos := crt_pos s - 1\<rparr>"
      define v :: u16 where "v = ucast ((c AND NOT 0xff) OR 0x20)"
      have u: "unat (crt_pos s - 1) = unat (crt_pos s) - 1" using False by (simp add: unat_minus_one)
      have b: "screen_backed io s0" "crt_buf s0 = crt_buf s" using assms(1) pos(3) by (simp_all add: s0_def)
      have i: "unat (crt_pos s - 1) < 2000" using assms(2) u by simp
      note p = poke_cell [OF b(1) i, of v]
      have "cga_char io c s = poke io (cell_at (crt_buf s0) (unat (crt_pos s - 1))) v s0"
        using False True by (simp add: cga_char_def s0_def v_def crt_addr_cell word_gt_0)
      moreover have "screen s0 = screen s" "screen_step s s0" "crt_pos s0 = crt_pos s - 1"
        using pos by (simp_all add: s0_def)
      ultimately show ?thesis
        using p screen_step_trans True False u by (auto simp: term_of_def v_def unat_eq_zero)
    qed
  next
    case bs: False
    show "screen_step s (cga_char io c s) \<and> term_of (cga_char io c s) = term_char c (term_of s)"
    proof (cases "c AND 0xff = 0x0A \<or> c AND 0xff = 0x0D")
      case True
      have "unat (crt_pos s + 80) = unat (crt_pos s) + 80"
        using assms(2) by (subst unat_add_small) simp_all
      moreover have "(x + 80) div 80 * 80 = 80 + x div 80 * 80" for x :: nat by (subst div_add_self2) simp_all
      ultimately show ?thesis
        using True bs pos by (auto simp: cga_char_def term_of_def cursor_column)
    next
      case False
      have "unat (crt_pos s + 1) = unat (crt_pos s) + 1"
        using assms(2) by (subst unat_add_small) simp_all
      then show ?thesis
        using False bs pos(2) poke_cell [OF assms, of "ucast c"] screen_step_trans [OF _ pos(1)]
        by (auto simp: cga_char_def term_of_def crt_addr_cell)
    qed
  qed
qed

lemma term_char_bound: "snd t < 2000 \<Longrightarrow> snd (term_scroll (term_char c t)) < 2000"
proof (cases t)
  fix cells p assume "snd t < 2000" "t = (cells, p)"
  moreover from this have "p div 80 < 25" by auto
  then have "p div 80 * 80 \<le> 1920" by simp
  ultimately show ?thesis by auto
qed

lemma putc_char_refines:
  assumes "screen_backed io s" and "unat (crt_pos s) < 2000" and "cga_attr c AND 0xff \<noteq> 0x09"
  shows "screen_step s (cga_putc io c s) \<and>
    term_of (cga_putc io c s) = term_scroll (term_char (cga_attr c) (term_of s)) \<and>
    unat (crt_pos (cga_putc io c s)) < 2000"
proof -
  let ?s1 = "cga_char io (cga_attr c) s"
  note c = cga_char_refines [OF assms(1,2), of "cga_attr c"]
  have b: "screen_backed io ?s1" using assms(1) screen_backed_step [OF c(1)] by simp
  note sc = cga_scroll_refines [OF b]
  have t: "term_of (cga_putc io c s) = term_scroll (term_char (cga_attr c) (term_of s))"
    unfolding cga_putc_char [OF assms(3)] set_cursor_step sc(2) c(2) ..
  moreover have "screen_step s (cga_putc io c s)"
    unfolding cga_putc_char [OF assms(3)]
    using screen_step_trans [OF screen_step_trans [OF c(1) sc(1)] set_cursor_step(1)] .
  moreover have "unat (crt_pos u) = snd (term_of u)" for u :: "'a console" by (simp add: term_of_def)
  ultimately show ?thesis using term_char_bound [of "term_of s" "cga_attr c"] assms(2) by metis
qed

text \<open>C7: The display refines the abstract terminal: putting a character, controls, tabs and
  scrolling included, changes the screen and the cursor exactly as the terminal operation says,
  keeps the cursor inside the screen, and touches no memory outside the 2000 cells of the screen
  and no other state.\<close>

theorem cga_putc_refines:
  assumes "screen_backed io s" and "unat (crt_pos s) < CRT_SIZE"
  shows "term_of (cga_putc io c s) = term_putc c (term_of s) \<and>
    unat (crt_pos (cga_putc io c s)) < CRT_SIZE \<and> screen_step s (cga_putc io c s)"
proof (cases "cga_attr c AND 0xff = 0x09")
  case False
  then show ?thesis using putc_char_refines [of io s c] assms by (simp add: term_putc_def)
next
  case True
  define P where "P = cga_putc io 0x20"
  have a: "cga_attr 0x20 = 0x0720" by (simp add: cga_attr_def)
  have n: "screen_step s ((P ^^ n) s) \<and> unat (crt_pos ((P ^^ n) s)) < 2000 \<and>
      term_of ((P ^^ n) s) = ((term_scroll \<circ> term_char 0x0720) ^^ n) (term_of s)" for n
  proof (induction n)
    case (Suc n)
    then have "screen_backed io ((P ^^ n) s)" using assms(1) screen_backed_step by blast
    from putc_char_refines [OF this, of "0x20"] Suc show ?case
      using screen_step_trans by (auto simp: P_def a)
  qed (use assms in simp)
  let ?s5 = "(P ^^ 5) s"
  have e: "cga_putc io c s = set_cursor io (cga_scroll io ?s5)"
  proof -
    have "(P ^^ 5) s = P (P (P (P (P s))))" by (simp add: numeral_eq_Suc)
    then show ?thesis using True by (subst cga_putc.simps) (simp add: Let_def P_def)
  qed
  have b: "screen_backed io ?s5" using n [of 5] assms(1) screen_backed_step by blast
  note sc = cga_scroll_refines [OF b]
  have t: "term_of (cga_putc io c s) = term_putc c (term_of s)"
    using n [of 5] True by (simp only: e set_cursor_step sc(2) term_putc_def if_True simp_thms)
  moreover have "snd (term_scroll (term_of ?s5)) < 2000"
  proof -
    have "snd (term_scroll t) < 2000" if "snd t < 2000" for t using that by (cases t) simp
    moreover have "snd (term_of ?s5) < 2000" using n [of 5] unfolding term_of_def snd_conv by (rule conjunct1 [OF conjunct2])
    ultimately show ?thesis by blast
  qed
  then have "unat (crt_pos (cga_putc io c s)) < 2000"
    using set_cursor_step(2) [of io "cga_scroll io ?s5"] sc(2) unfolding e
    by (metis snd_conv term_of_def)
  moreover have "screen_step s (cga_putc io c s)"
    unfolding e using n [of 5] sc(1) set_cursor_step(1) screen_step_trans by blast
  ultimately show ?thesis by simp
qed

text \<open>A machine whose devices are silent, with a blank console.\<close>

definition quiet_io :: "unit io" where
  "quiet_io = \<lparr>inb = \<lambda>_ d. (0, d), outb = \<lambda>_ _ d. d, backed = \<lambda>_. True\<rparr>"

definition blank_console :: "unit console" where
  "blank_console = \<lparr>dev = (), serial_exists = False, addr_6845 = CGA_BASE, crt_buf = KERNBASE + CGA_BUF,
     crt_pos = 0, vmem = \<lambda>_. 0x0720, shift = 0,
     cons = \<lparr>buf = replicate 512 0, rpos = 0, wpos = 0\<rparr>\<rparr>"

lemma cga_putc_refines_witness:
  "term_of (cga_putc quiet_io 0x41 blank_console) = ((screen blank_console)[0 := 0x0741], 1)"
proof -
  have "screen_backed quiet_io blank_console" by (simp add: screen_backed_def quiet_io_def)
  from cga_putc_refines [OF this, of "0x41"] show ?thesis
    by (simp add: term_putc_def cga_attr_def term_of_def blank_console_def)
qed

end
