(* ===== verification/Console_Input.thy ===== *)
theory Console_Input
  imports Terminal
begin

text \<open>
  The input side of \<^verbatim>\<open>kern/console.c\<close>: the keyboard's scan codes and shift state, and the
  circular buffer that interrupts fill and \<^verbatim>\<open>cons_getc\<close> empties. The buffer is an
  implementation of the interface \<open>char_queue\<close>, under which its users are proved.
\<close>

section \<open>Keyboard\<close>

definition SHIFT :: u32 where [simp]: "SHIFT = 1"
definition CTL :: u32 where [simp]: "CTL = 2"
definition ALT :: u32 where [simp]: "ALT = 4"
definition CAPSLOCK :: u32 where [simp]: "CAPSLOCK = 8"
definition NUMLOCK :: u32 where [simp]: "NUMLOCK = 16"
definition SCROLLLOCK :: u32 where [simp]: "SCROLLLOCK = 32"
definition E0ESC :: u32 where [simp]: "E0ESC = 64"

definition KBSTATP :: u32 where [simp]: "KBSTATP = 0x64"
definition KBS_DIB :: u8 where [simp]: "KBS_DIB = 0x01"
definition KBDATAP :: u32 where [simp]: "KBDATAP = 0x60"

definition KEY_HOME :: u8 where [simp]: "KEY_HOME = 0xE0"
definition KEY_END :: u8 where [simp]: "KEY_END = 0xE1"
definition KEY_UP :: u8 where [simp]: "KEY_UP = 0xE2"
definition KEY_DN :: u8 where [simp]: "KEY_DN = 0xE3"
definition KEY_LF :: u8 where [simp]: "KEY_LF = 0xE4"
definition KEY_RT :: u8 where [simp]: "KEY_RT = 0xE5"
definition KEY_PGUP :: u8 where [simp]: "KEY_PGUP = 0xE6"
definition KEY_PGDN :: u8 where [simp]: "KEY_PGDN = 0xE7"
definition KEY_INS :: u8 where [simp]: "KEY_INS = 0xE8"
definition KEY_DEL :: u8 where [simp]: "KEY_DEL = 0xE9"

text \<open>An initialised array of 256 bytes: the leading values, then the designated ones.\<close>

definition byte_table :: "u8 list \<Rightarrow> (nat \<times> u8) list \<Rightarrow> u8 \<Rightarrow> u8" where
  "byte_table vs ds i =
     (case map_of ds (unat i) of
        Some v \<Rightarrow> v
      | None \<Rightarrow> if unat i < length vs then vs ! unat i else 0)"

definition shiftcode :: "u8 \<Rightarrow> u8" where
  "shiftcode = byte_table []
     [(0x1D, ucast CTL), (0x2A, ucast SHIFT), (0x36, ucast SHIFT), (0x38, ucast ALT),
      (0x9D, ucast CTL), (0xB8, ucast ALT)]"

definition togglecode :: "u8 \<Rightarrow> u8" where
  "togglecode = byte_table []
     [(0x3A, ucast CAPSLOCK), (0x45, ucast NUMLOCK), (0x46, ucast SCROLLLOCK)]"

definition key_codes :: "(nat \<times> u8) list" where
  "key_codes =
     [(0xC8, KEY_UP), (0xC9, KEY_PGUP), (0xCB, KEY_LF), (0xCD, KEY_RT), (0xCF, KEY_END),
      (0xD0, KEY_DN), (0xD1, KEY_PGDN), (0xD2, KEY_INS), (0xD3, KEY_DEL)]"

definition chars :: "string \<Rightarrow> u8 list" where
  "chars = map of_char"

definition normalmap :: "u8 \<Rightarrow> u8" where
  "normalmap = byte_table
     ([0, 0x1B] @ chars ''1234567890-='' @ [0x08, 0x09] @ chars ''qwertyuiop[]'' @ [0x0A, 0] @
      chars ''asdfghjkl;'' @ [0x27, 0x60, 0, 0x5C] @ chars ''zxcvbnm,./'' @ [0] @ chars ''*'' @
      [0] @ chars '' '' @ replicate 13 0 @ chars ''789-456+1230.'' @ replicate 4 0)
     ([(0x97, KEY_HOME), (0x9C, 0x0A), (0xB5, of_char (CHR ''/''))] @ key_codes)"

definition shiftmap :: "u8 \<Rightarrow> u8" where
  "shiftmap = byte_table
     ([0, 0x1B] @ chars ''!@#$%^&*()_+'' @ [0x08, 0x09] @ chars ''QWERTYUIOP{}'' @ [0x0A, 0] @
      chars ''ASDFGHJKL:'' @ [0x22] @ chars ''~'' @ [0] @ chars ''|ZXCVBNM<>?'' @ [0] @ chars ''*'' @
      [0] @ chars '' '' @ replicate 13 0 @ chars ''789-456+1230.'' @ replicate 4 0)
     ([(0x97, KEY_HOME), (0x9C, 0x0A), (0xB5, of_char (CHR ''/''))] @ key_codes)"

definition ctl_char :: "char \<Rightarrow> u8" where
  "ctl_char x = of_char x - of_char (CHR ''@'')"

definition ctlmap :: "u8 \<Rightarrow> u8" where
  "ctlmap = byte_table
     (replicate 16 0 @ map ctl_char ''QWERTYUIOP'' @ [0, 0, 0x0D, 0] @ map ctl_char ''ASDFGHJKL'' @
      [0, 0, 0, 0, 0x5C - of_char (CHR ''@'')] @ map ctl_char ''ZXCVBNM'' @
      [0, 0, ctl_char (CHR ''/''), 0, 0])
     ([(0x97, KEY_HOME), (0xB5, ctl_char (CHR ''/''))] @ key_codes)"

definition charcode :: "u32 \<Rightarrow> u8 \<Rightarrow> u8" where
  "charcode i = (if i = 0 then normalmap else if i = 1 then shiftmap else ctlmap)"

text \<open>The new shift state and the character for a byte from the keyboard.\<close>

definition kbd_key :: "u8 \<Rightarrow> u32 \<Rightarrow> int \<times> u32" where
  "kbd_key data sh =
     (if data = 0xE0 then (0, sh OR E0ESC)
      else if data AND 0x80 \<noteq> 0 then
        let data = (if sh AND E0ESC \<noteq> 0 then data else data AND 0x7F)
        in (0, sh AND NOT (ucast (shiftcode data) OR E0ESC))
      else
        let (data, sh) = (if sh AND E0ESC \<noteq> 0 then (data OR 0x80, sh AND NOT E0ESC) else (data, sh));
            sh = sh OR ucast (shiftcode data);
            sh = sh XOR ucast (togglecode data);
            c = uint (charcode (sh AND (CTL OR SHIFT)) data);
            c = (if sh AND CAPSLOCK \<noteq> 0 then
                   if of_char (CHR ''a'') \<le> c \<and> c \<le> of_char (CHR ''z'') then c + (of_char (CHR ''A'') - of_char (CHR ''a''))
                   else if of_char (CHR ''A'') \<le> c \<and> c \<le> of_char (CHR ''Z'') then c + (of_char (CHR ''a'') - of_char (CHR ''A''))
                   else c
                 else c)
        in (c, sh))"

definition console_print :: "'d io \<Rightarrow> string \<Rightarrow> 'd console \<Rightarrow> 'd console" where
  "console_print io fmt s =
     (case cprintf (cputchar io) (\<lambda>_. []) fmt [] s of Inl _ \<Rightarrow> s | Inr (_, s) \<Rightarrow> s)"

definition kbd_proc_data :: "'d io \<Rightarrow> 'd console \<Rightarrow> int \<times> 'd console" where
  "kbd_proc_data io s =
     (let (st, s) = dev_in io KBSTATP s in
      if st AND KBS_DIB = 0 then (-1, s)
      else
        let (data, s) = dev_in io KBDATAP s;
            (c, sh) = kbd_key data (shift s);
            s = s\<lparr>shift := sh\<rparr>
        in if NOT sh AND (CTL OR ALT) = 0 \<and> c = uint KEY_DEL then
             (c, dev_out io 0x92 0x3 (console_print io (''Rebooting!'' @ [CHR 0x0A]) s))
           else (c, s))"

section \<open>The input buffer\<close>

definition CONSBUFSIZE :: nat where [simp]: "CONSBUFSIZE = 512"

definition cons_put :: "u8 \<Rightarrow> cons_ring \<Rightarrow> cons_ring" where
  "cons_put c r =
     (let r = r\<lparr>buf := (buf r)[unat (wpos r) := c], wpos := wpos r + 1\<rparr>
      in if wpos r = of_nat CONSBUFSIZE then r\<lparr>wpos := 0\<rparr> else r)"

definition cons_take :: "cons_ring \<Rightarrow> u8 option \<times> cons_ring" where
  "cons_take r =
     (if rpos r \<noteq> wpos r then
        let c = buf r ! unat (rpos r);
            r = r\<lparr>rpos := rpos r + 1\<rparr>
        in (Some c, if rpos r = of_nat CONSBUFSIZE then r\<lparr>rpos := 0\<rparr> else r)
      else (None, r))"

partial_function (option) cons_intr ::
    "('d console \<Rightarrow> int \<times> 'd console) \<Rightarrow> 'd console \<Rightarrow> 'd console option" where
  "cons_intr proc s =
     (case proc s of (c, s) \<Rightarrow>
        if c = -1 then Some s
        else cons_intr proc (if c = 0 then s else s\<lparr>cons := cons_put (of_int c) (cons s)\<rparr>))"

definition serial_intr :: "'d io \<Rightarrow> 'd console \<Rightarrow> 'd console option" where
  "serial_intr io s = (if serial_exists s then cons_intr (serial_proc_data io) s else Some s)"

definition kbd_intr :: "'d io \<Rightarrow> 'd console \<Rightarrow> 'd console option" where
  "kbd_intr io s = cons_intr (kbd_proc_data io) s"

definition cons_getc :: "'d io \<Rightarrow> 'd console \<Rightarrow> (u32 \<times> 'd console) option" where
  "cons_getc io s =
     (case serial_intr io s of
        None \<Rightarrow> None
      | Some s \<Rightarrow>
          (case kbd_intr io s of
             None \<Rightarrow> None
           | Some s \<Rightarrow>
               (case cons_take (cons s) of
                  (None, _) \<Rightarrow> Some (0, s)
                | (Some c, r) \<Rightarrow> Some (ucast c, s\<lparr>cons := r\<rparr>))))"

partial_function (option) getchar :: "'d io \<Rightarrow> 'd console \<Rightarrow> (u32 \<times> 'd console) option" where
  "getchar io s =
     (case cons_getc io s of
        None \<Rightarrow> None
      | Some (c, s) \<Rightarrow> if c = 0 then getchar io s else Some (c, s))"

definition iscons :: "u32 \<Rightarrow> int" where
  "iscons fdnum = 1"

definition cons_init :: "'d io \<Rightarrow> 'd console \<Rightarrow> 'd console" where
  "cons_init io s =
     (let s = cga_init io s;
          s = serial_init io s
      in if \<not> serial_exists s then
           console_print io (''Serial port does not exist!'' @ [CHR 0x0A]) s
         else s)"

section \<open>The interface of the buffer\<close>

locale char_queue =
  fixes put :: "'c \<Rightarrow> 'q \<Rightarrow> 'q"
    and get :: "'q \<Rightarrow> 'c option \<times> 'q"
    and pending :: "'q \<Rightarrow> 'c list"
    and ok :: "'q \<Rightarrow> bool"
    and cap :: nat
  assumes ok_put: "ok q \<Longrightarrow> ok (put c q)"
    and pending_put: "ok q \<Longrightarrow> length (pending q) < cap \<Longrightarrow> pending (put c q) = pending q @ [c]"
    and ok_get: "ok q \<Longrightarrow> ok (snd (get q))"
    and get_empty: "ok q \<Longrightarrow> pending q = [] \<Longrightarrow> get q = (None, q)"
    and get_first: "ok q \<Longrightarrow> pending q = c # cs \<Longrightarrow> fst (get q) = Some c \<and> pending (snd (get q)) = cs"
begin

lemma put_all:
  "ok q \<Longrightarrow> length (pending q) + length cs \<le> cap \<Longrightarrow>
    ok (fold put cs q) \<and> pending (fold put cs q) = pending q @ cs"
  by (induction cs arbitrary: q) (simp_all add: ok_put pending_put)

lemma get_after:
  assumes "ok q" and "length (pending q) + length cs \<le> cap"
  shows "case pending q @ cs of
      [] \<Rightarrow> get (fold put cs q) = (None, fold put cs q)
    | x # xs \<Rightarrow> fst (get (fold put cs q)) = Some x \<and> pending (snd (get (fold put cs q))) = xs"
proof -
  have a: "ok (fold put cs q)" "pending (fold put cs q) = pending q @ cs"
    using put_all [OF assms] by simp_all
  show ?thesis
    using get_empty [OF a(1)] get_first [OF a(1)] by (cases "pending q @ cs") (simp_all add: a(2))
qed

end

section \<open>The circular buffer\<close>

definition ring_ok :: "cons_ring \<Rightarrow> bool" where
  "ring_ok r \<longleftrightarrow> length (buf r) = 512 \<and> unat (rpos r) < 512 \<and> unat (wpos r) < 512"

definition ring_size :: "cons_ring \<Rightarrow> nat" where
  "ring_size r = (unat (wpos r) + 512 - unat (rpos r)) mod 512"

definition ring_list :: "cons_ring \<Rightarrow> u8 list" where
  "ring_list r = map (\<lambda>k. buf r ! ((unat (rpos r) + k) mod 512)) [0..<ring_size r]"

lemma length_ring_list [simp]: "length (ring_list r) = ring_size r"
  by (simp add: ring_list_def)

lemma next_pos:
  assumes "unat (p :: u32) < 512"
  shows "unat (if p + 1 = of_nat 512 then 0 else p + 1) = (unat p + 1) mod 512"
proof -
  have "unat (p + 1) = unat p + 1" using assms by (subst unat_add_small) simp_all
  then show ?thesis using assms by (auto simp: word_unat_eq_iff)
qed

lemma cons_put_fields:
  "buf (cons_put c r) = (buf r)[unat (wpos r) := c]" "rpos (cons_put c r) = rpos r"
  "wpos (cons_put c r) = (if wpos r + 1 = of_nat 512 then 0 else wpos r + 1)"
  by (simp_all add: cons_put_def Let_def)

lemma ring_size_put:
  assumes "ring_ok r"
  shows "ring_size (cons_put c r) = (ring_size r + 1) mod 512"
proof -
  have "unat (wpos (cons_put c r)) = (unat (wpos r) + 1) mod 512"
    unfolding cons_put_fields by (rule next_pos) (use assms in \<open>simp add: ring_ok_def\<close>)
  then show ?thesis
    using assms unfolding ring_size_def cons_put_fields(2) ring_ok_def by (auto simp: mod_if split: if_splits)
qed

lemma ring_wpos:
  assumes "ring_ok r"
  shows "(unat (rpos r) + ring_size r) mod 512 = unat (wpos r)"
  using assms by (auto simp: ring_ok_def ring_size_def mod_if)

lemma ring_put:
  assumes "ring_ok r"
  shows "ring_ok (cons_put c r)"
    and "ring_size r < 511 \<Longrightarrow> ring_list (cons_put c r) = ring_list r @ [c]"
    and "ring_size r = 511 \<Longrightarrow> ring_list (cons_put c r) = []"
proof -
  show "ring_ok (cons_put c r)"
    using assms next_pos [of "wpos r"] by (simp add: ring_ok_def cons_put_fields split: if_splits)
  show "ring_list (cons_put c r) = []" if "ring_size r = 511"
    using that ring_size_put [OF assms, of c] by (simp add: ring_list_def)
  show "ring_list (cons_put c r) = ring_list r @ [c]" if lt: "ring_size r < 511"
  proof -
    have n: "ring_size (cons_put c r) = Suc (ring_size r)"
      using lt ring_size_put [OF assms, of c] by simp
    have other: "(unat (rpos r) + k) mod 512 \<noteq> unat (wpos r)" if "k < ring_size r" for k
    proof
      assume "(unat (rpos r) + k) mod 512 = unat (wpos r)"
      with ring_wpos [OF assms] have "(unat (rpos r) + k) mod 512 = (unat (rpos r) + ring_size r) mod 512" by simp
      then show False using that lt assms by (auto simp: ring_ok_def mod_if split: if_splits)
    qed
    show ?thesis
      using assms ring_wpos [OF assms] other [THEN not_sym]
      by (simp add: ring_list_def n cons_put_fields ring_ok_def)
  qed
qed

lemma cons_take_fields:
  "rpos r \<noteq> wpos r \<Longrightarrow> fst (cons_take r) = Some (buf r ! unat (rpos r))"
  "rpos r \<noteq> wpos r \<Longrightarrow> buf (snd (cons_take r)) = buf r"
  "rpos r \<noteq> wpos r \<Longrightarrow> wpos (snd (cons_take r)) = wpos r"
  "rpos r \<noteq> wpos r \<Longrightarrow> rpos (snd (cons_take r)) = (if rpos r + 1 = of_nat 512 then 0 else rpos r + 1)"
  by (simp_all add: cons_take_def Let_def)

lemma ring_empty_iff: "ring_ok r \<Longrightarrow> ring_size r = 0 \<longleftrightarrow> rpos r = wpos r"
  by (auto simp: ring_ok_def ring_size_def word_unat_eq_iff mod_if split: if_splits)

lemma ring_take:
  assumes "ring_ok r" and "rpos r \<noteq> wpos r"
  shows "ring_ok (snd (cons_take r))"
    and "ring_list r = buf r ! unat (rpos r) # ring_list (snd (cons_take r))"
proof -
  have p: "unat (rpos (snd (cons_take r))) = (unat (rpos r) + 1) mod 512"
    unfolding cons_take_fields(4) [OF assms(2)] by (rule next_pos) (use assms(1) in \<open>simp add: ring_ok_def\<close>)
  show "ring_ok (snd (cons_take r))"
    using assms p by (simp add: ring_ok_def cons_take_fields)
  have "ring_size r \<noteq> 0" using assms ring_empty_iff by blast
  have n: "ring_size r = Suc (ring_size (snd (cons_take r)))"
    using assms(1) \<open>ring_size r \<noteq> 0\<close> unfolding ring_size_def p cons_take_fields(3) [OF assms(2)] ring_ok_def
    by (auto simp: mod_if split: if_splits)
  have "map f [0..<Suc m] = f 0 # map (\<lambda>k. f (Suc k)) [0..<m]" for f :: "nat \<Rightarrow> u8" and m
    by (simp add: upt_conv_Cons map_Suc_upt [symmetric] comp_def del: upt_Suc)
  then show "ring_list r = buf r ! unat (rpos r) # ring_list (snd (cons_take r))"
    using assms(1) unfolding ring_list_def n
    by (simp add: p cons_take_fields(2) [OF assms(2)] ring_ok_def mod_simps del: upt_Suc)
qed

interpretation ring: char_queue cons_put cons_take ring_list ring_ok 511
proof
  fix q :: cons_ring and c :: u8 and cs :: "u8 list"
  assume ok: "ring_ok q"
  show "ring_ok (cons_put c q)" using ok by (rule ring_put)
  show "length (ring_list q) < 511 \<Longrightarrow> ring_list (cons_put c q) = ring_list q @ [c]"
    using ring_put(2) [OF ok] by simp
  show "ring_ok (snd (cons_take q))"
    using ok ring_take(1) [OF ok] by (cases "rpos q = wpos q") (simp_all add: cons_take_def)
  show "ring_list q = [] \<Longrightarrow> cons_take q = (None, q)"
    using ring_empty_iff [OF ok] by (simp add: cons_take_def ring_list_def)
  show "ring_list q = c # cs \<Longrightarrow> fst (cons_take q) = Some c \<and> ring_list (snd (cons_take q)) = cs"
  proof -
    assume l: "ring_list q = c # cs"
    then have "rpos q \<noteq> wpos q" using ring_empty_iff [OF ok] length_ring_list [of q] by auto
    then show ?thesis using ring_take(2) [OF ok] l by (simp add: cons_take_fields)
  qed
qed

section \<open>Reading from the console\<close>

text \<open>
  \<open>supplies proc s vs s'\<close>: called again and again from \<open>s\<close>, the device routine returns the
  values \<open>vs\<close> and then, in \<open>s'\<close>, no more; the buffer is not its business, so its state at
  each call does not matter to it.
\<close>

fun supplies ::
    "('d console \<Rightarrow> int \<times> 'd console) \<Rightarrow> 'd console \<Rightarrow> int list \<Rightarrow> 'd console \<Rightarrow> bool" where
  "supplies proc s [] s' \<longleftrightarrow> proc s = (-1, s')"
| "supplies proc s (v # vs) s' \<longleftrightarrow>
     v \<noteq> -1 \<and> fst (proc s) = v \<and> supplies proc (snd (proc s)) vs s'"

definition keeps_ring :: "('d console \<Rightarrow> int \<times> 'd console) \<Rightarrow> bool" where
  "keeps_ring proc \<longleftrightarrow>
     (\<forall>s r. proc (s\<lparr>cons := r\<rparr>) = (fst (proc s), (snd (proc s))\<lparr>cons := r\<rparr>))"

definition typed :: "int list \<Rightarrow> u8 list" where
  "typed vs = map of_int (filter (\<lambda>v. v \<noteq> 0) vs)"

lemma cons_intr_supplies:
  assumes keeps: "keeps_ring proc"
  shows "supplies proc s vs s' \<Longrightarrow>
    cons_intr proc (s\<lparr>cons := r\<rparr>) = Some (s'\<lparr>cons := fold cons_put (typed vs) r\<rparr>)"
proof (induction vs arbitrary: s r)
  case Nil
  then show ?case using keeps by (subst cons_intr.simps) (simp add: keeps_ring_def typed_def)
next
  case (Cons v vs)
  have e: "proc (s\<lparr>cons := r\<rparr>) = (v, (snd (proc s))\<lparr>cons := r\<rparr>)"
    using keeps Cons.prems by (simp add: keeps_ring_def)
  show ?case
    using Cons.IH [of "snd (proc s)" r] Cons.IH [of "snd (proc s)" "cons_put (of_int v) r"] Cons.prems
    by (subst cons_intr.simps) (simp add: e typed_def)
qed

text \<open>The display code does not look at the buffer either.\<close>

definition with_ring :: "cons_ring \<Rightarrow> 'd console \<Rightarrow> 'd console" where
  "with_ring r s = s\<lparr>cons := r\<rparr>"

lemma with_ring_upd:
  "(with_ring r s)\<lparr>dev := d\<rparr> = with_ring r (s\<lparr>dev := d\<rparr>)"
  "(with_ring r s)\<lparr>crt_pos := p\<rparr> = with_ring r (s\<lparr>crt_pos := p\<rparr>)"
  "(with_ring r s)\<lparr>vmem := m\<rparr> = with_ring r (s\<lparr>vmem := m\<rparr>)"
  "(with_ring r s)\<lparr>shift := h\<rparr> = with_ring r (s\<lparr>shift := h\<rparr>)"
  "dev (with_ring r s) = dev s" "crt_pos (with_ring r s) = crt_pos s"
  "crt_buf (with_ring r s) = crt_buf s" "addr_6845 (with_ring r s) = addr_6845 s"
  "vmem (with_ring r s) = vmem s" "shift (with_ring r s) = shift s"
  "serial_exists (with_ring r s) = serial_exists s"
  by (cases s; simp add: with_ring_def)+

lemma dev_with_ring:
  "dev_in io p (with_ring r s) = (fst (dev_in io p s), with_ring r (snd (dev_in io p s)))"
  "dev_out io p v (with_ring r s) = with_ring r (dev_out io p v s)"
  "poke io a w (with_ring r s) = with_ring r (poke io a w s)"
  by (simp_all add: dev_in_def dev_out_def poke_def with_ring_upd Let_def split: prod.split)

lemma copy_with_ring: "copy_cells io d a n (with_ring r s) = with_ring r (copy_cells io d a n s)"
  by (induction n arbitrary: d a s) (simp_all add: dev_with_ring with_ring_upd)

lemma blank_with_ring: "blank_cells io d n (with_ring r s) = with_ring r (blank_cells io d n s)"
  by (induction n arbitrary: d s) (simp_all add: dev_with_ring)

lemma cga_putc_with_ring: "cga_putc io c (with_ring r s) = with_ring r (cga_putc io c s)"
proof -
  have tail: "set_cursor io (cga_scroll io (with_ring r s)) = with_ring r (set_cursor io (cga_scroll io s))" for s
    by (simp add: set_cursor_def cga_scroll_def Let_def dev_with_ring with_ring_upd copy_with_ring blank_with_ring)
  have char: "cga_char io c (with_ring r s) = with_ring r (cga_char io c s)" for c s
    by (simp add: cga_char_def crt_addr_def dev_with_ring with_ring_upd)
  have nontab: "cga_putc io c (with_ring r s) = with_ring r (cga_putc io c s)" if "cga_attr c AND 0xff \<noteq> 0x09" for c s
    unfolding cga_putc_char [OF that] char tail ..
  show ?thesis
  proof (cases "cga_attr c AND 0xff = 0x09")
    case True
    have "cga_putc io 0x20 (with_ring r s) = with_ring r (cga_putc io 0x20 s)" for s
      by (rule nontab) (simp add: cga_attr_def)
    then show ?thesis using True by (subst (1 2) cga_putc.simps) (simp add: Let_def tail)
  qed (rule nontab)
qed

interpretation ring_print: sink_map "cputchar io" "cputchar io" "with_ring r" for io :: "'d io" and r
  by unfold_locales (simp add: cputchar_def cons_putc_def cga_putc_with_ring)

lemma console_print_with_ring: "console_print io fmt (with_ring r s) = with_ring r (console_print io fmt s)"
proof -
  have "fold (cputchar io) out (with_ring r s) = with_ring r (fold (cputchar io) out s)" for out
    by (induction out arbitrary: s) (simp_all add: ring_print.h_put [symmetric])
  then show ?thesis
    by (cases "printed (\<lambda>_. []) fmt []")
      (simp_all add: console_print_def cprintf_def vcprintf_def vprintfmt_printed cprintf_putch_fold)
qed

lemma keeps_ringI:
  "(\<And>s r. proc (with_ring r s) = (fst (proc s), with_ring r (snd (proc s)))) \<Longrightarrow> keeps_ring proc"
  by (simp add: keeps_ring_def with_ring_def)

lemma serial_keeps_ring: "keeps_ring (serial_proc_data io)"
  by (rule keeps_ringI) (simp add: serial_proc_data_def dev_with_ring Let_def case_prod_beta)

lemma kbd_keeps_ring: "keeps_ring (kbd_proc_data io)"
  by (rule keeps_ringI)
    (simp add: kbd_proc_data_def dev_with_ring with_ring_upd console_print_with_ring Let_def case_prod_beta)

text \<open>C21: One call of cons_getc collects everything the serial port and the keyboard have to say,
  in this order, behind what was already waiting, and returns the oldest character, or 0 if
  there is none: the console is a first-in first-out queue of the bytes that are not 0, as long
  as no more than 511 are waiting.\<close>

theorem cons_getc_fifo:
  assumes ok: "ring_ok (cons s)" and port: "serial_exists s"
    and serial: "supplies (serial_proc_data io) s vs s1"
    and kbd: "supplies (kbd_proc_data io) s1 ws s2"
    and room: "ring_size (cons s) + length (typed vs) + length (typed ws) \<le> 511"
  shows "\<exists>r. ring_ok r \<and>
    cons_getc io s = Some (case ring_list (cons s) @ typed vs @ typed ws of [] \<Rightarrow> 0 | c # _ \<Rightarrow> ucast c, s2\<lparr>cons := r\<rparr>) \<and>
    ring_list r = tl (ring_list (cons s) @ typed vs @ typed ws)"
proof -
  define q where "q = fold cons_put (typed vs @ typed ws) (cons s)"
  have "serial_intr io s = Some (s1\<lparr>cons := fold cons_put (typed vs) (cons s)\<rparr>)"
    using cons_intr_supplies [OF serial_keeps_ring serial, of "cons s"] port by (simp add: serial_intr_def)
  moreover have "kbd_intr io (s1\<lparr>cons := fold cons_put (typed vs) (cons s)\<rparr>) = Some (s2\<lparr>cons := q\<rparr>)"
    using cons_intr_supplies [OF kbd_keeps_ring kbd] by (simp add: kbd_intr_def q_def)
  ultimately have run: "cons_getc io s =
      (case cons_take q of (None, _) \<Rightarrow> Some (0, s2\<lparr>cons := q\<rparr>) | (Some c, r) \<Rightarrow> Some (ucast c, s2\<lparr>cons := r\<rparr>))"
    by (simp add: cons_getc_def split: prod.split option.split)
  have a: "length (ring_list (cons s)) + length (typed vs @ typed ws) \<le> 511" using room by simp
  note all = ring.put_all [OF ok a, folded q_def]
  note get = ring.get_after [OF ok a, folded q_def]
  show ?thesis
  proof (cases "ring_list (cons s) @ typed vs @ typed ws")
    case Nil
    then show ?thesis using get all run by (intro exI [of _ q]) simp
  next
    case (Cons c cs)
    then have "fst (cons_take q) = Some c" "ring_list (snd (cons_take q)) = cs" using get by simp_all
    moreover have "ring_ok (snd (cons_take q))" using all ring.ok_get by blast
    ultimately show ?thesis
      using run Cons by (intro exI [of _ "snd (cons_take q)"]) (simp add: case_prod_beta)
  qed
qed

text \<open>Devices that deliver a given script: the bytes of the serial port and of the keyboard.\<close>

definition script_io :: "(u8 list \<times> u8 list) io" where
  "script_io =
     \<lparr>inb = \<lambda>p (ser, kbd).
        (if p = 0x3FD then if ser = [] then (0, (ser, kbd)) else (1, (ser, kbd))
         else if p = 0x3F8 then (hd ser, (tl ser, kbd))
         else if p = 0x64 then if kbd = [] then (0, (ser, kbd)) else (1, (ser, kbd))
         else if p = 0x60 then (hd kbd, (ser, tl kbd))
         else (0, (ser, kbd))),
      outb = \<lambda>_ _ d. d, backed = \<lambda>_. True\<rparr>"

definition script_console :: "u8 list \<Rightarrow> u8 list \<Rightarrow> (u8 list \<times> u8 list) console" where
  "script_console ser kbd = \<lparr>dev = (ser, kbd), serial_exists = True, addr_6845 = CGA_BASE,
     crt_buf = KERNBASE + CGA_BUF, crt_pos = 0, vmem = \<lambda>_. 0x0720, shift = 0,
     cons = \<lparr>buf = replicate 512 0, rpos = 511, wpos = 511\<rparr>\<rparr>"

lemma cons_getc_fifo_witness:
  "\<exists>s'. cons_getc script_io (script_console [0x68] [0x17, 0x97]) = Some (0x68, s') \<and>
     ring_list (cons s') = [0x69]"
proof -
  let ?s = "script_console [0x68] [0x17, 0x97]"
  let ?s1 = "script_console [] [0x17, 0x97]" and ?s2 = "script_console [] []"
  have key: "kbd_key 0x17 0 = (0x69, 0)" "kbd_key 0x97 0 = (0, 0)"
    by (simp_all add: kbd_key_def shiftcode_def togglecode_def byte_table_def charcode_def
        normalmap_def chars_def key_codes_def)
  have "supplies (serial_proc_data script_io) ?s [0x68] ?s1"
    by (simp add: serial_proc_data_def dev_in_def script_io_def script_console_def)
  moreover have "supplies (kbd_proc_data script_io) ?s1 [0x69, 0] ?s2"
    by (simp add: kbd_proc_data_def dev_in_def script_io_def script_console_def key)
  ultimately have "\<exists>r. ring_ok r \<and>
    cons_getc script_io ?s = Some (case ring_list (cons ?s) @ typed [0x68] @ typed [0x69, 0] of
        [] \<Rightarrow> 0 | c # _ \<Rightarrow> ucast c, ?s2\<lparr>cons := r\<rparr>) \<and>
    ring_list r = tl (ring_list (cons ?s) @ typed [0x68] @ typed [0x69, 0])"
    by (intro cons_getc_fifo) (simp_all add: ring_ok_def ring_size_def typed_def script_console_def)
  then show ?thesis
    by (auto simp: ring_list_def ring_size_def typed_def script_console_def)
qed

text \<open>With 511 characters waiting one more loses all of them.\<close>

lemma cons_put_overflow: "ring_ok r \<Longrightarrow> ring_size r = 511 \<Longrightarrow> ring_list (cons_put c r) = []"
  by (rule ring_put(3))

end
