(* ===== verification/Str_Lib.thy ===== *)
theory Str_Lib
  imports Printfmt
begin

text \<open>
  \<^verbatim>\<open>lib/string.c\<close>. Memory is a map from 32-bit addresses to bytes, and pointers wrap. A loop
  that looks for a terminating zero may not find one, so it is a partial function, \<open>None\<close> when
  it runs forever; a loop with a count recurses on the count. The integer results are 32-bit
  words. \<open>cstr m a s\<close> says that the bytes \<open>s\<close> and a terminating zero are stored from \<open>a\<close> on.
\<close>

type_synonym bytes = "u32 \<Rightarrow> u8"

section \<open>Lengths\<close>

partial_function (option) strlen_loop :: "bytes \<Rightarrow> u32 \<Rightarrow> u32 \<Rightarrow> u32 option" where
  "strlen_loop m s n = (if m s \<noteq> 0 then strlen_loop m (s + 1) (n + 1) else Some n)"

definition strlen :: "bytes \<Rightarrow> u32 \<Rightarrow> u32 option" where
  "strlen m s = strlen_loop m s 0"

fun strnlen_loop :: "bytes \<Rightarrow> u32 \<Rightarrow> nat \<Rightarrow> u32 \<Rightarrow> u32" where
  "strnlen_loop m s 0 n = n"
| "strnlen_loop m s (Suc k) n =
     (if m s \<noteq> 0 then strnlen_loop m (s + 1) k (n + 1) else n)"

definition strnlen_at :: "bytes \<Rightarrow> u32 \<Rightarrow> u32 \<Rightarrow> u32" where
  "strnlen_at m s k = strnlen_loop m s (unat k) 0"

section \<open>Copying\<close>

partial_function (option) strcpy_loop :: "bytes \<Rightarrow> u32 \<Rightarrow> u32 \<Rightarrow> bytes option" where
  "strcpy_loop m dst src =
     (let m1 = m(dst := m src)
      in if m1 dst \<noteq> 0 then strcpy_loop m1 (dst + 1) (src + 1) else Some m1)"

definition strcpy :: "u32 \<Rightarrow> u32 \<Rightarrow> bytes \<Rightarrow> (u32 \<times> bytes) option" where
  "strcpy dst src m = map_option (\<lambda>m1. (dst, m1)) (strcpy_loop m dst src)"

fun strncpy_loop :: "bytes \<Rightarrow> u32 \<Rightarrow> u32 \<Rightarrow> nat \<Rightarrow> bytes" where
  "strncpy_loop m dst src 0 = m"
| "strncpy_loop m dst src (Suc n) =
     (let m1 = m(dst := m src)
      in strncpy_loop m1 (dst + 1) (if m1 src \<noteq> 0 then src + 1 else src) n)"

definition strncpy :: "u32 \<Rightarrow> u32 \<Rightarrow> u32 \<Rightarrow> bytes \<Rightarrow> u32 \<times> bytes" where
  "strncpy dst src k m = (dst, strncpy_loop m dst src (unat k))"

text \<open>The loop \<^verbatim>\<open>while (--size > 0 && *src != 0)\<close>, its argument being the size left, less 1.\<close>

fun strlcpy_loop :: "bytes \<Rightarrow> u32 \<Rightarrow> u32 \<Rightarrow> nat \<Rightarrow> u32 \<times> bytes" where
  "strlcpy_loop m dst src 0 = (dst, m)"
| "strlcpy_loop m dst src (Suc n) =
     (if m src \<noteq> 0 then strlcpy_loop (m(dst := m src)) (dst + 1) (src + 1) n else (dst, m))"

definition strlcpy :: "u32 \<Rightarrow> u32 \<Rightarrow> u32 \<Rightarrow> bytes \<Rightarrow> u32 \<times> bytes" where
  "strlcpy dst src k m =
     (let dst_in = dst;
          (dst, m) =
            (if k > 0 then
               let (d, m1) = strlcpy_loop m dst src (unat (k - 1)) in (d, m1(d := 0))
             else (dst, m))
      in (dst - dst_in, m))"

section \<open>Comparing and searching\<close>

partial_function (option) strcmp :: "bytes \<Rightarrow> u32 \<Rightarrow> u32 \<Rightarrow> int option" where
  "strcmp m p q =
     (if m p \<noteq> 0 \<and> m p = m q then strcmp m (p + 1) (q + 1) else Some (uint (m p) - uint (m q)))"

fun strncmp_loop :: "bytes \<Rightarrow> u32 \<Rightarrow> u32 \<Rightarrow> nat \<Rightarrow> int" where
  "strncmp_loop m p q 0 = 0"
| "strncmp_loop m p q (Suc n) =
     (if m p \<noteq> 0 \<and> m p = m q then strncmp_loop m (p + 1) (q + 1) n else uint (m p) - uint (m q))"

definition strncmp :: "bytes \<Rightarrow> u32 \<Rightarrow> u32 \<Rightarrow> u32 \<Rightarrow> int" where
  "strncmp m p q n = strncmp_loop m p q (unat n)"

partial_function (option) strchr :: "bytes \<Rightarrow> u32 \<Rightarrow> u8 \<Rightarrow> u32 option" where
  "strchr m s c =
     (if m s \<noteq> 0 then if m s = c then Some s else strchr m (s + 1) c else Some 0)"

partial_function (option) strfind :: "bytes \<Rightarrow> u32 \<Rightarrow> u8 \<Rightarrow> u32 option" where
  "strfind m s c =
     (if m s \<noteq> 0 then if m s = c then Some s else strfind m (s + 1) c else Some s)"

section \<open>Blocks of memory\<close>

text \<open>\<^verbatim>\<open>memset\<close> counts in a signed \<^verbatim>\<open>int\<close>: a size of 2GB or more counts as negative.\<close>

fun memset_loop :: "bytes \<Rightarrow> u32 \<Rightarrow> u8 \<Rightarrow> nat \<Rightarrow> bytes" where
  "memset_loop m p c 0 = m"
| "memset_loop m p c (Suc n) = memset_loop (m(p := c)) (p + 1) c n"

definition memset :: "u32 \<Rightarrow> u32 \<Rightarrow> u32 \<Rightarrow> bytes \<Rightarrow> u32 \<times> bytes" where
  "memset v c n m = (v, memset_loop m v (ucast c) (nat (sint n)))"

fun copy_up :: "bytes \<Rightarrow> u32 \<Rightarrow> u32 \<Rightarrow> nat \<Rightarrow> bytes" where
  "copy_up m d s 0 = m"
| "copy_up m d s (Suc n) = copy_up (m(d := m s)) (d + 1) (s + 1) n"

fun copy_down :: "bytes \<Rightarrow> u32 \<Rightarrow> u32 \<Rightarrow> nat \<Rightarrow> bytes" where
  "copy_down m d s 0 = m"
| "copy_down m d s (Suc n) = copy_down (m(d - 1 := m (s - 1))) (d - 1) (s - 1) n"

definition memcpy :: "u32 \<Rightarrow> u32 \<Rightarrow> u32 \<Rightarrow> bytes \<Rightarrow> u32 \<times> bytes" where
  "memcpy dst src n m = (dst, copy_up m dst src (unat n))"

definition memmove :: "u32 \<Rightarrow> u32 \<Rightarrow> u32 \<Rightarrow> bytes \<Rightarrow> u32 \<times> bytes" where
  "memmove dst src n m =
     (dst, if src < dst \<and> src + n > dst then copy_down m (dst + n) (src + n) (unat n)
           else copy_up m dst src (unat n))"

fun memcmp_loop :: "bytes \<Rightarrow> u32 \<Rightarrow> u32 \<Rightarrow> nat \<Rightarrow> int" where
  "memcmp_loop m s1 s2 0 = 0"
| "memcmp_loop m s1 s2 (Suc n) =
     (if m s1 \<noteq> m s2 then uint (m s1) - uint (m s2) else memcmp_loop m (s1 + 1) (s2 + 1) n)"

definition memcmp :: "bytes \<Rightarrow> u32 \<Rightarrow> u32 \<Rightarrow> u32 \<Rightarrow> int" where
  "memcmp m v1 v2 n = memcmp_loop m v1 v2 (unat n)"

text \<open>The search stops at the address \<open>s + n\<close>, which may have wrapped.\<close>

function memfind_loop :: "bytes \<Rightarrow> u32 \<Rightarrow> u8 \<Rightarrow> u32 \<Rightarrow> u32" where
  "memfind_loop m s c ends =
     (if s < ends then if m s = c then s else memfind_loop m (s + 1) c ends else s)"
  by pat_completeness auto
termination
proof (relation "measure (\<lambda>(_, s, _, ends). unat (ends - s))")
  fix s ends :: u32 and m :: bytes and c :: u8
  assume "s < ends"
  then have "unat (ends - s) = unat ends - unat s" "unat s < unat ends"
    by (simp_all add: unat_sub word_less_nat_alt order.strict_implies_order)
  moreover have "unat (s + 1) = unat s + 1"
  proof (rule trans [OF unat_add_small])
    have "unat s < unat ends" using \<open>s < ends\<close> by (simp add: word_less_nat_alt)
    then show "unat s + unat (1 :: u32) < 2 ^ LENGTH(32)"
      using unat_lt_32 [of ends] unfolding unsigned_1 by (simp, linarith)
  qed simp
  moreover from this have "unat (ends - (s + 1)) = unat ends - (unat s + 1)"
    using \<open>s < ends\<close> by (subst unat_sub) (auto simp: word_le_nat_alt word_less_nat_alt)
  ultimately show "((m, s + 1, c, ends), m, s, c, ends) \<in> measure (\<lambda>(_, s, _, ends). unat (ends - s))"
    by simp
qed simp

declare memfind_loop.simps [simp del]

definition memfind :: "bytes \<Rightarrow> u32 \<Rightarrow> u32 \<Rightarrow> u32 \<Rightarrow> u32" where
  "memfind m s c n = memfind_loop m s (ucast c) (s + n)"

section \<open>Reading a number\<close>

partial_function (option) skip_blanks :: "bytes \<Rightarrow> u32 \<Rightarrow> u32 option" where
  "skip_blanks m s = (if m s = 0x20 \<or> m s = 0x09 then skip_blanks m (s + 1) else Some s)"

text \<open>The value of a digit, \<open>None\<close> where the loop leaves.\<close>

definition strtol_digit :: "u8 \<Rightarrow> u32 option" where
  "strtol_digit c =
     (if 0x30 \<le> c \<and> c \<le> 0x39 then Some (ucast c - 0x30)
      else if 0x61 \<le> c \<and> c \<le> 0x7A then Some (ucast c - 0x61 + 10)
      else if 0x41 \<le> c \<and> c \<le> 0x5A then Some (ucast c - 0x41 + 10)
      else None)"

partial_function (option) strtol_loop :: "bytes \<Rightarrow> u32 \<Rightarrow> u32 \<Rightarrow> u32 \<Rightarrow> (u32 \<times> u32) option" where
  "strtol_loop m s base val =
     (case strtol_digit (m s) of
        None \<Rightarrow> Some (val, s)
      | Some dig \<Rightarrow>
          if base \<le>s dig then Some (val, s)
          else strtol_loop m (s + 1) base (val * base + dig))"

text \<open>The value and the end pointer.\<close>

definition strtol :: "bytes \<Rightarrow> u32 \<Rightarrow> u32 \<Rightarrow> (u32 \<times> u32) option" where
  "strtol m s base =
     (case skip_blanks m s of
        None \<Rightarrow> None
      | Some s \<Rightarrow>
          let (s, neg) =
                (if m s = 0x2B then (s + 1, False)
                 else if m s = 0x2D then (s + 1, True) else (s, False));
              (s, base) =
                (if (base = 0 \<or> base = 16) \<and> m s = 0x30 \<and> m (s + 1) = 0x78 then (s + 2, 16)
                 else if base = 0 \<and> m s = 0x30 then (s + 1, 8)
                 else if base = 0 then (s, 10) else (s, base))
          in map_option (\<lambda>(val, s). (if neg then - val else val, s)) (strtol_loop m s base 0))"

section \<open>Strings in memory\<close>

fun cstr :: "bytes \<Rightarrow> u32 \<Rightarrow> u8 list \<Rightarrow> bool" where
  "cstr m a [] \<longleftrightarrow> m a = 0"
| "cstr m a (c # cs) \<longleftrightarrow> c \<noteq> 0 \<and> m a = c \<and> cstr m (a + 1) cs"

lemma strlen_loop_cstr: "cstr m a s \<Longrightarrow> strlen_loop m a n = Some (n + of_nat (length s))"
  by (induction s arbitrary: a n) (auto simp: strlen_loop.simps [of m] algebra_simps)

lemma strnlen_loop_cstr: "cstr m a s \<Longrightarrow> strnlen_loop m a k n = n + of_nat (min k (length s))"
  by (induction s arbitrary: a n k) (case_tac k; auto simp: algebra_simps min_def)+

lemma diff_uint_0:
  "uint a - uint b = 0 \<longleftrightarrow> a = b" "uint a = uint b \<longleftrightarrow> a = b" "uint a = 0 \<longleftrightarrow> a = 0" for a b :: u8
  by (simp_all add: word_uint_eq_iff)

lemma strcmp_cstr:
  "cstr m p s \<Longrightarrow> cstr m q t \<Longrightarrow> \<exists>r. strcmp m p q = Some r \<and> (r = 0 \<longleftrightarrow> s = t)"
proof (induction s arbitrary: p q t)
  case Nil
  then show ?case by (cases t) (auto simp: strcmp.simps [of m p q] diff_uint_0)
next
  case (Cons c s)
  show ?case
  proof (cases "t \<noteq> [] \<and> hd t = c")
    case True
    then obtain t' where "t = c # t'" by (cases t) auto
    then show ?thesis using Cons by (auto simp: strcmp.simps [of m p q])
  next
    case False
    then show ?thesis using Cons.prems
      by (cases t) (auto simp: strcmp.simps [of m p q] diff_uint_0)
  qed
qed

section \<open>Moving blocks\<close>

lemma unat_pred: "unat (x - 1 :: u32) = (if x = 0 then 4294967295 else unat x - 1)"
proof (cases "x = 0")
  case True
  have "unat (- 1 :: u32) = 4294967295" by (simp add: unsigned_minus_1_eq_mask mask_eq_exp_minus_1)
  then show ?thesis using True by simp
qed (simp add: unat_minus_one)

lemma copy_up_at:
  assumes "n \<le> 4294967296" and "d = s \<or> n \<le> unat (d - s)"
  shows "copy_up m d s n a = (if unat (a - d) < n then m (s + (a - d)) else m a)"
  using assms
proof (induction n arbitrary: m d s)
  case (Suc n)
  let ?m = "m(d := m s)"
  have "copy_up m d s (Suc n) a = copy_up ?m (d + 1) (s + 1) n a" by simp
  also have "\<dots> = (if unat (a - (d + 1)) < n then ?m (s + 1 + (a - (d + 1))) else ?m a)"
    by (rule Suc.IH) (use Suc.prems in auto)
  also have "\<dots> = (if unat (a - d) < Suc n then m (s + (a - d)) else m a)"
  proof (cases "a = d")
    case True
    then show ?thesis using Suc.prems(1) by simp
  next
    case False
    then have p: "unat (a - d - 1) = unat (a - d) - 1" "unat (a - d) \<noteq> 0"
      by (auto simp: unat_pred unat_eq_zero)
    have e: "s + 1 + (a - (d + 1)) = s + (a - d)" "a - (d + 1) = a - d - 1" by simp_all
    have "s + (a - d) \<noteq> d" if "unat (a - d) < Suc n"
    proof
      assume "s + (a - d) = d"
      then have "a - d = d - s" by (metis add_diff_cancel_left')
      with that Suc.prems(2) False show False by auto
    qed
    then show ?thesis using False p unfolding e by auto
  qed
  finally show ?case .
qed simp

text \<open>Copying down is copying up with the addresses counted from the other end.\<close>

lemma copy_down_up:
  "copy_down m d s n a = copy_up (\<lambda>x. m (- x - 1)) (- d) (- s) n (- a - 1)"
proof (induction n arbitrary: m d s)
  case (Suc n)
  have "(\<lambda>x. (m(d - 1 := m (s - 1))) (- x - 1)) = (\<lambda>x. m (- x - 1))(- d := m (s - 1))"
  proof
    fix x :: u32
    have "- x - 1 = d - 1 \<longleftrightarrow> x = - d" by (auto simp: algebra_simps)
    then show "(m(d - 1 := m (s - 1))) (- x - 1) = ((\<lambda>x. m (- x - 1))(- d := m (s - 1))) x" by simp
  qed
  note upd = this
  have "copy_down m d s (Suc n) a = copy_down (m(d - 1 := m (s - 1))) (d - 1) (s - 1) n a"
    by (simp only: copy_down.simps)
  also have "\<dots> = copy_up ((\<lambda>x. m (- x - 1))(- d := m (s - 1))) (- (d - 1)) (- (s - 1)) n (- a - 1)"
    by (simp only: Suc.IH upd)
  also have "\<dots> = copy_up (\<lambda>x. m (- x - 1)) (- d) (- s) (Suc n) (- a - 1)"
    by (simp add: algebra_simps)
  finally show ?case .
qed simp

lemma copy_down_at:
  assumes "n \<le> 4294967296" and "d = s \<or> n \<le> unat (s - d)"
  shows "copy_down m d s n a = (if unat (d - a - 1) < n then m (s - (d - a)) else m a)"
proof -
  have "copy_down m d s n a = (if unat (- a - 1 - (- d)) < n
      then m (- (- s + (- a - 1 - (- d))) - 1) else m (- (- a - 1) - 1))"
    unfolding copy_down_up by (rule copy_up_at) (use assms in \<open>auto simp: algebra_simps\<close>)
  then show ?thesis by (simp add: algebra_simps)
qed

lemma in_block_iff:
  "unat (n - x - 1) < unat n \<longleftrightarrow> unat x < unat n" for n x :: u32
proof (cases "unat x < unat n")
  case True
  then have "unat (n - x) = unat n - unat x" by (subst unat_sub) (simp_all add: word_le_nat_alt)
  then show ?thesis using True by (auto simp: unat_pred)
next
  case False
  then show ?thesis
  proof (cases "n = x")
    case True
    then have "unat (n - x - 1) = 4294967295" by (simp only: diff_self unat_pred simp_thms if_True)
    then show ?thesis using unat_lt_32 [of n] False by linarith
  next
    case ne: False
    then have "unat (n - x) = 4294967296 + unat n - unat x"
      using False by (simp add: unat_sub_if_size word_size word_le_nat_alt) (simp add: word_unat_eq_iff)
    moreover from ne have "n - x \<noteq> 0" by simp
    ultimately have "unat (n - x - 1) = 4294967295 + unat n - unat x" by (simp add: unat_pred)
    then show ?thesis using False unat_lt_32 [of x] by linarith
  qed
qed

text \<open>C32: memmove copies the block as it was before, byte by byte, and changes nothing else, also
  when the two blocks overlap, in either direction. The source must end below the top of the
  address space: there the test for an overlap would wrap.\<close>

theorem memmove_copies:
  assumes src: "unat src + unat n < 2 ^ 32" and dst: "unat dst + unat n \<le> 2 ^ 32"
  shows "memmove dst src n m = (dst, \<lambda>a. if a - dst < n then m (src + (a - dst)) else m a)"
proof -
  have lt: "unat n \<le> 4294967296" using unat_lt_32 [of n] by linarith
  have sum: "unat (src + n) = unat src + unat n" by (rule unat_add_small) (use src in simp_all)
  have "snd (memmove dst src n m) a = (if a - dst < n then m (src + (a - dst)) else m a)" for a
  proof (cases "src < dst \<and> src + n > dst")
    case True
    then have "unat (src - dst) = 4294967296 + unat src - unat dst"
      by (simp add: unat_sub_if_size word_size word_le_nat_alt word_less_nat_alt)
    then have "unat n \<le> unat (src + n - (dst + n))" using dst by simp
    from copy_down_at [OF lt disjI2, OF this, of m a] show ?thesis
      using True in_block_iff [of n "a - dst"]
      by (simp add: memmove_def word_less_nat_alt algebra_simps)
  next
    case False
    have "dst = src \<or> unat n \<le> unat (dst - src)"
    proof (cases "src \<le> dst")
      case True
      then have "unat (dst - src) = unat dst - unat src" by (rule unat_sub)
      then show ?thesis using True False sum by (auto simp: word_less_nat_alt word_le_nat_alt word_unat_eq_iff)
    next
      case False
      then have "unat (dst - src) = 4294967296 + unat dst - unat src"
        by (simp add: unat_sub_if_size word_size word_le_nat_alt)
      then show ?thesis using src by (intro disjI2) simp
    qed
    from copy_up_at [OF lt this, of m a] show ?thesis
      using False by (auto simp: memmove_def word_less_nat_alt)
  qed
  then show ?thesis by (simp add: prod_eq_iff fun_eq_iff) (simp add: memmove_def)
qed

lemma memmove_copies_witness:
  "memmove 0x1004 0x1000 16 (\<lambda>a. ucast a) = (0x1004, \<lambda>a. if a - 0x1004 < 16 then ucast (0x1000 + (a - 0x1004)) else ucast a)"
  by (rule memmove_copies) simp_all

section \<open>Setting blocks\<close>

lemma memset_loop_at:
  "n \<le> 4294967296 \<Longrightarrow> memset_loop m p c n a = (if unat (a - p) < n then c else m a)"
proof (induction n arbitrary: m p)
  case (Suc n)
  then show ?case
    using Suc.IH [of "m(p := c)" "p + 1"] unat_pred [of "a - p"] by (auto simp: algebra_simps unat_eq_zero)
qed simp

lemma sint_of_nat_32: "n < 2147483648 \<Longrightarrow> sint (of_nat n :: u32) = int n"
  by (simp add: signed_of_nat signed_take_bit_int_eq_self)

lemma sint_32_cases:
  "if unat n < 2147483648 then sint n = int (unat n) else sint n < 0" for n :: u32
proof (cases "sint n < 0")
  case True
  then show ?thesis using sint_of_nat_32 [of "unat n"] by auto
next
  case False
  then have "unat (word_of_int (sint n) :: u32) = nat (sint n)"
    by (intro unat_of_int) (use sint_range_32 [of n] in simp_all)
  then show ?thesis using False sint_range_32 [of n] by simp
qed

text \<open>Below 2GB \<^verbatim>\<open>memset\<close> fills the block; above, where the count is negative, it does nothing.\<close>

lemma memset_eq:
  "snd (memset v c n m) =
     (\<lambda>a. if unat n < 2147483648 \<and> a - v < n then ucast c else m a)"
proof
  fix a
  show "snd (memset v c n m) a = (if unat n < 2147483648 \<and> a - v < n then ucast c else m a)"
    using sint_32_cases [of n] memset_loop_at [of "unat n" m v "ucast c" a]
    by (simp add: memset_def word_less_nat_alt split: if_splits)
qed

section \<open>Reading numbers back\<close>

lemma upto_16: "[0..<16] = [0, 1, 2, 3, 4, 5, 6, 7, 8, 9, 10, 11, 12, 13, 14, 15]"
  by (simp add: upt_conv_Cons)

lemma strtol_digit_hex:
  assumes "d < 16"
  shows "strtol_digit (ucast (hex_digit d)) = Some (of_nat d)"
    and "d < 10 \<Longrightarrow> ucast (hex_digit d) \<noteq> (0x20 :: u8)" "d < 10 \<Longrightarrow> ucast (hex_digit d) \<noteq> (0x09 :: u8)"
    and "d < 10 \<Longrightarrow> ucast (hex_digit d) \<noteq> (0x2B :: u8)" "d < 10 \<Longrightarrow> ucast (hex_digit d) \<noteq> (0x2D :: u8)"
proof -
  have "list_all (\<lambda>d. strtol_digit (ucast (hex_digit d)) = Some (of_nat d) \<and>
      (if d < 10 then ucast (hex_digit d) \<notin> {0x20, 0x09, 0x2B, 0x2D :: u8} else True)) [0..<16]"
    unfolding upto_16 by (simp add: hex_digit_def strtol_digit_def)
  then have "strtol_digit (ucast (hex_digit d)) = Some (of_nat d) \<and>
      (if d < 10 then ucast (hex_digit d) \<notin> {0x20, 0x09, 0x2B, 0x2D :: u8} else True)"
    unfolding list_all_iff by (rule bspec) (simp add: assms)
  then show "strtol_digit (ucast (hex_digit d)) = Some (of_nat d)"
    and "d < 10 \<Longrightarrow> ucast (hex_digit d) \<noteq> (0x20 :: u8)" "d < 10 \<Longrightarrow> ucast (hex_digit d) \<noteq> (0x09 :: u8)"
    and "d < 10 \<Longrightarrow> ucast (hex_digit d) \<noteq> (0x2B :: u8)" "d < 10 \<Longrightarrow> ucast (hex_digit d) \<noteq> (0x2D :: u8)"
    by auto
qed

lemma strtol_loop_digits:
  assumes "b \<le> 16"
  shows "list_all (\<lambda>d. d < b) ds \<Longrightarrow> cstr m a (map ucast (map hex_digit ds)) \<Longrightarrow>
    strtol_loop m a (of_nat b) (of_nat v) =
      Some (of_nat (foldl (\<lambda>v d. b * v + d) v ds), a + of_nat (length ds))"
proof (induction ds arbitrary: a v)
  case Nil
  then show ?case by (simp add: strtol_loop.simps [of m a] strtol_digit_def)
next
  case (Cons d ds)
  then have d: "d < 16" "d < b" using assms by auto
  then have "\<not> (of_nat b :: u32) \<le>s of_nat d"
    using assms by (simp add: word_sle_eq sint_of_nat_32)
  then show ?case
    using Cons.prems Cons.IH [of "a + 1" "b * v + d"] d(1)
    by (simp add: strtol_loop.simps [of m a] strtol_digit_hex(1) algebra_simps)
qed

text \<open>C33: What \<^verbatim>\<open>%d\<close> prints for a 32-bit value, \<^verbatim>\<open>strtol\<close> reads back as that value, for every
  value, and the end pointer is behind the last digit.\<close>

theorem strtol_reads_decimal:
  assumes out: "printed str ''%d'' [x] = Inr out" and stored: "cstr m a (map ucast out)"
  shows "strtol m a 10 = Some (x, a + of_nat (length out))"
proof -
  obtain ds where o: "out = (if sint x < 0 then [0x2D] else []) @ map hex_digit ds"
    and v: "sint x = (if sint x < 0 then - 1 else 1) * int (number_of 10 ds)"
    and ds: "list_all (\<lambda>d. d < 10) ds" "ds \<noteq> []"
    using printed_decimal_digits [of str x] out by auto
  have loop: "strtol_loop m p 10 0 = Some (of_nat (number_of 10 ds), p + of_nat (length ds))"
    if "cstr m p (map ucast (map hex_digit ds))" for p
    using strtol_loop_digits [of 10 ds m p 0] ds(1) that by (simp add: number_of_def)
  have x: "x = (if sint x < 0 then - 1 else 1) * of_nat (number_of 10 ds)"
  proof -
    have "x = word_of_int (sint x)" by simp
    also have "\<dots> = word_of_int ((if sint x < 0 then - 1 else 1) * int (number_of 10 ds))"
      using v by simp
    finally show ?thesis by (cases "sint x < 0") simp_all
  qed
  obtain d ds' where d: "ds = d # ds'" "d < 10" using ds by (cases ds) auto
  show ?thesis
  proof (cases "sint x < 0")
    case True
    then have "m a = 0x2D" "cstr m (a + 1) (map ucast (map hex_digit ds))"
      using stored by (simp_all add: o)
    moreover have "- of_nat (number_of 10 ds) = x" using x True by simp
    ultimately show ?thesis
      using loop [of "a + 1"] True by (simp add: strtol_def skip_blanks.simps [of m a] o)
  next
    case False
    then have "cstr m a (map ucast (map hex_digit ds))" using stored by (simp add: o)
    moreover from this have "m a = ucast (hex_digit d)" by (simp add: d)
    moreover have "of_nat (number_of 10 ds) = x" using x False by simp
    ultimately show ?thesis
      using loop [of a] False strtol_digit_hex(2-5) [of d] d(2)
      by (simp add: strtol_def skip_blanks.simps [of m a] o)
  qed
qed

lemma strtol_reads_decimal_witness:
  "strtol ((\<lambda>_. 0)(0x1000 := 0x2D, 0x1001 := 0x34, 0x1002 := 0x32)) 0x1000 10 = Some (- 42, 0x1003)"
proof -
  have "digits 10 42 = [4, 2]" by (subst digits.simps, simp, subst digits.simps, simp)
  moreover have "(- 42 :: u64) <s 0" by (simp add: word_sless_alt)
  ultimately have "printed (\<lambda>_. []) ''%d'' [- 42] = Inr [0x2D, 0x34, 0x32]"
    using printnum_fold [of 10 collect 42 "-1" "0x20" "[0x2D]"]
    by (simp add: printed_def no_flags_def is_digit_def convert_def getint_def conv_signed_def
        conv_number_def collect_def hex_digit_def collect_fold del: fold_append fold_replicate)
  from strtol_reads_decimal [OF this, of "(\<lambda>_. 0)(0x1000 := 0x2D, 0x1001 := 0x34, 0x1002 := 0x32)" "0x1000"]
  show ?thesis by simp
qed

end
