(* ===== verification/Byte_Mem.thy ===== *)
theory Byte_Mem
  imports Str_Lib
begin

text \<open>
  What the users of byte memory share: reading little-endian numbers, strings as bytes at
  consecutive addresses, and memories that agree outside a block.
\<close>

section \<open>Numbers\<close>

definition load16 :: "bytes \<Rightarrow> u32 \<Rightarrow> u16" where
  "load16 m a = ucast (m a) OR push_bit 8 (ucast (m (a + 1)))"

definition load32 :: "bytes \<Rightarrow> u32 \<Rightarrow> u32" where
  "load32 m a = ucast (m a) OR push_bit 8 (ucast (m (a + 1))) OR push_bit 16 (ucast (m (a + 2)))
     OR push_bit 24 (ucast (m (a + 3)))"

definition store32 :: "u32 \<Rightarrow> u32 \<Rightarrow> bytes \<Rightarrow> bytes" where
  "store32 a w m = m(a := ucast w, a + 1 := ucast (drop_bit 8 w), a + 2 := ucast (drop_bit 16 w),
     a + 3 := ucast (drop_bit 24 w))"

lemma load32_byte:
  assumes "j < 4"
  shows "ucast (drop_bit (8 * j) (load32 m a)) = m (a + of_nat j)"
proof -
  consider "j = 0" | "j = 1" | "j = 2" | "j = 3" using assms by linarith
  then show ?thesis by cases (rule bit_word_eqI, auto simp: load32_def bit_simps dest: bit_imp_le_length)+
qed

section \<open>Strings\<close>

lemma cstr_iff:
  "cstr m a l \<longleftrightarrow> (\<forall>k < length l. m (a + of_nat k) = l ! k \<and> l ! k \<noteq> 0) \<and> m (a + of_nat (length l)) = 0"
proof (induction l arbitrary: a)
  case (Cons c l)
  have "(\<forall>k < length (c # l). P k) \<longleftrightarrow> P 0 \<and> (\<forall>k < length l. P (Suc k))" for P
    using less_Suc_eq_0_disj by auto
  with Cons.IH [of "a + 1"] show ?case by (simp add: algebra_simps) blast
qed simp

lemma of_nat_same_32: "j < 2 ^ 32 \<Longrightarrow> k < 2 ^ 32 \<Longrightarrow> (of_nat j :: u32) = of_nat k \<longleftrightarrow> j = k"
  by (simp add: word_unat_eq_iff unat_of_nat)

lemma cstr_append:
  "cstr m a (l @ l') \<longleftrightarrow> (\<forall>k < length l. m (a + of_nat k) = l ! k \<and> l ! k \<noteq> 0) \<and> cstr m (a + of_nat (length l)) l'"
proof (induction l arbitrary: a)
  case (Cons c l)
  have "(\<forall>k < length (c # l). P k) \<longleftrightarrow> P 0 \<and> (\<forall>k < length l. P (Suc k))" for P
    using less_Suc_eq_0_disj by auto
  with Cons.IH [of "a + 1"] show ?case by (simp add: algebra_simps) blast
qed simp

lemma cstr_cong:
  "(\<And>j. j \<le> length l \<Longrightarrow> m' (a + of_nat j) = m (a + of_nat j)) \<Longrightarrow> cstr m' a l \<longleftrightarrow> cstr m a l"
  by (simp add: cstr_iff)

lemma nth_addr_neq: "0 < j \<Longrightarrow> j < 2 ^ 32 \<Longrightarrow> a + of_nat j \<noteq> (a :: u32)"
  using of_nat_same_32 [of j 0] by simp

section \<open>Blocks\<close>

text \<open>\<open>same_outside m m' a n\<close>: the memories agree but for \<open>n\<close> bytes from \<open>a\<close> on.\<close>

definition same_outside :: "bytes \<Rightarrow> bytes \<Rightarrow> u32 \<Rightarrow> nat \<Rightarrow> bool" where
  "same_outside m m' a n \<longleftrightarrow> (\<forall>j. n \<le> j \<and> j < 2 ^ 32 \<longrightarrow> m' (a + of_nat j) = m (a + of_nat j))"

lemma same_outside_shift:
  assumes "same_outside m m' (a + of_nat k) n"
  shows "same_outside m m' a (k + n)"
  unfolding same_outside_def
proof (intro allI impI)
  fix j :: nat assume j: "k + n \<le> j \<and> j < 2 ^ 32"
  have "m' (a + of_nat k + of_nat (j - k)) = m (a + of_nat k + of_nat (j - k))"
    using assms j unfolding same_outside_def by (metis add_le_imp_le_diff add.commute less_imp_diff_less)
  moreover have "a + of_nat k + of_nat (j - k) = a + of_nat j"
    using j by simp
  ultimately show "m' (a + of_nat j) = m (a + of_nat j)" by simp
qed

lemma same_outside_before:
  assumes "same_outside m m' (a + of_nat k) n" and "j < k" and "k + n < 2 ^ 32"
  shows "m' (a + of_nat j) = m (a + of_nat j)"
proof -
  have z: "(of_nat (2 ^ 32) :: u32) = 0" by simp
  have "(of_nat (2 ^ 32 + j - k) :: u32) = of_nat (2 ^ 32) + of_nat j - of_nat k"
    using assms by simp
  then have "a + of_nat k + of_nat (2 ^ 32 + j - k) = a + of_nat j" unfolding z by simp
  moreover have "n \<le> 2 ^ 32 + j - k \<and> 2 ^ 32 + j - k < 2 ^ 32" using assms(2,3) by linarith
  ultimately show ?thesis using assms(1) unfolding same_outside_def by metis
qed

lemma same_outside_trans:
  "same_outside m m' a n \<Longrightarrow> same_outside m' m'' a n \<Longrightarrow> same_outside m m'' a n"
  by (simp add: same_outside_def)

lemma same_outside_mono: "same_outside m m' a n \<Longrightarrow> n \<le> k \<Longrightarrow> same_outside m m' a k"
  by (simp add: same_outside_def)

lemma same_outside_at:
  assumes "same_outside m m' b n" and "n \<le> unat (x - b)"
  shows "m' x = m x"
proof -
  have "m' (b + of_nat (unat (x - b))) = m (b + of_nat (unat (x - b)))"
    using assms(1) [unfolded same_outside_def, rule_format, of "unat (x - b)"] assms(2) by simp
  then show ?thesis by simp
qed

section \<open>Storing numbers\<close>

lemma store32_byte:
  assumes "j < 4"
  shows "store32 a w m (a + of_nat j) = ucast (drop_bit (8 * j) w)"
proof -
  consider "j = 0" | "j = 1" | "j = 2" | "j = 3" using assms by linarith
  then show ?thesis by cases (simp_all add: store32_def)
qed

lemma same_outside_store32: "same_outside m (store32 a w m) a 4"
  unfolding same_outside_def
proof (intro allI impI)
  fix j :: nat assume j: "4 \<le> j \<and> j < 2 ^ 32"
  have "a + of_nat j \<noteq> a + of_nat k" if "k < 4" for k :: nat
    using of_nat_same_32 [of j k] j that by simp
  from this [of 0] this [of 1] this [of 2] this [of 3]
  show "store32 a w m (a + of_nat j) = m (a + of_nat j)"
    by (simp add: store32_def del: of_nat_eq_0_iff add_cancel_left_right add_left_cancel)
qed

text \<open>Two words of four bytes that do not overlap, whatever the order of their addresses.\<close>

definition apart :: "u32 \<Rightarrow> u32 \<Rightarrow> bool" where
  "apart a b \<longleftrightarrow> 4 \<le> unat (b - a) \<and> 4 \<le> unat (a - b)"

lemma load32_store32 [simp]: "load32 (store32 a w m) a = w"
proof (rule bit_word_eqI)
  fix n assume "n < LENGTH(32)"
  then consider "n < 8" | "8 \<le> n" "n < 16" | "16 \<le> n" "n < 24" | "24 \<le> n" "n < 32" by force
  then show "bit (load32 (store32 a w m) a) n = bit w n"
    by cases (auto simp: load32_def store32_def bit_simps)
qed

lemma load32_store32_apart:
  assumes "apart a b"
  shows "load32 (store32 a w m) b = load32 m b"
proof -
  have "store32 a w m (b + of_nat j) = m (b + of_nat j)" if "j < 4" for j
  proof (rule same_outside_at [OF same_outside_store32])
    have j: "unat (of_nat j :: u32) = j" using that by (simp add: unat_of_nat)
    have "unat (b - a) + j < 2 ^ 32"
    proof -
      have "b \<noteq> a" using assms by (auto simp: apart_def)
      then have "unat (a - b) + unat (b - a) = 2 ^ 32"
        using unat_lt_32 [of a] unat_lt_32 [of b]
        by (auto simp: unat_sub_if' word_unat_eq_iff simp del: unat_lt_32)
      then show ?thesis using assms that unfolding apart_def by linarith
    qed
    then have "unat (b - a + of_nat j) = unat (b - a) + j"
      using j by (subst unat_add_small) simp_all
    moreover have "b + of_nat j - a = b - a + of_nat j" by simp
    ultimately have "unat (b + of_nat j - a) = unat (b - a) + j" by (simp only:)
    then show "4 \<le> unat (b + of_nat j - a)" using assms by (simp add: apart_def)
  qed
  from this [of 0] this [of 1] this [of 2] this [of 3]
  show ?thesis by (simp add: load32_def)
qed

lemma load16_load32: "load16 m a = ucast (load32 m a)"
  unfolding load16_def load32_def by (rule bit_word_eqI) (auto simp: bit_simps)

lemma store32_other: "4 \<le> unat (x - a) \<Longrightarrow> store32 a w m x = m x"
  by (rule same_outside_at [OF same_outside_store32])

lemma apart_sym: "apart a b \<Longrightarrow> apart b a"
  by (simp add: apart_def)

text \<open>Half a word: only two bytes are written.\<close>

definition store16 :: "u32 \<Rightarrow> u16 \<Rightarrow> bytes \<Rightarrow> bytes" where
  "store16 a w m = m(a := ucast w, a + 1 := ucast (drop_bit 8 w))"

lemma store16_store32:
  "store16 a w m = store32 a (ucast w OR push_bit 16 (ucast (m (a + 2))) OR push_bit 24 (ucast (m (a + 3)))) m"
    (is "_ = store32 a ?v m")
proof -
  have "(ucast ?v :: u8) = ucast w" "(ucast (drop_bit 8 ?v) :: u8) = ucast (drop_bit 8 w)"
    "ucast (drop_bit 16 ?v) = m (a + 2)" "ucast (drop_bit 24 ?v) = m (a + 3)"
    by (rule bit_word_eqI; auto simp: bit_simps dest: bit_imp_le_length)+
  then show ?thesis by (auto simp: store16_def store32_def)
qed

lemma load16_store16 [simp]: "load16 (store16 a w m) a = w"
  unfolding load16_load32 store16_store32 load32_store32
  by (rule bit_word_eqI) (auto simp: bit_simps)

lemma load32_store16_apart: "apart a b \<Longrightarrow> load32 (store16 a w m) b = load32 m b"
  unfolding store16_store32 by (rule load32_store32_apart)

lemma load16_apart:
  assumes "apart a b"
  shows "load16 (store32 a w m) b = load16 m b" and "load16 (store16 a v m) b = load16 m b"
  using assms by (simp_all add: load16_load32 load32_store32_apart load32_store16_apart)

text \<open>Words at constant distances.\<close>

lemma apart_same_base:
  "4 \<le> unat (j - i) \<Longrightarrow> 4 \<le> unat (i - j) \<Longrightarrow> apart (a + i) (a + j)"
  "4 \<le> unat j \<Longrightarrow> 4 \<le> unat (- j) \<Longrightarrow> apart a (a + j)"
  "4 \<le> unat j \<Longrightarrow> 4 \<le> unat (- j) \<Longrightarrow> apart (a + j) a"
  by (simp_all add: apart_def)

text \<open>The numeral of an offset comes last.\<close>

lemma offset_last: "numeral k + (a :: u32) = a + numeral k"
  by (rule add.commute)

text \<open>Two blocks of \<open>n\<close> and \<open>k\<close> bytes that do not overlap.\<close>

definition disjoint_blocks :: "u32 \<Rightarrow> nat \<Rightarrow> u32 \<Rightarrow> nat \<Rightarrow> bool" where
  "disjoint_blocks a n b k \<longleftrightarrow> n \<le> unat (b - a) \<and> k \<le> unat (a - b)"

lemma disjoint_blocks_apart:
  assumes "disjoint_blocks a n b k" and "0 < n" and "unat i + 4 \<le> n" and "unat j + 4 \<le> k"
  shows "apart (a + i) (b + j)"
proof -
  let ?d = "b - a" and ?e = "a - b"
  have ne: "b \<noteq> a" using assms by (auto simp: disjoint_blocks_def)
  have s: "unat ?d + unat ?e = 2 ^ 32"
    using ne unat_lt_32 [of a] unat_lt_32 [of b]
    by (auto simp: unat_sub_if' word_unat_eq_iff simp del: unat_lt_32)
  have d: "n \<le> unat ?d" "k \<le> unat ?e" using assms(1) by (simp_all add: disjoint_blocks_def)
  have "unat (?d + j) = unat ?d + unat j"
    using s d assms(4) by (intro unat_add_small) simp
  moreover have "unat (?e + i) = unat ?e + unat i"
    using s d assms(3) by (intro unat_add_small) simp
  moreover have "b + j - (a + i) = ?d + j - i" "a + i - (b + j) = ?e + i - j" by simp_all
  moreover have "unat (?d + j - i) = unat (?d + j) - unat i"
    using calculation(1) d assms(3) by (intro unat_sub) (simp add: word_le_nat_alt)
  moreover have "unat (?e + i - j) = unat (?e + i) - unat j"
    using calculation(2) d assms(4) by (intro unat_sub) (simp add: word_le_nat_alt)
  ultimately have "unat (b + j - (a + i)) = unat ?d + unat j - unat i" "unat (a + i - (b + j)) = unat ?e + unat i - unat j"
    by (simp_all only:)
  then show ?thesis using d assms(3,4) unfolding apart_def by linarith
qed

end
