(* ===== verification/Readline.thy ===== *)
theory Readline
  imports Console_Input Byte_Mem
begin

text \<open>
  \<^verbatim>\<open>lib/readline.c\<close>. The line buffer is in byte memory at the address \<open>b\<close>. Reading a character
  and putting one act on a state of any type; \<open>getc\<close> is \<open>None\<close> when the wait never ends. The
  kernel uses the console for both, which is the interpretation of the interface
  \<open>line_source\<close> below.
\<close>

section \<open>The code\<close>

definition BUFLEN :: nat where [simp]: "BUFLEN = 1024"

text \<open>The characters of a string in memory, for \<^verbatim>\<open>%s\<close>; without a terminating zero there are none.\<close>

definition str_at :: "bytes \<Rightarrow> u32 \<Rightarrow> string" where
  "str_at m a =
     (case strlen m a of
        None \<Rightarrow> []
      | Some n \<Rightarrow> map (\<lambda>k. char_of (unat (m (a + of_nat k)))) [0..<unat n])"

fun store_bytes :: "bytes \<Rightarrow> u32 \<Rightarrow> u8 list \<Rightarrow> bytes" where
  "store_bytes m a [] = m"
| "store_bytes m a (c # cs) = store_bytes (m(a := c)) (a + 1) cs"

text \<open>The loop, with the number of characters in the buffer.\<close>

partial_function (option) readline_loop ::
    "('s \<Rightarrow> (u32 \<times> 's) option) \<Rightarrow> 's sink \<Rightarrow> u32 \<Rightarrow> nat \<Rightarrow> bytes \<Rightarrow> 's \<Rightarrow> (u32 \<times> bytes \<times> 's) res option" where
  "readline_loop getc putc b i m s =
     (case getc s of
        None \<Rightarrow> None
      | Some (c, s) \<Rightarrow>
          if c <s 0 then
            Some (res_bind (cprintf putc (str_at m) (''read error: %e'' @ [CHR 0x0A]) [c] s)
                    (\<lambda>(_, s). Inr (0, m, s)))
          else if 0x20 \<le>s c \<and> i < BUFLEN - 1 then
            readline_loop getc putc b (i + 1) (m(b + of_nat i := ucast c))
              (if iscons 0 \<noteq> 0 then putc c s else s)
          else if c = 0x08 \<and> i > 0 then
            readline_loop getc putc b (i - 1) m (if iscons 0 \<noteq> 0 then putc c s else s)
          else if c = 0x0A \<or> c = 0x0D then
            Some (Inr (b, m(b + of_nat i := 0), if iscons 0 \<noteq> 0 then putc c s else s))
          else readline_loop getc putc b i m s)"

definition readline ::
    "('s \<Rightarrow> (u32 \<times> 's) option) \<Rightarrow> 's sink \<Rightarrow> bool \<Rightarrow> u32 \<Rightarrow> u32 \<Rightarrow> bytes \<Rightarrow> 's
      \<Rightarrow> (u32 \<times> bytes \<times> 's) res option" where
  "readline getc putc readline_hack b prompt m s =
     (if readline_hack then Some (Inr (b, store_bytes m b (map of_char ''exit'' @ [0]), s))
      else
        case (if prompt \<noteq> 0 then cprintf putc (str_at m) ''%s'' [prompt] s else Inr (0, s)) of
          Inl e \<Rightarrow> Some (Inl e)
        | Inr (_, s) \<Rightarrow> readline_loop getc putc b 0 m s)"

section \<open>The line that is read\<close>

text \<open>What one key does to the line.\<close>

definition edit :: "u8 list \<Rightarrow> u32 \<Rightarrow> u8 list" where
  "edit l c =
     (if 0x20 \<le> c \<and> length l < BUFLEN - 1 then l @ [ucast c]
      else if c = 0x08 then butlast l
      else l)"

text \<open>The first characters of the line are in the buffer.\<close>

definition in_buffer :: "bytes \<Rightarrow> u32 \<Rightarrow> u8 list \<Rightarrow> bool" where
  "in_buffer m b l \<longleftrightarrow>
     length l < BUFLEN \<and> (\<forall>k < length l. m (b + of_nat k) = l ! k \<and> l ! k \<noteq> 0)"

lemma in_buffer_end: "in_buffer m b l \<Longrightarrow> cstr (m(b + of_nat (length l) := 0)) b l"
  by (simp add: in_buffer_def cstr_iff of_nat_same_32)

lemma in_buffer_add:
  "in_buffer m b l \<Longrightarrow> length l < BUFLEN - 1 \<Longrightarrow> c \<noteq> 0 \<Longrightarrow>
    in_buffer (m(b + of_nat (length l) := c)) b (l @ [c])"
  by (auto simp: in_buffer_def of_nat_same_32 nth_append less_Suc_eq)

lemma in_buffer_butlast: "in_buffer m b l \<Longrightarrow> in_buffer m b (butlast l)"
  by (auto simp: in_buffer_def nth_butlast)

lemma outside_buffer: "k < 1024 \<Longrightarrow> of_nat BUFLEN \<le> a - b \<Longrightarrow> a \<noteq> b + of_nat k" for a b :: u32
  by (auto simp: word_le_nat_alt unat_of_nat)

lemma key_signed:
  fixes c :: u32
  assumes "c < 256"
  shows "\<not> c <s 0 \<and> (0x20 \<le>s c \<longleftrightarrow> 0x20 \<le> c)"
proof -
  have "unat c < 256" using assms by (simp add: word_less_nat_alt)
  then have "sint c = int (unat c)" using sint_32_cases [of c] by simp
  then show ?thesis by (simp add: word_sless_alt word_sle_eq word_le_def)
qed

lemma key_byte: "0x20 \<le> c \<Longrightarrow> c < 256 \<Longrightarrow> (ucast c :: u8) \<noteq> 0" for c :: u32
  by (auto simp: word_unat_eq_iff word_le_nat_alt word_less_nat_alt unsigned_ucast_eq take_bit_eq_mod)

text \<open>A source of characters: \<open>inp\<close> are the characters to come.\<close>

locale line_source =
  fixes getc :: "'s \<Rightarrow> (u32 \<times> 's) option"
    and putc :: "u32 \<Rightarrow> 's \<Rightarrow> 's"
    and inp :: "'s \<Rightarrow> u32 list"
    and ready :: "'s \<Rightarrow> bool"
  assumes getc: "ready s \<Longrightarrow> inp s = c # cs \<Longrightarrow> \<exists>s'. getc s = Some (c, s') \<and> ready s' \<and> inp s' = cs"
    and putc: "ready s \<Longrightarrow> ready (putc c s) \<and> inp (putc c s) = inp s"
begin

lemma readline_loop_edits:
  assumes last: "nl = 0x0A \<or> nl = 0x0D"
  shows "list_all (\<lambda>c. c < 256 \<and> c \<noteq> 0x0A \<and> c \<noteq> 0x0D) keys \<Longrightarrow> ready s \<Longrightarrow> inp s = keys @ nl # rest \<Longrightarrow>
    in_buffer m b l \<Longrightarrow>
    \<exists>m' s'. readline_loop getc putc b (length l) m s = Some (Inr (b, m', s')) \<and>
      cstr m' b (foldl edit l keys) \<and>
      (\<forall>a. of_nat BUFLEN \<le> a - b \<longrightarrow> m' a = m a) \<and> ready s' \<and> inp s' = rest"
proof (induction keys arbitrary: s l m)
  case Nil
  from Nil.prems obtain s' where g: "getc s = Some (nl, s')" "ready s'" "inp s' = rest"
    using getc [of s nl rest] by auto
  have "length l < 1024" using Nil.prems by (simp add: in_buffer_def)
  then have "readline_loop getc putc b (length l) m s = Some (Inr (b, m(b + of_nat (length l) := 0), putc nl s'))"
    using g last by (subst readline_loop.simps) (auto simp: iscons_def word_sless_alt word_sle_eq)
  then show ?case
    using g putc [OF g(2), of nl] in_buffer_end [OF Nil.prems(4)] outside_buffer [OF \<open>length l < 1024\<close>]
    by auto
next
  case (Cons c keys)
  from Cons.prems obtain s' where g: "getc s = Some (c, s')" "ready s'" "inp s' = keys @ nl # rest"
    using getc [of s c "keys @ nl # rest"] by auto
  have c: "\<not> c <s 0" "0x20 \<le>s c \<longleftrightarrow> 0x20 \<le> c" "c \<noteq> 0x0A" "c \<noteq> 0x0D" "c < 256"
    using Cons.prems key_signed [of c] by auto
  have l: "length l < 1024" using Cons.prems by (simp add: in_buffer_def)
  note p = putc [OF g(2), of c]
  consider "0x20 \<le> c" "length l < 1023" | "c = 0x08" "l \<noteq> []" | "edit l c = l" "\<not> (0x20 \<le> c \<and> length l < 1023)" "\<not> (c = 0x08 \<and> l \<noteq> [])"
    by (cases "0x20 \<le> c \<and> length l < 1023"; cases "c = 0x08 \<and> l \<noteq> []") (auto simp: edit_def)
  then show ?case
  proof cases
    case 1
    define m1 where "m1 = m(b + of_nat (length l) := ucast c)"
    have "readline_loop getc putc b (length l) m s = readline_loop getc putc b (length (edit l c)) m1 (putc c s')"
      using g c 1 by (subst readline_loop.simps) (simp add: iscons_def edit_def m1_def)
    moreover have "in_buffer m1 b (edit l c)"
      using in_buffer_add [OF Cons.prems(4)] 1 key_byte [OF 1(1) c(5)] by (simp add: edit_def m1_def)
    moreover have "m1 a = m a" if "of_nat BUFLEN \<le> a - b" for a
      using outside_buffer [OF l that] by (simp add: m1_def)
    ultimately show ?thesis
      using Cons.IH [of "putc c s'" m1 "edit l c"] Cons.prems p g by simp
  next
    case 2
    have "readline_loop getc putc b (length l) m s = readline_loop getc putc b (length (edit l c)) m (putc c s')"
      using g c 2 by (subst readline_loop.simps) (simp add: iscons_def edit_def)
    moreover have "in_buffer m b (edit l c)"
      using in_buffer_butlast [OF Cons.prems(4)] 2 by (simp add: edit_def)
    ultimately show ?thesis
      using Cons.IH [of "putc c s'" m "edit l c"] Cons.prems p g by auto
  next
    case 3
    have "readline_loop getc putc b (length l) m s = readline_loop getc putc b (length l) m s'"
      using g c 3 by (subst readline_loop.simps) auto
    then show ?thesis
      using Cons.IH [of s' m l] Cons.prems g 3 by auto
  qed
qed

end

section \<open>Reading from the console\<close>

text \<open>
  What is relied on of the devices. \<open>line\<close> are the bytes still to come over the serial port; a poll of
  the port's status finds one of them, or none for now, and when there are some \<open>wait\<close> bounds how often
  in a row it finds none. After a byte has been read the next poll finds none, so the sender is
  not faster than the reader. The keyboard is silent, and output does not disturb the sender.
\<close>

definition types :: "'d io \<Rightarrow> ('d \<Rightarrow> u8 list) \<Rightarrow> ('d \<Rightarrow> nat) \<Rightarrow> bool" where
  "types io line wait \<longleftrightarrow>
     (\<forall>d p v. line (outb io p v d) = line d) \<and>
     (\<forall>d. case inb io 0x64 d of (v, d') \<Rightarrow> v AND 1 = 0 \<and> line d' = line d \<and> wait d' \<le> wait d) \<and>
     (\<forall>d. case inb io 0x3FD d of (v, d') \<Rightarrow>
        if v AND 1 = 0 then line d' = line d \<and> (line d = [] \<or> wait d' < wait d)
        else line d \<noteq> [] \<and>
          (case inb io 0x3F8 d' of (c, d2) \<Rightarrow> c = hd (line d) \<and>
             (case inb io 0x3FD d2 of (v2, d3) \<Rightarrow> v2 AND 1 = 0 \<and> line d3 = tl (line d))))"

text \<open>The characters to come: those in the buffer, then those of the line.\<close>

definition incoming :: "('d \<Rightarrow> u8 list) \<Rightarrow> 'd console \<Rightarrow> u8 list" where
  "incoming line s = ring_list (cons s) @ line (dev s)"

definition typing :: "('d \<Rightarrow> u8 list) \<Rightarrow> 'd console \<Rightarrow> bool" where
  "typing line s \<longleftrightarrow> ring_ok (cons s) \<and> 0 \<notin> set (incoming line s) \<and>
     (line (dev s) = [] \<or> serial_exists s \<and> ring_size (cons s) < 511)"

text \<open>Output changes the devices, by \<^verbatim>\<open>out\<close> instructions only, the display and the position on it.\<close>

definition same_input :: "('d \<Rightarrow> 'a) \<Rightarrow> 'd console \<Rightarrow> 'd console \<Rightarrow> bool" where
  "same_input f s s' \<longleftrightarrow> f (dev s') = f (dev s) \<and> serial_exists s' = serial_exists s \<and> cons s' = cons s"

lemma same_input_refl [simp]: "same_input f s s"
  by (simp add: same_input_def)

lemma same_input_trans: "same_input f s t \<Longrightarrow> same_input f t u \<Longrightarrow> same_input f s u"
  by (simp add: same_input_def)

lemma same_input_upd [simp]:
  "same_input f s (t\<lparr>crt_pos := p\<rparr>) = same_input f s t" "same_input f s (t\<lparr>vmem := m\<rparr>) = same_input f s t"
  "same_input f s (poke io a w t) = same_input f s t"
  by (simp_all add: same_input_def poke_def)

lemma copy_same_input [simp]: "same_input f s (copy_cells io d a n t) = same_input f s t"
  by (induction n arbitrary: d a t) simp_all

lemma blank_same_input [simp]: "same_input f s (blank_cells io d n t) = same_input f s t"
  by (induction n arbitrary: d t) simp_all

lemma cga_putc_same_input:
  assumes f: "\<And>d p v. f (outb io p v d) = f d"
  shows "same_input f s (cga_putc io c s)"
proof -
  have tail: "same_input f s (set_cursor io (cga_scroll io t)) = same_input f s t" for s t :: "'a console"
  proof -
    have "same_input f s (dev_out io p v t) = same_input f s t" for p v and t :: "'a console"
      by (simp add: same_input_def dev_out_def f)
    then show ?thesis by (simp add: set_cursor_def cga_scroll_def Let_def)
  qed
  have nontab: "same_input f s (cga_putc io c s)" if "cga_attr c AND 0xff \<noteq> 0x09" for c s
    unfolding cga_putc_char [OF that] tail by (simp add: cga_char_def)
  show ?thesis
  proof (cases "cga_attr c AND 0xff = 0x09")
    case True
    have space: "same_input f s (cga_putc io 0x20 t) = same_input f s t" for s t :: "'a console"
    proof -
      have "same_input f t (cga_putc io 0x20 t)" by (rule nontab) (simp add: cga_attr_def)
      then show ?thesis by (simp add: same_input_def)
    qed
    let ?p = "cga_putc io 0x20"
    have "cga_putc io c s = set_cursor io (cga_scroll io (?p (?p (?p (?p (?p s))))))"
      using True by (subst cga_putc.simps) (simp add: Let_def)
    then show ?thesis by (simp only: tail space same_input_refl)
  qed (rule nontab)
qed

lemma cputchar_typing:
  assumes t: "types io line wait" and s: "typing line s"
  shows "typing line (cputchar io c s) \<and> incoming line (cputchar io c s) = incoming line s"
proof -
  have "same_input line s (cga_putc io c s)"
    using t by (intro cga_putc_same_input) (simp add: types_def)
  then have "same_input line s (cputchar io c s)" by (simp add: cputchar_def cons_putc_def)
  then show ?thesis using s by (simp add: same_input_def typing_def incoming_def)
qed

text \<open>One poll of the serial port takes at most one character of the line into the buffer.\<close>

lemma serial_poll:
  assumes t: "types io line wait" and s: "typing line s"
  shows "\<exists>s'. serial_intr io s = Some s' \<and> incoming line s' = incoming line s \<and> ring_ok (cons s') \<and>
    serial_exists s' = serial_exists s \<and> (ring_list (cons s') = [] \<longrightarrow>
      ring_list (cons s) = [] \<and> (line (dev s) \<noteq> [] \<longrightarrow> wait (dev s') < wait (dev s)))"
proof (cases "serial_exists s")
  case False
  then show ?thesis using s by (auto simp: serial_intr_def typing_def)
next
  case port: True
  obtain v d1 where d1: "inb io 0x3FD (dev s) = (v, d1)" by force
  have ok: "ring_ok (cons s)" using s by (simp add: typing_def)
  show ?thesis
  proof (cases "v AND 1 = 0")
    case True
    then have "serial_intr io s = Some (s\<lparr>dev := d1\<rparr>)"
      using port d1 by (simp add: serial_intr_def cons_intr.simps serial_proc_data_def dev_in_def)
    moreover have "line d1 = line (dev s) \<and> (line (dev s) = [] \<or> wait d1 < wait (dev s))"
      using t d1 True unfolding types_def by (metis (mono_tags, lifting) case_prod_conv)
    ultimately show ?thesis using ok port by (auto simp: incoming_def)
  next
    case False
    obtain c d2 where d2: "inb io 0x3F8 d1 = (c, d2)" by force
    obtain v2 d3 where d3: "inb io 0x3FD d2 = (v2, d3)" by force
    have l: "line (dev s) \<noteq> []" "c = hd (line (dev s))" "v2 AND 1 = 0" "line d3 = tl (line (dev s))"
      using t False d1 d2 d3 unfolding types_def by (auto dest!: spec [of _ "dev s"])
    have "c \<noteq> 0" using s l(1,2) by (cases "line (dev s)") (auto simp: typing_def incoming_def)
    then have byte: "uint c \<noteq> 0" "uint c \<noteq> -1"
      using uint_ge_0 [of c] by (simp add: unsigned_eq_0_iff, linarith)
    have "serial_intr io s = Some (s\<lparr>dev := d3, cons := cons_put c (cons s)\<rparr>)"
    proof -
      let ?t = "s\<lparr>dev := d2, cons := cons_put c (cons s)\<rparr>"
      have "serial_proc_data io s = (uint c, s\<lparr>dev := d2\<rparr>)" "serial_proc_data io ?t = (-1, ?t\<lparr>dev := d3\<rparr>)"
        using d1 d2 d3 False l(3) by (simp_all add: serial_proc_data_def dev_in_def)
      then have "cons_intr (serial_proc_data io) s = cons_intr (serial_proc_data io) ?t"
        "cons_intr (serial_proc_data io) ?t = Some (?t\<lparr>dev := d3\<rparr>)"
        using byte by (subst cons_intr.simps; simp)+
      then show ?thesis using port by (simp add: serial_intr_def)
    qed
    moreover have "ring_list (cons_put c (cons s)) = ring_list (cons s) @ [c]"
      using s l(1) ok by (intro ring_put(2)) (auto simp: typing_def)
    moreover have "line (dev s) = c # line d3" using l by simp
    ultimately show ?thesis using ok ring_put(1) [OF ok] port by (auto simp: incoming_def)
  qed
qed

lemma silent_keyboard:
  assumes t: "types io line wait"
  shows "\<exists>s'. kbd_intr io s = Some s' \<and> cons s' = cons s \<and> line (dev s') = line (dev s) \<and>
    wait (dev s') \<le> wait (dev s) \<and> serial_exists s' = serial_exists s"
proof -
  obtain v d where d: "inb io 0x64 (dev s) = (v, d)" by force
  have "v AND 1 = 0 \<and> line d = line (dev s) \<and> wait d \<le> wait (dev s)"
    using t d unfolding types_def by (metis (mono_tags, lifting) case_prod_conv)
  then show ?thesis
    using d by (simp add: kbd_intr_def cons_intr.simps kbd_proc_data_def dev_in_def)
qed

definition line_typed :: "'d io \<Rightarrow> ('d \<Rightarrow> u8 list) \<Rightarrow> ('d \<Rightarrow> nat) \<Rightarrow> 'd console \<Rightarrow> bool" where
  "line_typed io line wait s \<longleftrightarrow> types io line wait \<and> typing line s"

lemma ucast_byte: "unat (ucast v :: u32) = unat v" for v :: u8
  by transfer simp

lemma ring_size_zero: "ring_list r = [] \<longleftrightarrow> ring_size r = 0"
  by (simp add: ring_list_def)

text \<open>The wait ends: as long as no character is there, each round of polls brings the next one nearer.\<close>

lemma getchar_incoming:
  "line_typed io line wait s \<Longrightarrow> incoming line s = v # vs \<Longrightarrow>
    \<exists>s'. getchar io s = Some (ucast v, s') \<and> line_typed io line wait s' \<and> incoming line s' = vs"
proof (induction "wait (dev s)" arbitrary: s rule: less_induct)
  case less
  have t: "types io line wait" "typing line s" using less.prems by (simp_all add: line_typed_def)
  obtain s1 where s1: "serial_intr io s = Some s1" "incoming line s1 = v # vs" "ring_ok (cons s1)"
    "serial_exists s1 = serial_exists s"
    "ring_list (cons s1) = [] \<longrightarrow> ring_list (cons s) = [] \<and> (line (dev s) \<noteq> [] \<longrightarrow> wait (dev s1) < wait (dev s))"
    using serial_poll [OF t] less.prems(2) by metis
  obtain s2 where s2: "kbd_intr io s1 = Some s2" "cons s2 = cons s1" "line (dev s2) = line (dev s1)"
    "wait (dev s2) \<le> wait (dev s1)" "serial_exists s2 = serial_exists s1"
    using silent_keyboard [OF t(1), of s1] by metis
  have port: "line (dev s2) = [] \<or> serial_exists s2"
  proof (cases "serial_exists s")
    case False
    then have "s1 = s" using s1(1) by (simp add: serial_intr_def)
    then show ?thesis using t(2) s2 False by (auto simp: typing_def)
  qed (use s1 s2 in simp)
  have inc: "incoming line s2 = v # vs" using s1 s2 by (simp add: incoming_def)
  have "incoming line s = v # vs" "0 \<notin> set (incoming line s)"
    using less.prems t(2) by (simp_all add: typing_def)
  then have nz: "v \<noteq> 0" "0 \<notin> set vs" by auto
  have ok: "ring_ok (cons s2)" using s1 s2 by simp
  show ?case
  proof (cases "ring_list (cons s2)")
    case Nil
    then have e: "ring_size (cons s2) = 0" by (simp add: ring_size_zero)
    have "typing line s2" using ok port inc nz e by (auto simp: typing_def)
    moreover have "line (dev s) \<noteq> []" using s1(5) s2(2) Nil less.prems(2) by (auto simp: incoming_def)
    then have "wait (dev s2) < wait (dev s)" using s1 s2 Nil by auto
    moreover have "getchar io s = getchar io s2"
      using s1 s2 e ring_empty_iff [OF ok] by (subst getchar.simps) (simp add: cons_getc_def cons_take_def)
    ultimately show ?thesis using less.hyps [of s2] inc t by (simp add: line_typed_def)
  next
    case (Cons c cs)
    then have c: "c = v" "vs = cs @ line (dev s2)" using inc by (simp_all add: incoming_def)
    obtain q where q: "cons_take (cons s2) = (Some v, q)" "ring_list q = cs"
      using ring.get_first [OF ok Cons] c by (cases "cons_take (cons s2)") auto
    have "ring_ok q" using ring.ok_get [OF ok] q by simp
    moreover have "ring_size q < 511"
    proof -
      have "Suc (ring_size q) = ring_size (cons s2)"
        using Cons q length_ring_list [of q] length_ring_list [of "cons s2"] by simp
      moreover have "ring_size (cons s2) \<le> 511" by (simp add: ring_size_def)
      ultimately show ?thesis by simp
    qed
    ultimately have "typing line (s2\<lparr>cons := q\<rparr>)" "incoming line (s2\<lparr>cons := q\<rparr>) = vs"
      using c q nz port by (auto simp: typing_def incoming_def)
    moreover have "(ucast v :: u32) \<noteq> 0" using nz by (simp add: word_unat_eq_iff ucast_byte)
    then have "getchar io s = Some (ucast v, s2\<lparr>cons := q\<rparr>)"
      using s1 s2 q by (subst getchar.simps) (simp add: cons_getc_def)
    ultimately show ?thesis using t by (simp add: line_typed_def)
  qed
qed

interpretation console_line: line_source "getchar io" "cputchar io"
    "\<lambda>s. map ucast (incoming line s)" "line_typed io line wait"
  for io :: "'d io" and line :: "'d \<Rightarrow> u8 list" and wait :: "'d \<Rightarrow> nat"
proof
  fix s :: "'d console" and c :: u32 and cs :: "u32 list"
  assume s: "line_typed io line wait s"
  show "\<exists>s'. getchar io s = Some (c, s') \<and> line_typed io line wait s' \<and> map ucast (incoming line s') = cs"
    if "map ucast (incoming line s) = c # cs"
    using that getchar_incoming [OF s] by (cases "incoming line s") auto
  show "line_typed io line wait (cputchar io c s) \<and>
      map ucast (incoming line (cputchar io c s)) = (map ucast (incoming line s) :: u32 list)"
    using cputchar_typing [of io line wait s c] s by (auto simp: line_typed_def)
qed

text \<open>C22: When a line of any length is typed, however slowly its characters come, readline returns
  the buffer with the line in it as the editing
  keys leave it: printable characters are appended while there is room for 1023, backspace takes the
  last one away, other keys do nothing. It writes nothing outside its buffer of 1024 bytes and
  leaves what was typed behind the line for the next call.\<close>

theorem readline_edits:
  assumes devices: "types io line wait" and ready: "typing line s"
    and inp: "incoming line s = keys @ nl # rest"
    and nl: "nl = 0x0A \<or> nl = 0x0D" and keys: "0x0A \<notin> set keys" "0x0D \<notin> set keys"
  shows "\<exists>m' s'. readline (getchar io) (cputchar io) False b 0 m s = Some (Inr (b, m', s')) \<and>
    cstr m' b (foldl edit [] (map ucast keys)) \<and> (\<forall>a. of_nat BUFLEN \<le> a - b \<longrightarrow> m' a = m a) \<and>
    incoming line s' = rest"
proof -
  have other: "(ucast c :: u32) \<noteq> 0x0A \<and> (ucast c :: u32) \<noteq> 0x0D \<and> (ucast c :: u32) < 256"
    if "c \<in> set keys" for c
  proof -
    have "(ucast c :: u32) = ucast d \<longleftrightarrow> c = d" for d :: u8 by (metis ucast_byte word_unat_eq_iff)
    then have "(ucast c :: u32) = ucast (0x0A :: u8) \<longleftrightarrow> c = 0x0A" "(ucast c :: u32) = ucast (0x0D :: u8) \<longleftrightarrow> c = 0x0D"
      by blast+
    then show ?thesis using that keys by (auto simp: word_less_nat_alt ucast_byte)
  qed
  have e: "(ucast nl :: u32) = 0x0A \<or> (ucast nl :: u32) = 0x0D" using nl by auto
  have "list_all (\<lambda>c. c < 256 \<and> c \<noteq> 0x0A \<and> c \<noteq> 0x0D) (map ucast keys :: u32 list)"
    using other by (auto simp: list_all_iff)
  moreover have "line_typed io line wait s" using devices ready by (simp add: line_typed_def)
  moreover have "(map ucast (incoming line s) :: u32 list) = map ucast keys @ ucast nl # map ucast rest"
    by (simp add: inp)
  moreover have "in_buffer m b []" by (simp add: in_buffer_def)
  moreover have "l = rest" if "(map ucast l :: u32 list) = map ucast rest" for l
    using that by (auto simp: inj_def word_unat_eq_iff ucast_byte dest!: map_inj_on [OF _ inj_on_subset [of _ UNIV]])
  ultimately show ?thesis
    using console_line.readline_loop_edits [OF e, of "map ucast keys" io line wait s "map ucast rest" m b "[]"]
    by (auto simp: readline_def)
qed

text \<open>A sender that pauses for three polls after each byte, and a line that is too long.\<close>

definition slow_io :: "(u8 list \<times> nat) io" where
  "slow_io =
     \<lparr>inb = \<lambda>p (ks, w).
        (if p = 0x3FD then if ks = [] then (0, (ks, w)) else if w = 0 then (1, (ks, w)) else (0, (ks, w - 1))
         else if p = 0x3F8 then (hd ks, (tl ks, 3))
         else (0, (ks, w))),
      outb = \<lambda>_ _ d. d, backed = \<lambda>_. True\<rparr>"

definition slow_console :: "u8 list \<Rightarrow> (u8 list \<times> nat) console" where
  "slow_console ks = \<lparr>dev = (ks, 3), serial_exists = True, addr_6845 = CGA_BASE,
     crt_buf = KERNBASE + CGA_BUF, crt_pos = 0, vmem = \<lambda>_. 0x0720, shift = 0,
     cons = \<lparr>buf = replicate 512 0, rpos = 0, wpos = 0\<rparr>\<rparr>"

lemma edit_repeated:
  "0x20 \<le> c \<Longrightarrow> n + length l \<le> 1023 \<Longrightarrow> foldl edit l (replicate n c) = l @ replicate n (ucast c)"
  by (induction n arbitrary: l) (simp_all add: edit_def)

lemma edit_full:
  "0x20 \<le> c \<Longrightarrow> length l = 1023 \<Longrightarrow> foldl edit l (replicate n c) = l"
  by (induction n) (auto simp: edit_def)

lemma readline_edits_witness:
  "\<exists>m s. readline (getchar slow_io) (cputchar slow_io) False 0x1000 0 (\<lambda>_. 0xFF)
       (slow_console ([0x61, 0x08] @ replicate 2000 0x62 @ [0x0A, 0x64])) = Some (Inr (0x1000, m, s)) \<and>
     cstr m 0x1000 (replicate 1023 0x62) \<and> m 0x1400 = 0xFF \<and> incoming fst s = [0x64]"
proof -
  let ?keys = "[0x61, 0x08] @ replicate 2000 0x62 :: u8 list"
  let ?s = "slow_console (?keys @ [0x0A, 0x64])"
  have inp: "incoming fst ?s = ?keys @ 0x0A # [0x64]"
    by (simp add: incoming_def slow_console_def ring_list_def ring_size_def)
  have types: "types slow_io fst snd"
    by (auto simp: types_def slow_io_def split: prod.splits if_splits)
  have typing: "typing fst ?s"
    unfolding typing_def inp by (simp add: slow_console_def ring_ok_def ring_size_def)
  have "replicate 2000 (0x62 :: u32) = replicate 1023 0x62 @ replicate 977 0x62"
    by (simp flip: replicate_add)
  then have "foldl edit [] (map ucast ?keys) = replicate 1023 0x62"
    using edit_repeated [of "0x62" 1023 "[]"] edit_full [of "0x62" "replicate 1023 0x62" 977]
    by (simp add: edit_def)
  moreover have "\<exists>m' s'. readline (getchar slow_io) (cputchar slow_io) False 0x1000 0 (\<lambda>_. 0xFF) ?s =
      Some (Inr (0x1000, m', s')) \<and> cstr m' 0x1000 (foldl edit [] (map ucast ?keys)) \<and>
      (\<forall>a. of_nat BUFLEN \<le> a - 0x1000 \<longrightarrow> m' a = 0xFF) \<and> incoming fst s' = [0x64]"
    by (rule readline_edits [OF types typing inp]) simp_all
  ultimately show ?thesis by (auto dest: spec [of _ "0x1400"])
qed

end
