(* ===== verification/Cmd_Line.thy ===== *)
theory Cmd_Line
  imports Readline
begin

text \<open>
  The parsing half of \<^verbatim>\<open>runcmd\<close> in \<^verbatim>\<open>kern/monitor.c\<close>: it splits the line in place, writing a
  zero over every blank and collecting the addresses of the words. \<open>words\<close> is the reference
  it is compared with.
\<close>

section \<open>The code\<close>

definition WHITESPACE :: "u8 list" where "WHITESPACE = [0x09, 0x0D, 0x0A, 0x20]"
definition MAXARGS :: nat where [simp]: "MAXARGS = 16"

text \<open>For a character that is not 0, \<^verbatim>\<open>strchr(WHITESPACE, c)\<close> is not null; see \<open>strchr_cstr\<close>.\<close>

definition white :: "u8 \<Rightarrow> bool" where
  "white c \<longleftrightarrow> c \<in> set WHITESPACE"

partial_function (option) gobble :: "bytes \<Rightarrow> u32 \<Rightarrow> (bytes \<times> u32) option" where
  "gobble m a =
     (if m a \<noteq> 0 \<and> white (m a) then gobble (m(a := 0)) (a + 1) else Some (m, a))"

partial_function (option) scan_arg :: "bytes \<Rightarrow> u32 \<Rightarrow> u32 option" where
  "scan_arg m a = (if m a \<noteq> 0 \<and> \<not> white (m a) then scan_arg m (a + 1) else Some a)"

text \<open>The addresses of the words, or \<open>None\<close> in the result when there are too many.\<close>

partial_function (option) parse_args :: "bytes \<Rightarrow> u32 \<Rightarrow> u32 list \<Rightarrow> (bytes \<times> u32 list option) option" where
  "parse_args m a argv =
     (case gobble m a of
        None \<Rightarrow> None
      | Some (m, a) \<Rightarrow>
          if m a = 0 then Some (m, Some argv)
          else if length argv = MAXARGS - 1 then Some (m, None)
          else (case scan_arg m a of
                  None \<Rightarrow> None
                | Some a' \<Rightarrow> parse_args m a' (argv @ [a])))"

section \<open>The words of a line\<close>

lemma dropWhile_shorter: "l \<noteq> [] \<Longrightarrow> P (hd l) \<Longrightarrow> length (dropWhile P l) < length l"
  using length_dropWhile_le [of P "tl l"] by (cases l) (auto simp: less_Suc_eq_le)

lemma words_shorter:
  assumes "dropWhile white l \<noteq> []"
  shows "length (dropWhile (\<lambda>c. \<not> white c) (dropWhile white l)) < length l"
proof -
  have "length (dropWhile (\<lambda>c. \<not> white c) (dropWhile white l)) < length (dropWhile white l)"
    using assms hd_dropWhile [OF assms] by (intro dropWhile_shorter) simp_all
  then show ?thesis using length_dropWhile_le [of white l] by linarith
qed

function words :: "u8 list \<Rightarrow> u8 list list" where
  "words l =
     (let l = dropWhile white l in
      if l = [] then []
      else takeWhile (\<lambda>c. \<not> white c) l # words (dropWhile (\<lambda>c. \<not> white c) l))"
  by pat_completeness auto
termination
  by (relation "measure length") (auto intro: words_shorter)

declare words.simps [simp del]

lemma strchr_cstr:
  "cstr m a l \<Longrightarrow> length l < 2 ^ 32 - unat a \<Longrightarrow> a \<noteq> 0 \<Longrightarrow>
    \<exists>r. strchr m a c = Some r \<and> (r \<noteq> 0 \<longleftrightarrow> c \<in> set l)"
proof (induction l arbitrary: a)
  case (Cons d l)
  have u: "unat (a + 1) = unat a + 1" using Cons.prems by (subst unat_add_small) auto
  have "a + 1 \<noteq> 0" using u by (metis unat_0 add_is_0 zero_neq_one)
  then show ?case using Cons u by (subst strchr.simps) auto
qed (simp add: strchr.simps)

section \<open>Splitting in place\<close>

lemma gobble_spec:
  "cstr m a l \<Longrightarrow> length l < 2 ^ 32 \<Longrightarrow>
    \<exists>m'. gobble m a = Some (m', a + of_nat (length (takeWhile white l))) \<and>
      cstr m' (a + of_nat (length (takeWhile white l))) (dropWhile white l) \<and>
      same_outside m m' a (length (takeWhile white l)) \<and>
      (takeWhile white l \<noteq> [] \<longrightarrow> m' a = 0)"
proof (induction l arbitrary: m a)
  case Nil
  then show ?case by (subst gobble.simps) (simp add: same_outside_def)
next
  case (Cons c l)
  show ?case
  proof (cases "white c")
    case False
    then show ?thesis using Cons.prems by (subst gobble.simps) (simp add: same_outside_def)
  next
    case True
    let ?n = "length (takeWhile white l)"
    have n: "?n \<le> length l" by (rule length_takeWhile_le)
    define m1 where "m1 = m(a := 0)"
    have keep: "m1 (a + of_nat j) = m (a + of_nat j)" if "0 < j" "j < 2 ^ 32" for j
      using nth_addr_neq [OF that, of a] by (simp add: m1_def)
    have "m1 (a + 1 + of_nat j) = m (a + 1 + of_nat j)" if "j \<le> length l" for j
      using keep [of "Suc j"] that Cons.prems(2) by (simp add: algebra_simps)
    then have "cstr m1 (a + 1) l" using Cons.prems by (simp add: cstr_cong [of l m1 "a + 1" m])
    from Cons.IH [OF this] Cons.prems(2) obtain m' where m':
        "gobble m1 (a + 1) = Some (m', a + 1 + of_nat ?n)" "cstr m' (a + 1 + of_nat ?n) (dropWhile white l)"
        "same_outside m1 m' (a + of_nat 1) ?n"
      by auto
    have "same_outside m m' a (1 + ?n)"
      using same_outside_shift [OF m'(3)] keep by (auto simp: same_outside_def)
    moreover have "m' a = m1 a"
      using same_outside_before [OF m'(3), of 0] n Cons.prems(2) by simp
    moreover have "gobble m a = gobble m1 (a + 1)"
      using True Cons.prems by (subst gobble.simps) (simp add: m1_def)
    ultimately show ?thesis using True m' by (intro exI [of _ m']) (simp add: m1_def algebra_simps)
  qed
qed

lemma scan_arg_spec:
  "cstr m a l \<Longrightarrow> scan_arg m a = Some (a + of_nat (length (takeWhile (\<lambda>c. \<not> white c) l)))"
  by (induction l arbitrary: a) (auto simp: scan_arg.simps algebra_simps)

text \<open>
  The line \<open>l\<close> is in memory from \<open>a\<close> on and the words before it are \<open>argv\<close>.
\<close>

lemma parse_args_spec:
  "cstr m a l \<Longrightarrow> length l < 2 ^ 32 \<Longrightarrow> length argv \<le> 15 \<Longrightarrow>
    \<exists>m' ptrs. parse_args m a argv =
        Some (m', if length argv + length (words l) \<le> 15 then Some (argv @ ptrs) else None) \<and>
      same_outside m m' a (length l) \<and>
      (l = [] \<or> white (hd l) \<longrightarrow> m' a = 0) \<and>
      (length argv + length (words l) \<le> 15 \<longrightarrow> list_all2 (cstr m') ptrs (words l))"
proof (induction l arbitrary: m a argv rule: words.induct)
  case (1 l)
  let ?nw = "\<lambda>c. \<not> white c"
  define b where "b = length (takeWhile white l)"
  define l1 where "l1 = dropWhile white l"
  have l: "l = takeWhile white l @ l1" by (simp add: l1_def)
  have len: "length l = b + length l1" unfolding b_def by (subst l) simp
  obtain m1 where m1: "gobble m a = Some (m1, a + of_nat b)" "cstr m1 (a + of_nat b) l1"
      "same_outside m m1 a b" "b \<noteq> 0 \<longrightarrow> m1 a = 0"
    using gobble_spec [OF 1(2,3)] by (auto simp: b_def l1_def)
  have first: "l \<noteq> [] \<and> white (hd l) \<longleftrightarrow> b \<noteq> 0" by (cases l) (simp_all add: b_def)
  show ?case
  proof (cases "l1 = []")
    case True
    have "words l = []" using True by (simp add: words.simps [of l] l1_def)
    moreover have "l = [] \<Longrightarrow> m1 a = 0" using m1(2) True by (simp add: b_def)
    ultimately show ?thesis
      using m1 True first len 1(4) by (subst parse_args.simps) (auto simp: same_outside_def)
  next
    case False
    define w where "w = takeWhile ?nw l1"
    define r where "r = dropWhile ?nw l1"
    have ws: "words l = w # words r"
      using False by (simp add: words.simps [of l] l1_def w_def r_def Let_def)
    have l1: "l1 = w @ r" by (simp add: w_def r_def)
    have nz: "m1 (a + of_nat b) \<noteq> 0" using m1(2) False by (cases l1) auto
    let ?a1 = "a + of_nat b"
    let ?a2 = "?a1 + of_nat (length w)"
    have scan: "scan_arg m1 ?a1 = Some ?a2"
      using scan_arg_spec [OF m1(2)] by (simp add: w_def)
    have r: "cstr m1 ?a2 r" and w_in: "\<forall>k < length w. m1 (?a1 + of_nat k) = w ! k \<and> w ! k \<noteq> 0"
      using m1(2) by (simp_all add: l1 cstr_append)
    have "w \<noteq> []" using False hd_dropWhile [of white l] by (cases l1) (auto simp: w_def l1_def)
    have small: "length w + length r < 2 ^ 32" using 1(3) len l1 by simp
    have lt: "b + (length w + length r) = length l" using len l1 by simp
    show ?thesis
    proof (cases "length argv = 15")
      case True
      have "parse_args m a argv = Some (m1, None)"
        using m1 nz True by (subst parse_args.simps) simp
      then show ?thesis
        using True ws m1(3,4) first same_outside_mono [OF m1(3), of "length l"] len
          \<open>l1 \<noteq> []\<close> by (auto simp: l1_def)
    next
      case nfull: False
      have "parse_args m a argv = parse_args m1 ?a2 (argv @ [?a1])"
        using m1 nz nfull scan by (subst parse_args.simps) simp
      moreover obtain m2 ptrs where m2:
          "parse_args m1 ?a2 (argv @ [?a1]) =
            Some (m2, if length argv + length (words l) \<le> 15 then Some ((argv @ [?a1]) @ ptrs) else None)"
          "same_outside m1 m2 ?a2 (length r)" "r = [] \<or> white (hd r) \<longrightarrow> m2 ?a2 = 0"
          "length argv + length (words l) \<le> 15 \<longrightarrow> list_all2 (cstr m2) ptrs (words r)"
        using 1(1) [OF refl, folded l1_def, folded r_def, OF False r, of "argv @ [?a1]"] nfull 1(4) small ws by auto
      moreover have "m2 ?a2 = 0"
        using m2(3) hd_dropWhile [of ?nw l1] unfolding r_def by blast
      then have "cstr m2 ?a1 w"
        using w_in same_outside_before [OF m2(2) _ small] by (simp add: cstr_iff)
      moreover have o: "same_outside m1 m2 (a + of_nat (b + length w)) (length r)"
        using m2(2) by (simp add: algebra_simps)
      have "same_outside m m2 a (length l)"
        using same_outside_trans [OF same_outside_mono [OF m1(3)] same_outside_mono [OF same_outside_shift [OF o]]] lt
        by simp
      moreover have "m2 a = m1 a"
        using same_outside_before [OF o, of 0] \<open>w \<noteq> []\<close> lt 1(3) by simp
      moreover have "l \<noteq> []" using False by (auto simp: l1_def)
      ultimately show ?thesis
        using first m1(4) ws by (intro exI [of _ m2] exI [of _ "?a1 # ptrs"]) auto
    qed
  qed
qed

end
