(* ===== verification/Kdebug.thy ===== *)
theory Kdebug
  imports Mmu Str_Lib
begin

text \<open>
  \<^verbatim>\<open>kern/kdebug.c\<close>: finding the source position of an instruction in the debugging table.
  The table is a map from indices to entries, so a read outside it is a read of whatever is
  there; indices are integers without bound. Addresses are 32-bit words.
\<close>

section \<open>Entries\<close>

record Stab =
  n_strx :: u32
  n_type :: u8
  n_other :: u8
  n_desc :: u16
  n_value :: u32

definition N_FUN :: u8 where [simp]: "N_FUN = 0x24"
definition N_SO :: u8 where [simp]: "N_SO = 0x64"
definition N_SLINE :: u8 where [simp]: "N_SLINE = 0x44"
definition N_SOL :: u8 where [simp]: "N_SOL = 0x84"
definition N_PSYM :: u8 where [simp]: "N_PSYM = 0xa0"

section \<open>Binary search\<close>

text \<open>The last index from \<open>m\<close> downwards with the type, or \<open>l - 1\<close>.\<close>

function scan_type :: "(int \<Rightarrow> Stab) \<Rightarrow> u8 \<Rightarrow> int \<Rightarrow> int \<Rightarrow> int" where
  "scan_type stabs t l m =
     (if m \<ge> l \<and> n_type (stabs m) \<noteq> t then scan_type stabs t l (m - 1) else m)"
  by pat_completeness auto
termination by (relation "measure (\<lambda>(_, _, l, m). nat (m - l + 1))") auto

declare scan_type.simps [simp del]

lemma scan_type_spec:
  "scan_type stabs t l m \<le> m \<and> (l \<le> m \<longrightarrow> l - 1 \<le> scan_type stabs t l m) \<and>
   (l \<le> scan_type stabs t l m \<longrightarrow> n_type (stabs (scan_type stabs t l m)) = t) \<and>
   (\<forall>i. l \<le> i \<and> scan_type stabs t l m < i \<and> i \<le> m \<longrightarrow> n_type (stabs i) \<noteq> t)"
proof (induction stabs t l m rule: scan_type.induct)
  case (1 stabs t l m)
  show ?case
  proof (cases "m \<ge> l \<and> n_type (stabs m) \<noteq> t")
    case True
    then have e: "scan_type stabs t l m = scan_type stabs t l (m - 1)" by (subst scan_type.simps) simp
    have "n_type (stabs i) \<noteq> t" if "l \<le> i" "scan_type stabs t l (m - 1) < i" "i \<le> m" for i
      using that 1 [OF True] True by (cases "i = m") auto
    moreover have "l - 1 \<le> scan_type stabs t l (m - 1)"
    proof (cases "l \<le> m - 1")
      case False
      then have "scan_type stabs t l (m - 1) = m - 1" by (subst scan_type.simps) simp
      then show ?thesis using True by simp
    qed (use 1 [OF True] in blast)
    ultimately show ?thesis using 1 [OF True] unfolding e by auto
  next
    case False
    then have "scan_type stabs t l m = m" by (subst scan_type.simps) auto
    then show ?thesis using False by auto
  qed
qed

text \<open>The middle, with the division of C.\<close>

definition middle :: "int \<Rightarrow> int \<Rightarrow> int" where
  "middle l r = (l + r) sdiv 2"

lemma middle_between:
  assumes "l \<le> r"
  shows "l \<le> middle l r \<and> middle l r \<le> r"
proof -
  have "middle l r = (if 0 \<le> l + r then (l + r) div 2 else - ((- (l + r)) div 2))"
    by (auto simp: middle_def signed_divide_int_def sgn_if)
  then show ?thesis using assms by (cases "0 \<le> l + r") (simp_all, linarith+)
qed

lemma measure_step:
  "b < a \<Longrightarrow> 0 < a \<Longrightarrow> 2 * nat b + (if P then 1 else 0) < 2 * nat a + (if Q then 1 else 0)"
  by auto

text \<open>
  The loop: the arguments are \<^verbatim>\<open>l\<close>, \<^verbatim>\<open>r\<close>, the two ends of the region, \<^verbatim>\<open>any_matches\<close> and
  \<^verbatim>\<open>addr\<close>, which the loop increments after an exact match. Indices are integers without bound: an entry
  has 12 bytes, so those of a table in memory stay far below the range of the code's \<^verbatim>\<open>int\<close>.
\<close>

function bs_loop ::
    "(int \<Rightarrow> Stab) \<Rightarrow> u8 \<Rightarrow> int \<Rightarrow> int \<Rightarrow> int \<Rightarrow> int \<Rightarrow> bool \<Rightarrow> u32 \<Rightarrow> int \<times> int \<times> bool" where
  "bs_loop stabs t l r rl rr any addr =
     (if l \<le> r then
        let true_m = middle l r; m = scan_type stabs t l true_m in
        if m < l then bs_loop stabs t (true_m + 1) r rl rr any addr
        else if n_value (stabs m) < addr then bs_loop stabs t (true_m + 1) r m rr True addr
        else if n_value (stabs m) > addr then bs_loop stabs t l (m - 1) rl (m - 1) True addr
        else bs_loop stabs t m r m rr True (addr + 1)
      else (rl, rr, any))"
  by pat_completeness auto
termination
proof (relation "measure (\<lambda>(stabs, t, l, r, rl, rr, any, addr).
    2 * nat (r - l + 1) + (if n_value (stabs (scan_type stabs t l (middle l r))) = addr then 1 else 0))",
    goal_cases)
  case 1
  show ?case by simp
next
  case (2 stabs t l r rl rr any addr x xa)
  then show ?case using middle_between [of l r]
    unfolding in_measure prod.case by (intro measure_step) simp_all
next
  case (3 stabs t l r rl rr any addr x xa)
  then show ?case using middle_between [of l r]
    unfolding in_measure prod.case by (intro measure_step) simp_all
next
  case (4 stabs t l r rl rr any addr x xa)
  then show ?case using middle_between [of l r] scan_type_spec [of stabs t l "middle l r"]
    unfolding in_measure prod.case by (intro measure_step) simp_all
next
  case (5 stabs t l r rl rr any addr x xa)
  then have e: "xa = scan_type stabs t l (middle l r)" "n_value (stabs xa) = addr" "l \<le> xa" "l \<le> r"
    by auto
  show ?case
  proof (cases "xa = l")
    case True
    then show ?thesis using e by simp
  next
    case False
    then show ?thesis using e unfolding in_measure prod.case by (intro measure_step) simp_all
  qed
qed

declare bs_loop.simps [simp del]

text \<open>The last loop: down from the right end to an entry of the type, or to the left end.\<close>

function last_of_type :: "(int \<Rightarrow> Stab) \<Rightarrow> u8 \<Rightarrow> int \<Rightarrow> int \<Rightarrow> int" where
  "last_of_type stabs t rl l =
     (if l > rl \<and> n_type (stabs l) \<noteq> t then last_of_type stabs t rl (l - 1) else l)"
  by pat_completeness auto
termination by (relation "measure (\<lambda>(_, _, rl, l). nat (l - rl))") auto

declare last_of_type.simps [simp del]

definition stab_binsearch ::
    "(int \<Rightarrow> Stab) \<Rightarrow> int \<Rightarrow> int \<Rightarrow> u8 \<Rightarrow> u32 \<Rightarrow> int \<times> int" where
  "stab_binsearch stabs region_left region_right t addr =
     (case bs_loop stabs t region_left region_right region_left region_right False addr of
        (rl, rr, any) \<Rightarrow>
          if \<not> any then (rl, rl - 1) else (last_of_type stabs t rl rr, rr))"

section \<open>What the search finds\<close>

text \<open>The entries of the type, in order of address, in the region \<open>[L, R]\<close>.\<close>

definition sorted_stabs :: "(int \<Rightarrow> Stab) \<Rightarrow> u8 \<Rightarrow> int \<Rightarrow> int \<Rightarrow> bool" where
  "sorted_stabs stabs t L R \<longleftrightarrow>
     (\<forall>i j. L \<le> i \<and> i \<le> j \<and> j \<le> R \<and> n_type (stabs i) = t \<and> n_type (stabs j) = t \<longrightarrow>
        n_value (stabs i) \<le> n_value (stabs j))"

definition typed_at :: "(int \<Rightarrow> Stab) \<Rightarrow> u8 \<Rightarrow> int \<Rightarrow> bool" where
  "typed_at stabs t i \<longleftrightarrow> n_type (stabs i) = t"

text \<open>No two entries lie at \<open>x\<close> and at the very next address.\<close>

definition no_neighbours :: "(int \<Rightarrow> Stab) \<Rightarrow> u8 \<Rightarrow> int \<Rightarrow> int \<Rightarrow> u32 \<Rightarrow> bool" where
  "no_neighbours stabs t L R x \<longleftrightarrow>
     \<not> (\<exists>i j. L \<le> i \<and> i \<le> R \<and> L \<le> j \<and> j \<le> R \<and> typed_at stabs t i \<and> typed_at stabs t j \<and>
          n_value (stabs i) = x \<and> n_value (stabs j) = x + 1)"

text \<open>
  The invariant of the loop for a search of \<open>x\<close>: \<open>addr\<close> is \<open>x\<close> or \<open>x + 1\<close>; entries behind \<open>r\<close>
  are above \<open>x\<close>; \<open>rl\<close> is the last entry before \<open>l\<close>, if any.
\<close>

definition bs_inv ::
    "(int \<Rightarrow> Stab) \<Rightarrow> u8 \<Rightarrow> int \<Rightarrow> int \<Rightarrow> u32 \<Rightarrow> int \<Rightarrow> int \<Rightarrow> int \<Rightarrow> int \<Rightarrow> bool \<Rightarrow> u32 \<Rightarrow> bool" where
  "bs_inv stabs t L R x l r rl rr any addr \<longleftrightarrow>
     L \<le> l \<and> rl \<le> l \<and> l \<le> r + 1 \<and> r \<le> R \<and> rr = r \<and>
     (addr = x \<or>
      addr = x + 1 \<and> (\<exists>j. L \<le> j \<and> j \<le> R \<and> typed_at stabs t j \<and> n_value (stabs j) = x)) \<and>
     (\<forall>i. r < i \<and> i \<le> R \<and> typed_at stabs t i \<longrightarrow> x < n_value (stabs i)) \<and>
     (r = R \<or> typed_at stabs t (r + 1)) \<and>
     (\<forall>i. rl < i \<and> i < l \<longrightarrow> \<not> typed_at stabs t i) \<and>
     (any \<and> L \<le> rl \<and> rl \<le> r \<and> typed_at stabs t rl \<and> n_value (stabs rl) \<le> x \<or>
      rl = L \<and> (\<forall>i. L \<le> i \<and> i < l \<longrightarrow> \<not> typed_at stabs t i) \<and> (any \<longleftrightarrow> r < R))"

lemma addr_cases:
  fixes x :: u32
  assumes "x \<noteq> 0xFFFFFFFF" and "addr = x \<or> addr = x + 1"
  shows "a < addr \<Longrightarrow> a \<le> x" and "addr < a \<Longrightarrow> x < a" and "addr = x \<or> x < addr"
proof -
  have "unat x \<noteq> 4294967295" using assms(1) by (auto simp: word_unat_eq_iff)
  then have "unat x + 1 < 4294967296" using unat_lt_32 [of x] by linarith
  then have "unat (x + 1) = unat x + 1" by (subst unat_add_small) simp_all
  then show "a < addr \<Longrightarrow> a \<le> x" "addr < a \<Longrightarrow> x < a" "addr = x \<or> x < addr"
    using assms(2) by (auto simp: word_less_nat_alt word_le_nat_alt)
qed

lemma bs_inv_none:
  assumes inv: "bs_inv stabs t L R x l r rl rr any addr" and k: "l \<le> k" "k \<le> r"
    and none: "\<forall>i. l \<le> i \<and> i \<le> k \<longrightarrow> \<not> typed_at stabs t i"
  shows "bs_inv stabs t L R x (k + 1) r rl rr any addr"
proof -
  have "\<not> typed_at stabs t i" if "rl < i" "i < k + 1" for i
    using that none inv by (cases "i < l") (auto simp: bs_inv_def)
  moreover have "\<not> typed_at stabs t i"
    if "\<forall>i. L \<le> i \<and> i < l \<longrightarrow> \<not> typed_at stabs t i" "L \<le> i" "i < k + 1" for i
    using that none by (cases "i < l") auto
  ultimately show ?thesis using inv k unfolding bs_inv_def by (elim conjE disjE) auto
qed

lemma bs_inv_less:
  assumes "bs_inv stabs t L R x l r rl rr any addr" and "l \<le> m" "m \<le> k" "k \<le> r"
    and "typed_at stabs t m" "n_value (stabs m) \<le> x"
    and "\<forall>i. m < i \<and> i \<le> k \<longrightarrow> \<not> typed_at stabs t i"
  shows "bs_inv stabs t L R x (k + 1) r m rr True addr"
  using assms by (auto simp: bs_inv_def)

lemma bs_inv_equal:
  assumes "bs_inv stabs t L R x l r rl rr any addr" and "l \<le> m" "m \<le> r"
    and "typed_at stabs t m" "n_value (stabs m) = x" "addr = x"
  shows "bs_inv stabs t L R x m r m rr True (addr + 1)"
proof -
  have "\<exists>j. L \<le> j \<and> j \<le> R \<and> typed_at stabs t j \<and> n_value (stabs j) = x"
    using assms by (intro exI [of _ m]) (auto simp: bs_inv_def)
  then show ?thesis using assms by (auto simp: bs_inv_def)
qed

lemma bs_inv_greater:
  assumes "bs_inv stabs t L R x l r rl rr any addr" and "l \<le> m" "m \<le> r"
    and "typed_at stabs t m" "x < n_value (stabs m)" and "sorted_stabs stabs t L R"
  shows "bs_inv stabs t L R x l (m - 1) rl (m - 1) True addr"
proof -
  have "x < n_value (stabs i)" if "m \<le> i" "i \<le> R" "typed_at stabs t i" for i
    using that assms by (auto simp: bs_inv_def sorted_stabs_def typed_at_def intro: less_le_trans)
  moreover have "rl \<noteq> m" if "n_value (stabs rl) \<le> x" using that assms(5) by auto
  then have "rl \<le> m - 1" if "n_value (stabs rl) \<le> x" using that assms(1,2) by (force simp: bs_inv_def)
  ultimately show ?thesis using assms(1-4) unfolding bs_inv_def by (elim conjE disjE) auto
qed

lemma bs_loop_inv:
  assumes "bs_inv stabs t L R x l r rl rr any addr"
    and "sorted_stabs stabs t L R"
    and "no_neighbours stabs t L R x"
    and "x \<noteq> 0xFFFFFFFF"
  shows "case bs_loop stabs t l r rl rr any addr of (rl', rr', any') \<Rightarrow>
      \<exists>addr'. bs_inv stabs t L R x (rr' + 1) rr' rl' rr' any' addr'"
  using assms
proof (induction stabs t l r rl rr any addr rule: bs_loop.induct)
  case (1 stabs t l r rl rr any addr)
  note inv = "1.prems"(1) and sorted = "1.prems"(2) and gap = "1.prems"(3) and top = "1.prems"(4)
  show ?case
  proof (cases "l \<le> r")
    case True
    define k where "k = middle l r"
    define m where "m = scan_type stabs t l k"
    note IH = "1.IH" [OF True refl refl, folded k_def, folded m_def]
    have k: "l \<le> k" "k \<le> r" using middle_between [OF True] by (simp_all add: k_def)
    note m = scan_type_spec [of stabs t l k, folded m_def]
    have step: "bs_loop stabs t l r rl rr any addr =
        (if m < l then bs_loop stabs t (k + 1) r rl rr any addr
         else if n_value (stabs m) < addr then bs_loop stabs t (k + 1) r m rr True addr
         else if n_value (stabs m) > addr then bs_loop stabs t l (m - 1) rl (m - 1) True addr
         else bs_loop stabs t m r m rr True (addr + 1))"
      using True by (subst bs_loop.simps) (simp add: Let_def k_def m_def)
    have a: "addr = x \<or> addr = x + 1" using inv by (auto simp: bs_inv_def)
    note ac = addr_cases [OF top a]
    have LR: "L \<le> l" "r \<le> R" using inv by (simp_all add: bs_inv_def)
    show ?thesis
    proof (cases "m < l")
      case True
      then have "bs_inv stabs t L R x (k + 1) r rl rr any addr"
        using m by (intro bs_inv_none [OF inv k]) (auto simp: typed_at_def)
      from IH(1) [OF True this sorted gap top] show ?thesis using True by (simp add: step)
    next
      case found: False
      then have t: "typed_at stabs t m" "l \<le> m" "m \<le> k" using m by (auto simp: typed_at_def)
      consider (lt) "n_value (stabs m) < addr" | (gt) "n_value (stabs m) > addr" | (eq) "n_value (stabs m) = addr"
        using less_linear by blast
      then show ?thesis
      proof cases
        case lt
        then have "bs_inv stabs t L R x (k + 1) r m rr True addr"
          using m t k ac(1) by (intro bs_inv_less [OF inv]) (auto simp: typed_at_def)
        from IH(2) [OF found lt this sorted gap top] show ?thesis using found lt by (simp add: step)
      next
        case gt
        then have "bs_inv stabs t L R x l (m - 1) rl (m - 1) True addr"
          using t k ac(2) sorted by (intro bs_inv_greater [OF inv]) auto
        then show ?thesis using IH(3) [OF found _ gt _ sorted gap top] found gt
          by (simp add: step less_not_sym)
      next
        case eq
        have "addr = x"
        proof (rule ccontr)
          assume "addr \<noteq> x"
          with inv eq have "n_value (stabs m) = x + 1"
            "\<exists>j. L \<le> j \<and> j \<le> R \<and> typed_at stabs t j \<and> n_value (stabs j) = x"
            by (auto simp: bs_inv_def)
          moreover have "L \<le> m" "m \<le> R" using t k LR by linarith+
          ultimately show False using gap t(1) unfolding no_neighbours_def by blast
        qed
        then have "bs_inv stabs t L R x m r m rr True (addr + 1)"
          using t k eq by (intro bs_inv_equal [OF inv]) auto
        then show ?thesis using IH(4) [OF found _ _ _ sorted gap top] found eq by (simp add: step)
      qed
    qed
  next
    case False
    then have "bs_loop stabs t l r rl rr any addr = (rl, rr, any)" by (subst bs_loop.simps) simp
    moreover have "l = r + 1" "rr = r" using False inv by (auto simp: bs_inv_def)
    ultimately show ?thesis using inv by auto
  qed
qed

lemma last_of_type_eq:
  "rl \<le> l \<Longrightarrow> \<forall>i. rl < i \<and> i \<le> l \<longrightarrow> \<not> typed_at stabs t i \<Longrightarrow> last_of_type stabs t rl l = rl"
proof (induction stabs t rl l rule: last_of_type.induct)
  case (1 stabs t rl l)
  show ?case
  proof (cases "rl < l")
    case True
    then have "n_type (stabs l) \<noteq> t" using 1(3) by (simp add: typed_at_def)
    then show ?thesis using True 1 by (subst last_of_type.simps) simp
  next
    case False
    then show ?thesis using 1(2) by (subst last_of_type.simps) simp
  qed
qed

lemma stab_binsearch_end:
  assumes "L \<le> R" and "sorted_stabs stabs t L R" and "no_neighbours stabs t L R x" and "x \<noteq> 0xFFFFFFFF"
  obtains rl rr any addr where "bs_loop stabs t L R L R False x = (rl, rr, any)"
    and "bs_inv stabs t L R x (rr + 1) rr rl rr any addr"
proof -
  have "bs_inv stabs t L R x L R L R False x" using assms(1) by (auto simp: bs_inv_def)
  from bs_loop_inv [OF this assms(2-4)] show ?thesis
    using that by (cases "bs_loop stabs t L R L R False x") auto
qed

text \<open>C30: When the region has an entry of the type at or below the address, the search returns
  the last such entry and the index before the next one, so exactly the entry whose range
  contains the address. The entries of the type must be sorted, the address must not be the
  last of the address space, and no two of them may start at the address and the one after it.\<close>

theorem stab_binsearch_finds:
  assumes "L \<le> R" and sorted: "sorted_stabs stabs t L R" and gap: "no_neighbours stabs t L R x"
    and top: "x \<noteq> 0xFFFFFFFF"
    and some: "L \<le> i" "i \<le> R" "n_type (stabs i) = t" "n_value (stabs i) \<le> x"
  shows "case stab_binsearch stabs L R t x of (a, b) \<Rightarrow>
    L \<le> a \<and> a \<le> b \<and> b \<le> R \<and> n_type (stabs a) = t \<and> n_value (stabs a) \<le> x \<and>
    (\<forall>k. a < k \<and> k \<le> b \<longrightarrow> n_type (stabs k) \<noteq> t) \<and>
    (b \<noteq> R \<longrightarrow> n_type (stabs (b + 1)) = t \<and> x < n_value (stabs (b + 1)))"
proof -
  obtain rl rr any addr where run: "bs_loop stabs t L R L R False x = (rl, rr, any)"
    and inv: "bs_inv stabs t L R x (rr + 1) rr rl rr any addr"
    using assms(1) sorted gap top by (rule stab_binsearch_end)
  have "i \<le> rr" using inv some by (auto simp: bs_inv_def typed_at_def not_le [symmetric])
  then have found: "any" "L \<le> rl" "rl \<le> rr" "typed_at stabs t rl" "n_value (stabs rl) \<le> x"
    using inv some by (auto simp: bs_inv_def typed_at_def)
  have between: "\<forall>k. rl < k \<and> k \<le> rr \<longrightarrow> \<not> typed_at stabs t k" using inv by (auto simp: bs_inv_def)
  have "stab_binsearch stabs L R t x = (rl, rr)"
    using found run last_of_type_eq [OF found(3) between] by (simp add: stab_binsearch_def)
  moreover have "rr \<le> R" "rr \<noteq> R \<longrightarrow> typed_at stabs t (rr + 1) \<and> x < n_value (stabs (rr + 1))"
    using inv by (auto simp: bs_inv_def)
  ultimately show ?thesis using found between by (simp add: typed_at_def)
qed

text \<open>C31: When the region has entries of the type, the first of them at \<open>f\<close>, but all lie above the address,
  the search still reports success: the left end it returns is not to the right of the right end,
  where its comment promises the opposite. The entry it names is the left end of the region or,
  when that is of the type, the one before it, outside the region.\<close>

theorem stab_binsearch_misses:
  assumes "L \<le> R" and sorted: "sorted_stabs stabs t L R" and top: "x \<noteq> 0xFFFFFFFF"
    and above: "\<forall>k. L \<le> k \<and> k \<le> R \<and> n_type (stabs k) = t \<longrightarrow> x < n_value (stabs k)"
    and first: "L \<le> f" "f \<le> R" "n_type (stabs f) = t" "\<forall>k. L \<le> k \<and> k < f \<longrightarrow> n_type (stabs k) \<noteq> t"
  shows "stab_binsearch stabs L R t x = (if f = L then L - 1 else L, f - 1) \<and>
    fst (stab_binsearch stabs L R t x) \<le> snd (stab_binsearch stabs L R t x)"
proof -
  have gap: "no_neighbours stabs t L R x" using above by (auto simp: no_neighbours_def typed_at_def)
  obtain rl rr any addr where run: "bs_loop stabs t L R L R False x = (rl, rr, any)"
    and inv: "bs_inv stabs t L R x (rr + 1) rr rl rr any addr"
    using assms(1) sorted gap top by (rule stab_binsearch_end)
  have "\<not> (L \<le> rl \<and> rl \<le> rr \<and> typed_at stabs t rl \<and> n_value (stabs rl) \<le> x)"
    using above inv by (auto simp: bs_inv_def typed_at_def not_le [symmetric])
  then have none: "rl = L" "\<forall>k. L \<le> k \<and> k \<le> rr \<longrightarrow> \<not> typed_at stabs t k" "any \<longleftrightarrow> rr < R"
    using inv by (auto simp: bs_inv_def)
  have "rr < f" using none(2) first by (auto simp: typed_at_def not_le [symmetric])
  moreover from this have "typed_at stabs t (rr + 1)" "L \<le> rr + 1" using inv first(2) by (auto simp: bs_inv_def)
  ultimately have rr: "rr = f - 1" using first(4) by (auto simp: typed_at_def)
  have "last_of_type stabs t L (f - 1) = (if f = L then L - 1 else L)"
  proof (cases "f = L")
    case True
    then show ?thesis by (subst last_of_type.simps) simp
  next
    case False
    then show ?thesis using first(1,4) by (simp add: last_of_type_eq typed_at_def)
  qed
  then show ?thesis using none run rr first(1,2) by (simp add: stab_binsearch_def)
qed

text \<open>The table of the comment in the code.\<close>

definition comment_entries :: "(int \<times> u32) list" where
  "comment_entries =
     [(0, 0xf0100000), (13, 0xf0100040), (117, 0xf0100176), (118, 0xf0100178),
      (555, 0xf0100652), (556, 0xf0100654), (657, 0xf0100849)]"

definition comment_stabs :: "int \<Rightarrow> Stab" where
  "comment_stabs i = \<lparr>n_strx = 0, n_type = (if i \<in> fst ` set comment_entries then N_SO else N_FUN),
     n_other = 0, n_desc = 0, n_value = (case map_of comment_entries i of None \<Rightarrow> 0 | Some v \<Rightarrow> v)\<rparr>"

lemma comment_stabs_SO:
  "n_type (comment_stabs i) = 0x64 \<longleftrightarrow> i \<in> {0, 13, 117, 118, 555, 556, 657}"
  "n_value (comment_stabs 0) = 0xf0100000" "n_value (comment_stabs 13) = 0xf0100040"
  "n_value (comment_stabs 117) = 0xf0100176" "n_value (comment_stabs 118) = 0xf0100178"
  "n_value (comment_stabs 555) = 0xf0100652" "n_value (comment_stabs 556) = 0xf0100654"
  "n_value (comment_stabs 657) = 0xf0100849"
  by (simp_all add: comment_stabs_def comment_entries_def)

lemma stab_binsearch_finds_witness: "stab_binsearch comment_stabs 0 657 N_SO 0xf0100184 = (118, 554)"
proof -
  have "sorted_stabs comment_stabs 0x64 0 657"
    unfolding sorted_stabs_def comment_stabs_SO(1)
    by (intro allI impI, elim conjE insertE emptyE) (simp_all add: comment_stabs_SO(2-))
  moreover have "no_neighbours comment_stabs 0x64 0 657 0xf0100184"
    unfolding no_neighbours_def typed_at_def comment_stabs_SO(1)
    by (intro notI, elim exE conjE insertE emptyE) (simp_all add: comment_stabs_SO(2-))
  ultimately have r: "case stab_binsearch comment_stabs 0 657 0x64 0xf0100184 of (a, b) \<Rightarrow>
    0 \<le> a \<and> a \<le> b \<and> b \<le> 657 \<and> n_type (comment_stabs a) = 0x64 \<and> n_value (comment_stabs a) \<le> 0xf0100184 \<and>
    (\<forall>k. a < k \<and> k \<le> b \<longrightarrow> n_type (comment_stabs k) \<noteq> 0x64) \<and>
    (b \<noteq> 657 \<longrightarrow> n_type (comment_stabs (b + 1)) = 0x64 \<and> 0xf0100184 < n_value (comment_stabs (b + 1)))"
    by (intro stab_binsearch_finds [where i = 0]) (simp_all add: comment_stabs_SO)
  obtain a b where ab: "stab_binsearch comment_stabs 0 657 0x64 0xf0100184 = (a, b)" by force
  have a: "a \<in> {0, 13, 117, 118}" and b: "b = 657 \<or> b + 1 \<in> {555, 556, 657}"
    and none: "\<And>k. a < k \<Longrightarrow> k \<le> b \<Longrightarrow> k \<notin> {0, 13, 117, 118, 555, 556, 657}"
    using r unfolding ab prod.case comment_stabs_SO(1) by (auto simp: comment_stabs_SO(2-))
  have "b < 555"
  proof (rule ccontr)
    assume "\<not> b < 555"
    moreover have "a < 555" using a by auto
    ultimately have "(555 :: int) \<notin> {0, 13, 117, 118, 555, 556, 657}" by (intro none) simp_all
    then show False by simp
  qed
  then have "b = 554" using b by auto
  moreover have "a = 118" using none [of 118] a \<open>b = 554\<close> by auto
  ultimately show ?thesis by (simp add: ab)
qed

text \<open>Two entries at neighbouring addresses: the search for the first finds the second.\<close>

definition two_lines :: "int \<Rightarrow> Stab" where
  "two_lines i = \<lparr>n_strx = 0, n_type = N_SLINE, n_other = 0, n_desc = ucast (word_of_int i :: u32),
     n_value = (if i = 0 then 100 else if i = 1 then 101 else 200)\<rparr>"

lemma stab_binsearch_neighbours: "stab_binsearch two_lines 0 1 N_SLINE 100 = (1, 1)"
proof -
  have ty: "n_type (two_lines i) = 0x44" for i by (simp add: two_lines_def)
  have v: "n_value (two_lines 0) = 100" "n_value (two_lines 1) = 101" by (simp_all add: two_lines_def)
  have sc: "scan_type two_lines 0x44 l m = m" for l m by (subst scan_type.simps) (simp add: ty)
  have mid: "middle 0 0 = 0" "middle 1 1 = 1" "middle 0 1 = 0"
    by (simp_all add: middle_def signed_divide_int_def)
  have "bs_loop two_lines 0x44 0 1 0 1 False 100 = bs_loop two_lines 0x44 0 1 0 1 True 101"
    by (subst bs_loop.simps) (simp add: Let_def sc mid v)
  also have "\<dots> = bs_loop two_lines 0x44 1 1 0 1 True 101"
    by (subst bs_loop.simps) (simp add: Let_def sc mid v)
  also have "\<dots> = bs_loop two_lines 0x44 1 1 1 1 True 102"
    by (subst bs_loop.simps) (simp add: Let_def sc mid v)
  also have "\<dots> = bs_loop two_lines 0x44 2 1 1 1 True 102"
    by (subst bs_loop.simps) (simp add: Let_def sc mid v)
  also have "\<dots> = (1, 1, True)" by (subst bs_loop.simps) simp
  finally have "bs_loop two_lines 0x44 0 1 0 1 False 100 = (1, 1, True)" .
  moreover have "last_of_type two_lines 0x44 1 1 = 1" by (subst last_of_type.simps) simp
  ultimately show ?thesis by (simp add: stab_binsearch_def)
qed

lemma stab_binsearch_misses_witness: "stab_binsearch two_lines 0 1 N_SLINE 50 = (-1, -1)"
proof -
  have "sorted_stabs two_lines 0x44 0 1"
    by (auto simp: sorted_stabs_def two_lines_def)
  then show ?thesis
    using stab_binsearch_misses [of 0 1 two_lines "0x44" 50 0] by (simp add: two_lines_def)
qed

section \<open>Looking up an instruction\<close>

record Eipdebuginfo =
  eip_file :: u32
  eip_line :: int
  eip_fn_name :: u32
  eip_fn_namelen :: int
  eip_fn_addr :: u32
  eip_fn_narg :: int

text \<open>
  The tables the linker provides: the entries and their number, the two ends of the string
  table, and the memory it is in; \<open>lit\<close> is the address of the constant \<open><unknown>\<close>.
\<close>

record symtab =
  stabs :: "int \<Rightarrow> Stab"
  stab_count :: int
  stabstr :: u32
  stabstr_end :: u32
  strings :: bytes
  lit_unknown :: u32

definition strtab_size :: "symtab \<Rightarrow> u32" where
  "strtab_size tb = stabstr_end tb - stabstr tb"

text \<open>Backwards to the entry that names the file.\<close>

function file_stab :: "(int \<Rightarrow> Stab) \<Rightarrow> int \<Rightarrow> int \<Rightarrow> int" where
  "file_stab st lfile lline =
     (if lline \<ge> lfile \<and> n_type (st lline) \<noteq> N_SOL \<and>
         (n_type (st lline) \<noteq> N_SO \<or> n_value (st lline) = 0)
      then file_stab st lfile (lline - 1) else lline)"
  by pat_completeness auto
termination by (relation "measure (\<lambda>(_, lfile, lline). nat (lline - lfile + 1))") auto

declare file_stab.simps [simp del]

partial_function (option) count_psym :: "(int \<Rightarrow> Stab) \<Rightarrow> int \<Rightarrow> int \<Rightarrow> int option" where
  "count_psym st lfun narg =
     (if n_type (st (lfun + narg + 1)) = N_PSYM then count_psym st lfun (narg + 1) else Some narg)"

text \<open>The last part: the line, the file and the number of arguments.\<close>

definition debuginfo_line ::
    "symtab \<Rightarrow> int \<Rightarrow> int \<Rightarrow> int \<Rightarrow> int \<Rightarrow> u32 \<Rightarrow> Eipdebuginfo \<Rightarrow> (int \<times> Eipdebuginfo) option" where
  "debuginfo_line tb lfile lfun lline rline addr info =
     (let (lline, rline) = stab_binsearch (stabs tb) lline rline N_SLINE addr in
      if lline \<le> rline then
        let info = info\<lparr>eip_line := uint (n_desc (stabs tb lline))\<rparr>;
            lline = file_stab (stabs tb) lfile lline;
            info = (if lline \<ge> lfile \<and> n_strx (stabs tb lline) < strtab_size tb
                    then info\<lparr>eip_file := stabstr tb + n_strx (stabs tb lline)\<rparr> else info)
        in map_option (\<lambda>narg. (0, info\<lparr>eip_fn_narg := narg\<rparr>))
             (count_psym (stabs tb) lfun (eip_fn_narg info))
      else Some (-1, info))"

definition debuginfo_eip :: "symtab \<Rightarrow> u32 \<Rightarrow> (int \<times> Eipdebuginfo) res option" where
  "debuginfo_eip tb addr =
     (let info = \<lparr>eip_file = lit_unknown tb, eip_line = 0, eip_fn_name = lit_unknown tb,
                  eip_fn_namelen = 9, eip_fn_addr = addr, eip_fn_narg = 0\<rparr>
      in if addr < ULIM then Some (Inl (Panic ''User address''))
      else if stabstr_end tb \<le> stabstr tb \<or> strings tb (stabstr_end tb - 1) \<noteq> 0 then
        Some (Inr (-1, info))
      else
        let (lfile, rfile) = stab_binsearch (stabs tb) 0 (stab_count tb - 1) N_SO addr in
        if lfile = 0 then Some (Inr (-1, info))
        else
          let (lfun, rfun) = stab_binsearch (stabs tb) lfile rfile N_FUN addr;
              (info, addr, lline, rline) =
                (if lfun \<le> rfun then
                   let info = (if n_strx (stabs tb lfun) < strtab_size tb
                               then info\<lparr>eip_fn_name := stabstr tb + n_strx (stabs tb lfun)\<rparr> else info);
                       info = info\<lparr>eip_fn_addr := n_value (stabs tb lfun)\<rparr>
                   in (info, addr - eip_fn_addr info, lfun, rfun)
                 else (info\<lparr>eip_fn_addr := addr\<rparr>, addr, lfile, rfile))
          in case strfind (strings tb) (eip_fn_name info) (of_char (CHR '':'')) of
               None \<Rightarrow> None
             | Some e \<Rightarrow>
                 map_option Inr
                   (debuginfo_line tb lfile lfun lline rline addr
                     (info\<lparr>eip_fn_namelen := sint (e - eip_fn_name info)\<rparr>)))"

end
