(* ===== verification/Cells.thy ===== *)
theory Cells
  imports Jos_Prelude
begin

text \<open>
  Stores with a read and a write operation: the VMCS behind \<^verbatim>\<open>vmread\<close> and \<^verbatim>\<open>vmwrite\<close>, the
  saved guest registers, the descriptor tables. Their code writes long sequences of fields;
  the locale says once what a sequence of writes leaves in the store.
\<close>

definition write_all :: "('k \<Rightarrow> 'v \<Rightarrow> 's \<Rightarrow> 's) \<Rightarrow> ('k \<times> 'v) list \<Rightarrow> 's \<Rightarrow> 's" where
  "write_all put kvs s = fold (\<lambda>(k, v). put k v) kvs s"

lemma write_all_simps [simp]:
  "write_all put [] s = s"
  "write_all put ((k, v) # kvs) s = write_all put kvs (put k v s)"
  by (simp_all add: write_all_def)

lemma write_all_append [simp]:
  "write_all put (xs @ ys) s = write_all put ys (write_all put xs s)"
  by (simp add: write_all_def)

lemma map_of_rev_distinct: "distinct (map fst kvs) \<Longrightarrow> map_of (rev kvs) = map_of kvs"
  by (subst map_of_inject_set) (simp_all add: rev_map [symmetric])

locale cells =
  fixes get :: "'s \<Rightarrow> 'k \<Rightarrow> 'v"
    and put :: "'k \<Rightarrow> 'v \<Rightarrow> 's \<Rightarrow> 's"
    and valid :: "'k set"
  assumes get_put: "k \<in> valid \<Longrightarrow> k' \<in> valid \<Longrightarrow> get (put k v s) k' = (if k' = k then v else get s k')"
begin

lemma write_all_get:
  assumes "fst ` set kvs \<subseteq> valid" and "k \<in> valid"
  shows "get (write_all put kvs s) k =
    (case map_of (rev kvs) k of None \<Rightarrow> get s k | Some v \<Rightarrow> v)"
  using assms
proof (induction kvs arbitrary: s rule: rev_induct)
  case (snoc x kvs)
  then show ?case by (cases x) (auto simp: get_put)
qed simp

lemma write_all_distinct:
  assumes "fst ` set kvs \<subseteq> valid" and "k \<in> valid" and "distinct (map fst kvs)"
  shows "get (write_all put kvs s) k = (case map_of kvs k of None \<Rightarrow> get s k | Some v \<Rightarrow> v)"
  using write_all_get [OF assms(1,2)] map_of_rev_distinct [OF assms(3)] by simp

lemma write_all_frame:
  assumes "fst ` set kvs \<subseteq> valid" and "k \<in> valid" and "k \<notin> fst ` set kvs"
  shows "get (write_all put kvs s) k = get s k"
  using assms by (simp add: write_all_get map_of_eq_None_iff [THEN iffD2])

text \<open>Two writes to different cells commute as far as reads can tell.\<close>

lemma put_commute:
  assumes "k \<in> valid" "k' \<in> valid" "j \<in> valid" "k \<noteq> k'"
  shows "get (put k v (put k' v' s)) j = get (put k' v' (put k v s)) j"
  using assms by (simp add: get_put)

end

text \<open>The plain case: a store that is a function.\<close>

definition fun_put :: "'k \<Rightarrow> 'v \<Rightarrow> ('k \<Rightarrow> 'v) \<Rightarrow> 'k \<Rightarrow> 'v" where
  "fun_put k v f = f(k := v)"

end
