(* ===== verification/Page_Queue.thy ===== *)
theory Page_Queue
  imports Jos_Prelude
begin

text \<open>
  The intrusive doubly linked lists of \<^verbatim>\<open>inc/queue.h\<close>, as \<^verbatim>\<open>struct Page\<close> uses them for the
  free list. A \<^verbatim>\<open>struct Page *\<close> is the index of the structure in \<^verbatim>\<open>pages[]\<close> (what
  \<^verbatim>\<open>page2ppn\<close> computes), a null pointer is \<open>None\<close>. The field \<^verbatim>\<open>le_prev\<close> points at a
  pointer: either the list head or the \<^verbatim>\<open>le_next\<close> of another structure.

  \<open>linked\<close> and \<open>free_list\<close> relate the pointers to the abstract list of page numbers; the
  macros refine the list operations.
\<close>

section \<open>Structures\<close>

datatype link = Head_of_list | Next_of ppn

record page =
  le_next :: "ppn option"
  le_prev :: "link option"
  pp_ref :: u16

record page_heap =
  lh_first :: "ppn option"
  pages :: "ppn \<Rightarrow> page"

definition null_page :: page where
  "null_page = \<lparr>le_next = None, le_prev = None, pp_ref = 0\<rparr>"

definition set_next :: "ppn \<Rightarrow> ppn option \<Rightarrow> 'a page_heap_scheme \<Rightarrow> 'a page_heap_scheme" where
  "set_next p n s = s\<lparr>pages := (pages s)(p := (pages s p)\<lparr>le_next := n\<rparr>)\<rparr>"

definition set_prev :: "ppn \<Rightarrow> link option \<Rightarrow> 'a page_heap_scheme \<Rightarrow> 'a page_heap_scheme" where
  "set_prev p l s = s\<lparr>pages := (pages s)(p := (pages s p)\<lparr>le_prev := l\<rparr>)\<rparr>"

text \<open>Writing through a \<^verbatim>\<open>le_prev\<close>: \<^verbatim>\<open>*(elm)->field.le_prev = n\<close>.\<close>

fun store_link :: "link option \<Rightarrow> ppn option \<Rightarrow> 'a page_heap_scheme \<Rightarrow> 'a page_heap_scheme res" where
  "store_link None n s = Inl (Fault ''null le_prev'')"
| "store_link (Some Head_of_list) n s = Inr (s\<lparr>lh_first := n\<rparr>)"
| "store_link (Some (Next_of p)) n s = Inr (set_next p n s)"

section \<open>The list macros\<close>

definition LIST_EMPTY :: "'a page_heap_scheme \<Rightarrow> bool" where
  "LIST_EMPTY s \<longleftrightarrow> lh_first s = None"

definition LIST_FIRST :: "'a page_heap_scheme \<Rightarrow> ppn option" where
  "LIST_FIRST s = lh_first s"

definition LIST_NEXT :: "ppn \<Rightarrow> 'a page_heap_scheme \<Rightarrow> ppn option" where
  "LIST_NEXT elm s = le_next (pages s elm)"

definition LIST_INIT :: "'a page_heap_scheme \<Rightarrow> 'a page_heap_scheme" where
  "LIST_INIT s = s\<lparr>lh_first := None\<rparr>"

definition LIST_INSERT_AFTER :: "ppn \<Rightarrow> ppn \<Rightarrow> 'a page_heap_scheme \<Rightarrow> 'a page_heap_scheme" where
  "LIST_INSERT_AFTER listelm elm s =
     (let s1 = set_next elm (LIST_NEXT listelm s) s;
          s2 = (case LIST_NEXT elm s1 of
                  None \<Rightarrow> s1
                | Some _ \<Rightarrow>
                    (case LIST_NEXT listelm s1 of
                       None \<Rightarrow> s1
                     | Some n \<Rightarrow> set_prev n (Some (Next_of elm)) s1));
          s3 = set_next listelm (Some elm) s2
      in set_prev elm (Some (Next_of listelm)) s3)"

definition LIST_INSERT_BEFORE ::
    "ppn \<Rightarrow> ppn \<Rightarrow> 'a page_heap_scheme \<Rightarrow> 'a page_heap_scheme res" where
  "LIST_INSERT_BEFORE listelm elm s =
     (let s1 = set_prev elm (le_prev (pages s listelm)) s;
          s2 = set_next elm (Some listelm) s1
      in res_bind (store_link (le_prev (pages s2 listelm)) (Some elm) s2)
           (\<lambda>s3. Inr (set_prev listelm (Some (Next_of elm)) s3)))"

definition LIST_INSERT_HEAD :: "ppn \<Rightarrow> 'a page_heap_scheme \<Rightarrow> 'a page_heap_scheme" where
  "LIST_INSERT_HEAD elm s =
     (let s1 = set_next elm (lh_first s) s;
          s2 = (case lh_first s1 of
                  None \<Rightarrow> s1
                | Some f \<Rightarrow> set_prev f (Some (Next_of elm)) s1);
          s3 = s2\<lparr>lh_first := Some elm\<rparr>
      in set_prev elm (Some Head_of_list) s3)"

definition LIST_REMOVE :: "ppn \<Rightarrow> 'a page_heap_scheme \<Rightarrow> 'a page_heap_scheme res" where
  "LIST_REMOVE elm s =
     (let s1 = (case LIST_NEXT elm s of
                  None \<Rightarrow> s
                | Some n \<Rightarrow> set_prev n (le_prev (pages s elm)) s)
      in store_link (le_prev (pages s1 elm)) (LIST_NEXT elm s1) s1)"

text \<open>The traversal of \<^verbatim>\<open>LIST_FOREACH\<close>, with fuel: a list the code corrupted may be cyclic.\<close>

fun LIST_FOREACH :: "nat \<Rightarrow> (ppn \<Rightarrow> page) \<Rightarrow> ppn option \<Rightarrow> ppn list option" where
  "LIST_FOREACH fuel h None = Some []"
| "LIST_FOREACH 0 h (Some p) = None"
| "LIST_FOREACH (Suc fuel) h (Some p) =
     map_option (Cons p) (LIST_FOREACH fuel h (le_next (h p)))"

section \<open>The list a head represents\<close>

fun linked :: "(ppn \<Rightarrow> page) \<Rightarrow> link \<Rightarrow> ppn option \<Rightarrow> ppn list \<Rightarrow> bool" where
  "linked h l p [] \<longleftrightarrow> p = None"
| "linked h l p (x # xs) \<longleftrightarrow>
     p = Some x \<and> le_prev (h x) = Some l \<and> linked h (Next_of x) (le_next (h x)) xs"

definition free_list :: "'a page_heap_scheme \<Rightarrow> ppn list \<Rightarrow> bool" where
  "free_list s xs \<longleftrightarrow> linked (pages s) Head_of_list (lh_first s) xs"

named_theorems queue_defs \<open>the list macros, unfolded to field updates\<close>

lemmas [queue_defs] =
  set_next_def set_prev_def LIST_EMPTY_def LIST_FIRST_def LIST_NEXT_def LIST_INIT_def
  LIST_INSERT_AFTER_def LIST_INSERT_BEFORE_def LIST_INSERT_HEAD_def LIST_REMOVE_def Let_def

lemma linked_unique: "linked h l p xs \<Longrightarrow> linked h l' p ys \<Longrightarrow> xs = ys"
proof (induction xs arbitrary: l l' p ys)
  case Nil
  then show ?case by (cases ys) auto
next
  case (Cons x xs)
  then show ?case by (cases ys) auto
qed

lemma linked_cong:
  assumes "\<And>x. x \<in> set xs \<Longrightarrow> le_next (h' x) = le_next (h x) \<and> le_prev (h' x) = le_prev (h x)"
  shows "linked h' l p xs = linked h l p xs"
  using assms by (induction xs arbitrary: l p) auto

lemma linked_suffix:
  "linked h l p (xs @ y # ys) \<Longrightarrow> \<exists>l'. linked h l' (Some y) (y # ys)"
  by (induction xs arbitrary: l p) auto

lemma linked_head_notin:
  assumes "linked h l (Some x) (x # xs)"
  shows "x \<notin> set xs"
proof
  assume "x \<in> set xs"
  then obtain us vs where xs: "xs = us @ x # vs" by (auto simp: in_set_conv_decomp)
  with assms have "linked h (Next_of x) (le_next (h x)) (us @ x # vs)" by simp
  then obtain l' where "linked h l' (Some x) (x # vs)" by (blast dest: linked_suffix)
  then have "x # vs = x # xs" using assms by (rule linked_unique)
  with xs show False by simp
qed

lemma linked_distinct: "linked h l p xs \<Longrightarrow> distinct xs"
proof (induction xs arbitrary: l p)
  case (Cons x xs)
  then have "x \<notin> set xs" by (intro linked_head_notin [of h l x xs]) auto
  with Cons show ?case by auto
qed simp

text \<open>A segment ends at a link \<open>l'\<close> that holds \<open>q\<close>.\<close>

fun lseg :: "(ppn \<Rightarrow> page) \<Rightarrow> link \<Rightarrow> ppn option \<Rightarrow> ppn list \<Rightarrow> link \<Rightarrow> ppn option \<Rightarrow> bool" where
  "lseg h l p [] l' q \<longleftrightarrow> l = l' \<and> p = q"
| "lseg h l p (x # xs) l' q \<longleftrightarrow>
     p = Some x \<and> le_prev (h x) = Some l \<and> lseg h (Next_of x) (le_next (h x)) xs l' q"

lemma linked_append:
  "linked h l p (xs @ ys) \<longleftrightarrow> (\<exists>l' q. lseg h l p xs l' q \<and> linked h l' q ys)"
  by (induction xs arbitrary: l p) auto

lemma lseg_append:
  "lseg h l p (xs @ ys) l' q \<longleftrightarrow> (\<exists>m r. lseg h l p xs m r \<and> lseg h m r ys l' q)"
  by (induction xs arbitrary: l p) auto

lemma lseg_cong:
  assumes "\<And>x. x \<in> set xs \<Longrightarrow> le_next (h' x) = le_next (h x) \<and> le_prev (h' x) = le_prev (h x)"
  shows "lseg h' l p xs l' q = lseg h l p xs l' q"
  using assms by (induction xs arbitrary: l p) auto

lemma linked_relink:
  assumes "linked h l p xs"
    and "\<And>x. x \<in> set xs \<Longrightarrow> le_next (h' x) = le_next (h x)"
    and "\<And>x. x \<in> set xs \<Longrightarrow> p \<noteq> Some x \<Longrightarrow> le_prev (h' x) = le_prev (h x)"
    and "\<And>x. p = Some x \<Longrightarrow> le_prev (h' x) = Some l'"
  shows "linked h' l' p xs"
proof (cases xs)
  case (Cons x ys)
  with assms(1) have px: "p = Some x" and tl: "linked h (Next_of x) (le_next (h x)) ys"
    and "x \<notin> set ys"
    using linked_head_notin [of h l x ys] by auto
  then have "linked h' (Next_of x) (le_next (h x)) ys"
    using assms(2,3) Cons by (subst linked_cong [where h = h]) auto
  with Cons px assms(2,4) show ?thesis by auto
qed (use assms(1) in simp)

section \<open>Refinement of the list operations\<close>

lemma LIST_EMPTY_iff: "free_list s xs \<Longrightarrow> LIST_EMPTY s \<longleftrightarrow> xs = []"
  by (cases xs) (auto simp: free_list_def queue_defs)

lemma LIST_FIRST_Cons: "free_list s (x # xs) \<Longrightarrow> LIST_FIRST s = Some x"
  by (simp add: free_list_def queue_defs)

lemma LIST_INIT_Nil: "free_list (LIST_INIT s) []"
  by (simp add: free_list_def queue_defs)

lemma free_list_distinct: "free_list s xs \<Longrightarrow> distinct xs"
  by (auto simp: free_list_def intro: linked_distinct)

lemma LIST_INSERT_HEAD_list:
  assumes "free_list s xs" and "elm \<notin> set xs"
  shows "free_list (LIST_INSERT_HEAD elm s) (elm # xs)"
proof -
  let ?h = "pages (LIST_INSERT_HEAD elm s)"
  have "linked ?h (Next_of elm) (lh_first s) xs"
    using assms(1)[unfolded free_list_def]
    by (rule linked_relink)
      (use assms in \<open>auto simp: queue_defs free_list_def split: option.split; cases xs; auto\<close>)+
  moreover have "lh_first (LIST_INSERT_HEAD elm s) = Some elm"
    "le_prev (?h elm) = Some Head_of_list" "le_next (?h elm) = lh_first s"
    by (auto simp: queue_defs split: option.split)
  ultimately show ?thesis by (simp add: free_list_def)
qed


lemma LIST_REMOVE_list:
  assumes "free_list s (us @ x # vs)"
  obtains s' where "LIST_REMOVE x s = Inr s'" and "free_list s' (us @ vs)"
proof -
  let ?h = "pages s" and ?n = "le_next (pages s x)"
  define h1 where "h1 = (case ?n of None \<Rightarrow> ?h
    | Some n \<Rightarrow> ?h(n := (?h n)\<lparr>le_prev := le_prev (?h x)\<rparr>))"
  from assms obtain l' where
    seg: "lseg ?h Head_of_list (lh_first s) us l' (Some x)" and px: "le_prev (?h x) = Some l'"
    and tl: "linked ?h (Next_of x) ?n vs"
    by (auto simp: free_list_def linked_append)
  have dist: "distinct (us @ x # vs)" using assms by (rule free_list_distinct)
  have n_vs: "?n = Some n \<Longrightarrow> n \<in> set vs" for n using tl by (cases vs) auto
  have rel: "linked (h1(w := (h1 w)\<lparr>le_next := q\<rparr>)) l' ?n vs" if "w \<notin> set vs" for w q
    using tl by (rule linked_relink) (use that px n_vs in \<open>auto simp: h1_def split: option.split\<close>)
  have h1x: "le_prev (h1 x) = Some l'" "le_next (h1 x) = ?n" and h1u: "u \<in> set us \<Longrightarrow> h1 u = ?h u" for u
    using dist px n_vs by (auto simp: h1_def split: option.split)
  show ?thesis
  proof (cases us rule: rev_cases)
    case Nil
    with seg have l': "l' = Head_of_list" by simp
    have "linked h1 l' ?n vs"
      using tl by (rule linked_relink) (use px n_vs in \<open>auto simp: h1_def split: option.split\<close>)
    then have "free_list (s\<lparr>pages := h1, lh_first := ?n\<rparr>) (us @ vs)"
      by (simp add: free_list_def Nil l')
    moreover have "LIST_REMOVE x s = Inr (s\<lparr>pages := h1, lh_first := ?n\<rparr>)"
      using px l' by (auto simp: queue_defs h1_def split: option.split)
    ultimately show ?thesis using that by blast
  next
    case (snoc ws w)
    with seg obtain m where m: "lseg ?h Head_of_list (lh_first s) ws m (Some w)"
      and pw: "le_prev (?h w) = Some m" and l': "l' = Next_of w"
      by (auto simp: lseg_append)
    define h2 where "h2 = h1(w := (h1 w)\<lparr>le_next := ?n\<rparr>)"
    have w: "w \<notin> set ws" "w \<notin> set vs" "w \<noteq> x" using dist snoc by auto
    have "lseg h2 Head_of_list (lh_first s) ws m (Some w)"
      using m w h1u by (subst lseg_cong [where h = ?h]) (auto simp: h2_def snoc)
    moreover have "le_prev (h2 w) = Some m" "le_next (h2 w) = ?n"
      using pw h1u [of w] by (simp_all add: h2_def snoc)
    moreover have "linked h2 (Next_of w) ?n vs" using rel [OF w(2)] by (simp add: h2_def l')
    ultimately have "free_list (s\<lparr>pages := h2\<rparr>) (us @ vs)"
      by (auto simp: free_list_def snoc linked_append)
    moreover have "LIST_REMOVE x s = Inr (s\<lparr>pages := h2\<rparr>)"
      using px l' h1x w(3) by (auto simp: queue_defs h2_def h1_def split: option.split)
    ultimately show ?thesis using that by blast
  qed
qed


lemma LIST_INSERT_AFTER_list:
  assumes "free_list s (us @ x # vs)" and "elm \<notin> set (us @ x # vs)"
  shows "free_list (LIST_INSERT_AFTER x elm s) (us @ x # elm # vs)"
proof -
  let ?h = "pages s" and ?s' = "LIST_INSERT_AFTER x elm s"
  from assms obtain l' where
    seg: "lseg ?h Head_of_list (lh_first s) us l' (Some x)" and px: "le_prev (?h x) = Some l'"
    and tl: "linked ?h (Next_of x) (le_next (?h x)) vs"
    by (auto simp: free_list_def linked_append)
  have dist: "distinct (us @ x # vs)" using assms(1) by (rule free_list_distinct)
  have ne: "x \<noteq> elm" and nx: "le_next (?h x) = Some n \<Longrightarrow> n \<in> set vs" for n
    using assms(2) tl by (auto; cases vs; auto)+
  have "linked (pages ?s') (Next_of elm) (le_next (?h x)) vs"
    using tl by (rule linked_relink)
      (use assms(2) dist ne nx in \<open>auto simp: queue_defs split: option.split\<close>)
  moreover have "lseg (pages ?s') Head_of_list (lh_first s) us l' (Some x)"
    using seg assms(2) dist nx
    by (subst lseg_cong [where h = ?h]) (auto simp: queue_defs split: option.split)
  moreover have "lh_first ?s' = lh_first s" "le_prev (pages ?s' x) = Some l'"
    "le_next (pages ?s' x) = Some elm" "le_prev (pages ?s' elm) = Some (Next_of x)"
    "le_next (pages ?s' elm) = le_next (?h x)"
    using px ne nx dist by (auto simp: queue_defs split: option.split)
  ultimately show ?thesis by (auto simp: free_list_def linked_append)
qed

text \<open>The list operations never touch a reference count.\<close>

lemma LIST_INSERT_HEAD_ref [simp]: "pp_ref (pages (LIST_INSERT_HEAD elm s) p) = pp_ref (pages s p)"
  by (simp add: queue_defs split: option.split)

lemma store_link_ref: "store_link l n s = Inr s' \<Longrightarrow> pp_ref (pages s' p) = pp_ref (pages s p)"
  by (cases "(l, n, s)" rule: store_link.cases) (auto simp: queue_defs)

lemma LIST_REMOVE_ref: "LIST_REMOVE elm s = Inr s' \<Longrightarrow> pp_ref (pages s' p) = pp_ref (pages s p)"
  by (auto simp: queue_defs dest!: store_link_ref [where p = p] split: option.splits)

lemma store_link_more: "store_link l n s = Inr s' \<Longrightarrow> page_heap.more s' = page_heap.more s"
  by (cases "(l, n, s)" rule: store_link.cases) (auto simp: queue_defs)

lemma LIST_REMOVE_more: "LIST_REMOVE elm s = Inr s' \<Longrightarrow> page_heap.more s' = page_heap.more s"
  by (auto simp: queue_defs dest!: store_link_more split: option.splits)

lemma LIST_INSERT_HEAD_more [simp]: "page_heap.more (LIST_INSERT_HEAD elm s) = page_heap.more s"
  by (simp add: queue_defs split: option.split)

lemma LIST_FOREACH_linked:
  "linked h l p xs \<Longrightarrow> length xs \<le> fuel \<Longrightarrow> LIST_FOREACH fuel h p = Some xs"
proof (induction xs arbitrary: l p fuel)
  case (Cons x xs)
  then show ?case by (cases fuel) auto
qed simp

end
