(* ===== verification/Pmap_Mem.thy ===== *)
theory Pmap_Mem
  imports Mmu Page_Queue
begin

text \<open>
  The state of \<^verbatim>\<open>kern/pmap.c\<close> and the address conversions of \<^verbatim>\<open>kern/pmap.h\<close>.

  Memory that holds page directories and page tables is \<open>mem\<close>, a map from kernel virtual
  addresses to 32-bit words; the code only touches it at word-aligned addresses. The array
  \<^verbatim>\<open>pages[]\<close> is kept apart from it, as \<open>pages\<close> of the record it extends: the two live in
  different pages (\<^verbatim>\<open>boot_alloc\<close> hands out disjoint ranges). The hardware state the file
  writes is \<open>cr0\<close>, \<open>cr3\<close> and \<open>tlb\<close>, the log of \<^verbatim>\<open>invlpg\<close> addresses, newest first.

  For the proofs a word of page-table memory is named by its page frame and its index in
  the frame (\<open>cell\<close>), so that two accesses are to the same word exactly when both numbers
  agree.
\<close>

section \<open>State\<close>

record vm = page_heap +
  npages :: u32
  n_base_pages :: u32
  kern_pgdir :: u32
  pages_at :: u32
  mem :: "u32 \<Rightarrow> u32"
  nextfree :: u32
  cr0 :: u32
  cr3 :: u32
  tlb :: "u32 list"

definition store :: "u32 \<Rightarrow> u32 \<Rightarrow> 'a vm_scheme \<Rightarrow> 'a vm_scheme" where
  "store a w s = s\<lparr>mem := (mem s)(a := w)\<rparr>"

text \<open>\<^verbatim>\<open>memset(p, 0, n)\<close> on word-aligned memory.\<close>

definition mem_zero :: "u32 \<Rightarrow> u32 \<Rightarrow> 'a vm_scheme \<Rightarrow> 'a vm_scheme" where
  "mem_zero p n s = s\<lparr>mem := (\<lambda>a. if a - p < n then 0 else mem s a)\<rparr>"

section \<open>Address conversions\<close>

definition PADDR :: "u32 \<Rightarrow> u32 res" where
  "PADDR kva =
     (if kva < KERNBASE then Inl (Panic ''PADDR called with invalid kva'')
      else Inr (kva - KERNBASE))"

definition KADDR :: "u32 \<Rightarrow> 'a vm_scheme \<Rightarrow> u32 res" where
  "KADDR pa s =
     (if npages s \<le> PGNUM pa then Inl (Panic ''KADDR called with invalid pa'')
      else Inr (pa + KERNBASE))"

definition page2ppn :: "ppn \<Rightarrow> ppn" where
  "page2ppn pp = pp"

definition page2pa :: "ppn \<Rightarrow> u32" where
  "page2pa pp = push_bit PGSHIFT (page2ppn pp)"

definition pa2page :: "u32 \<Rightarrow> 'a vm_scheme \<Rightarrow> ppn res" where
  "pa2page pa s =
     (if npages s \<le> PGNUM pa then Inl (Panic ''pa2page called with invalid pa'')
      else Inr (PGNUM pa))"

definition page2kva :: "ppn \<Rightarrow> 'a vm_scheme \<Rightarrow> u32 res" where
  "page2kva pp s = KADDR (page2pa pp) s"

text \<open>Reading and writing \<^verbatim>\<open>pp->pp_ref\<close>: \<^verbatim>\<open>pages[]\<close> has \<^verbatim>\<open>npages\<close> elements.\<close>

definition set_ref :: "ppn \<Rightarrow> u16 \<Rightarrow> 'a vm_scheme \<Rightarrow> 'a vm_scheme res" where
  "set_ref p r s =
     (if p < npages s
      then Inr (s\<lparr>pages := (pages s)(p := (pages s p)\<lparr>pp_ref := r\<rparr>)\<rparr>)
      else Inl (Fault ''struct Page out of pages[]''))"

section \<open>Frames and cells\<close>

definition cell :: "nat \<Rightarrow> nat \<Rightarrow> u32" where
  "cell n j = of_nat (0xF0000000 + 4096 * n + 4 * j)"

abbreviation kva :: "nat \<Rightarrow> u32" where
  "kva n \<equiv> cell n 0"

definition fr :: "u32 \<Rightarrow> nat" where
  "fr w = unat w div 4096"

abbreviation pdi :: "u32 \<Rightarrow> nat" where
  "pdi va \<equiv> unat (PDX va)"

abbreviation pti :: "u32 \<Rightarrow> nat" where
  "pti va \<equiv> unat (PTX va)"

lemma unat_cell: "n < 65536 \<Longrightarrow> j < 1024 \<Longrightarrow> unat (cell n j) = 0xF0000000 + 4096 * n + 4 * j"
  unfolding cell_def by (rule unat_of_nat_small) simp

lemma cell_eq_iff:
  assumes "n < 65536" "j < 1024" "m < 65536" "k < 1024"
  shows "cell n j = cell m k \<longleftrightarrow> n = m \<and> j = k"
proof -
  have "n = m \<and> j = k" if "1024 * n + j = 1024 * m + k"
  proof -
    have "(1024 * n + j) div 1024 = n" "(1024 * n + j) mod 1024 = j"
      "(1024 * m + k) div 1024 = m" "(1024 * m + k) mod 1024 = k" using assms by simp_all
    with that show ?thesis by metis
  qed
  moreover have "cell n j = cell m k \<longleftrightarrow> 1024 * n + j = 1024 * m + k"
    unfolding word_unat_eq_iff using assms by (simp add: unat_cell) linarith
  ultimately show ?thesis by blast
qed

lemma cell_index:
  assumes "n < 65536" and "unat i < 1024"
  shows "kva n + 4 * i = cell n (unat i)"
proof -
  have "unat (4 * i :: u32) = 4 * unat i"
    using assms(2) by (subst unat_mult_small) auto
  with assms show ?thesis
    by (simp add: word_unat_eq_iff unat_word_ariths(1) unat_cell)
qed

lemma cell_nonzero: "n < 65536 \<Longrightarrow> j < 1024 \<Longrightarrow> cell n j \<noteq> 0"
  by (simp add: word_unat_eq_iff unat_cell)

lemma fr_lt: "fr w < 1048576"
  unfolding fr_def using unat_lt_32 [of w] by linarith

lemma unat_PGNUM_fr: "unat (PGNUM w) = fr w"
  by (simp add: unat_PGNUM fr_def)

lemma PGNUM_PTE_ADDR [simp]: "PGNUM (PTE_ADDR w) = PGNUM w"
  by (simp add: word_unat_eq_iff word_nat)

lemma fr_PTE_ADDR [simp]: "fr (PTE_ADDR w) = fr w"
  by (simp add: fr_def word_nat)

lemma kva_PTE_ADDR: "fr w < 65536 \<Longrightarrow> PTE_ADDR w + KERNBASE = kva (fr w)"
  by (simp add: word_unat_eq_iff unat_word_ariths(1) unat_PTE_ADDR unat_cell)
    (simp add: fr_def mult.commute)

lemma unat_page2pa: "unat p < 65536 \<Longrightarrow> unat (page2pa p) = 4096 * unat p"
  by (simp add: page2pa_def page2ppn_def unat_word_ariths(2) push_bit_eq_mult)

lemma fr_page2pa: "unat p < 65536 \<Longrightarrow> fr (page2pa p) = unat p"
  by (simp add: fr_def unat_page2pa)

lemma kva_page2pa: "unat p < 65536 \<Longrightarrow> page2pa p + KERNBASE = kva (unat p)"
  by (simp add: word_unat_eq_iff unat_word_ariths(1) unat_page2pa unat_cell)

text \<open>An entry built from a page and permission bits names the page's frame.\<close>

lemma fr_or_perm:
  assumes "unat p < 65536" and "unat perm < 4096"
  shows "fr (page2pa p OR perm) = unat p"
proof -
  have "page2pa p AND perm = 0"
    using assms by (intro and_low_eq_0 [where n = 12]) (auto simp: unat_page2pa)
  then have "unat (page2pa p OR perm) = 4096 * unat p + unat perm"
    using assms by (simp add: unat_or_disjoint unat_page2pa)
  then show ?thesis using assms(2) by (simp add: fr_def)
qed

lemma store_simps [simp]:
  "mem (store a w s) = (mem s)(a := w)"
  "pages (store a w s) = pages s" "lh_first (store a w s) = lh_first s"
  "npages (store a w s) = npages s" "tlb (store a w s) = tlb s"
  "kern_pgdir (store a w s) = kern_pgdir s" "nextfree (store a w s) = nextfree s"
  by (simp_all add: store_def)

lemma mem_zero_simps [simp]:
  "pages (mem_zero p n s) = pages s" "lh_first (mem_zero p n s) = lh_first s"
  "npages (mem_zero p n s) = npages s" "tlb (mem_zero p n s) = tlb s"
  "kern_pgdir (mem_zero p n s) = kern_pgdir s" "nextfree (mem_zero p n s) = nextfree s"
  by (simp_all add: mem_zero_def)

lemma mem_zero_cell:
  assumes "n < 65536" "m < 65536" "j < 1024"
  shows "mem (mem_zero (kva n) 4096 s) (cell m j) = (if m = n then 0 else mem s (cell m j))"
proof -
  have "cell m j - kva n < 4096 \<longleftrightarrow> m = n"
  proof (cases "n \<le> m")
    case True
    then have "kva n \<le> cell m j" using assms by (simp add: word_le_nat_alt unat_cell)
    then have "unat (cell m j - kva n) = 4096 * (m - n) + 4 * j"
      using assms True by (simp add: unat_sub unat_cell)
    then show ?thesis using True assms(3) by (simp add: word_less_nat_alt) linarith
  next
    case False
    then have "unat (cell m j - kva n) = 4294967296 + unat (cell m j) - unat (kva n)"
      using assms by (simp add: unat_sub_if_size word_size word_le_nat_alt unat_cell)
    then show ?thesis using False assms by (simp add: word_less_nat_alt unat_cell)
  qed
  then show ?thesis by (simp add: mem_zero_def)
qed

end
