(* ===== verification/Vmcs.thy ===== *)
theory Vmcs
  imports Cells Pmap_Mem
begin

text \<open>
  The VMCS field encodings and the other VMX constants of \<^verbatim>\<open>inc/hvm/constants.h\<close>, the state
  of the hypervisor, and the \<^verbatim>\<open>vmread\<close> and \<^verbatim>\<open>vmwrite\<close> wrappers of \<^verbatim>\<open>inc/hvm/asm.h\<close>. The
  current VMCS is a map from encodings to values.
\<close>

section \<open>Field encodings\<close>

text \<open>16-Bit Guest-State Fields.\<close>

definition VMCS_GUEST_ES_SEL :: u32 where [simp]: "VMCS_GUEST_ES_SEL = 0x800"
definition VMCS_GUEST_CS_SEL :: u32 where [simp]: "VMCS_GUEST_CS_SEL = 0x802"
definition VMCS_GUEST_SS_SEL :: u32 where [simp]: "VMCS_GUEST_SS_SEL = 0x804"
definition VMCS_GUEST_DS_SEL :: u32 where [simp]: "VMCS_GUEST_DS_SEL = 0x806"
definition VMCS_GUEST_FS_SEL :: u32 where [simp]: "VMCS_GUEST_FS_SEL = 0x808"
definition VMCS_GUEST_GS_SEL :: u32 where [simp]: "VMCS_GUEST_GS_SEL = 0x80A"
definition VMCS_GUEST_LDTR_SEL :: u32 where [simp]: "VMCS_GUEST_LDTR_SEL = 0x80C"
definition VMCS_GUEST_TR_SEL :: u32 where [simp]: "VMCS_GUEST_TR_SEL = 0x80E"

text \<open>16-Bit Host-State Fields.\<close>

definition VMCS_HOST_ES_SEL :: u32 where [simp]: "VMCS_HOST_ES_SEL = 0xC00"
definition VMCS_HOST_CS_SEL :: u32 where [simp]: "VMCS_HOST_CS_SEL = 0xC02"
definition VMCS_HOST_SS_SEL :: u32 where [simp]: "VMCS_HOST_SS_SEL = 0xC04"
definition VMCS_HOST_DS_SEL :: u32 where [simp]: "VMCS_HOST_DS_SEL = 0xC06"
definition VMCS_HOST_FS_SEL :: u32 where [simp]: "VMCS_HOST_FS_SEL = 0xC08"
definition VMCS_HOST_GS_SEL :: u32 where [simp]: "VMCS_HOST_GS_SEL = 0xC0A"
definition VMCS_HOST_TR_SEL :: u32 where [simp]: "VMCS_HOST_TR_SEL = 0xC0C"

text \<open>64-Bit Control Fields.\<close>

definition VMCS_ADDR_IOBMP_A :: u32 where [simp]: "VMCS_ADDR_IOBMP_A = 0x2000"
definition VMCS_ADDR_IOBMP_A_HIGH :: u32 where [simp]: "VMCS_ADDR_IOBMP_A_HIGH = 0x2001"
definition VMCS_ADDR_IOBMP_B :: u32 where [simp]: "VMCS_ADDR_IOBMP_B = 0x2002"
definition VMCS_ADDR_IOBMP_B_HIGH :: u32 where [simp]: "VMCS_ADDR_IOBMP_B_HIGH = 0x2003"
definition VMCS_ADDR_MSRBMP :: u32 where [simp]: "VMCS_ADDR_MSRBMP = 0x2004"
definition VMCS_ADDR_MSRBMP_HIGH :: u32 where [simp]: "VMCS_ADDR_MSRBMP_HIGH = 0x2005"
definition VMCS_VMEXIT_MSRSTORE_ADDR :: u32 where [simp]: "VMCS_VMEXIT_MSRSTORE_ADDR = 0x2006"
definition VMCS_VMEXIT_MSRSTORE_ADDR_HIGH :: u32 where [simp]: "VMCS_VMEXIT_MSRSTORE_ADDR_HIGH = 0x2007"
definition VMCS_VMEXIT_MSRLOAD_ADDR :: u32 where [simp]: "VMCS_VMEXIT_MSRLOAD_ADDR = 0x2008"
definition VMCS_VMEXIT_MSRLOAD_ADDR_HIGH :: u32 where [simp]: "VMCS_VMEXIT_MSRLOAD_ADDR_HIGH = 0x2009"
definition VMCS_VMENTRY_MSRLOAD_ADDR :: u32 where [simp]: "VMCS_VMENTRY_MSRLOAD_ADDR = 0x200A"
definition VMCS_VMENTRY_MSRLOAD_ADDR_HIGH :: u32 where [simp]: "VMCS_VMENTRY_MSRLOAD_ADDR_HIGH = 0x200B"
definition VMCS_EXEC_VMCS_POINTER :: u32 where [simp]: "VMCS_EXEC_VMCS_POINTER = 0x200C"
definition VMCS_EXEC_VMCS_POINTER_HIGH :: u32 where [simp]: "VMCS_EXEC_VMCS_POINTER_HIGH = 0x200D"
definition VMCS_TSC_OFFSET :: u32 where [simp]: "VMCS_TSC_OFFSET = 0x2010"
definition VMCS_TSC_OFFSET_HIGH :: u32 where [simp]: "VMCS_TSC_OFFSET_HIGH = 0x2011"
definition VMCS_VIRT_APIC_PAGE_ADDR :: u32 where [simp]: "VMCS_VIRT_APIC_PAGE_ADDR = 0x2012"
definition VMCS_VIRT_APIC_PAGE_ADDR_HIGH :: u32 where [simp]: "VMCS_VIRT_APIC_PAGE_ADDR_HIGH = 0x2013"
definition VMCS_EPT_POINTER :: u32 where [simp]: "VMCS_EPT_POINTER = 0x201A"
definition VMCS_EPT_POINTER_HIGH :: u32 where [simp]: "VMCS_EPT_POINTER_HIGH = 0x201B"

text \<open>64-Bit Read-Only Data Field.\<close>

definition VMCS_GUEST_PHYSICAL_ADDR :: u32 where [simp]: "VMCS_GUEST_PHYSICAL_ADDR = 0x2400"
definition VMCS_GUEST_PHYSICAL_ADDR_HIGH :: u32 where [simp]: "VMCS_GUEST_PHYSICAL_ADDR_HIGH = 0x2401"

text \<open>64-Bit Guest-State Fields.\<close>

definition VMCS_VMCS_LINK_POINTER :: u32 where [simp]: "VMCS_VMCS_LINK_POINTER = 0x2800"
definition VMCS_VMCS_LINK_POINTER_HIGH :: u32 where [simp]: "VMCS_VMCS_LINK_POINTER_HIGH = 0x2801"
definition VMCS_GUEST_IA32_DEBUGCTL :: u32 where [simp]: "VMCS_GUEST_IA32_DEBUGCTL = 0x2802"
definition VMCS_GUEST_IA32_DEBUGCTL_HIGH :: u32 where [simp]: "VMCS_GUEST_IA32_DEBUGCTL_HIGH = 0x2803"

text \<open>32-Bit Control Fields.\<close>

definition VMCS_PIN_BASED_VMEXEC_CTL :: u32 where [simp]: "VMCS_PIN_BASED_VMEXEC_CTL = 0x4000"
definition VMCS_PROC_BASED_VMEXEC_CTL :: u32 where [simp]: "VMCS_PROC_BASED_VMEXEC_CTL = 0x4002"
definition VMCS_EXCEPTION_BMP :: u32 where [simp]: "VMCS_EXCEPTION_BMP = 0x4004"
definition VMCS_PAGEFAULT_ERRCODE_MASK :: u32 where [simp]: "VMCS_PAGEFAULT_ERRCODE_MASK = 0x4006"
definition VMCS_PAGEFAULT_ERRCODE_MATCH :: u32 where [simp]: "VMCS_PAGEFAULT_ERRCODE_MATCH = 0x4008"
definition VMCS_CR3_TARGET_COUNT :: u32 where [simp]: "VMCS_CR3_TARGET_COUNT = 0x400A"
definition VMCS_VMEXIT_CTL :: u32 where [simp]: "VMCS_VMEXIT_CTL = 0x400C"
definition VMCS_VMEXIT_MSR_STORE_COUNT :: u32 where [simp]: "VMCS_VMEXIT_MSR_STORE_COUNT = 0x400E"
definition VMCS_VMEXIT_MSR_LOAD_COUNT :: u32 where [simp]: "VMCS_VMEXIT_MSR_LOAD_COUNT = 0x4010"
definition VMCS_VMENTRY_CTL :: u32 where [simp]: "VMCS_VMENTRY_CTL = 0x4012"
definition VMCS_VMENTRY_MSR_LOAD_COUNT :: u32 where [simp]: "VMCS_VMENTRY_MSR_LOAD_COUNT = 0x4014"
definition VMCS_VMENTRY_INTR_INFO_FIELD :: u32 where [simp]: "VMCS_VMENTRY_INTR_INFO_FIELD = 0x4016"
definition VMCS_VMENTRY_EXCEPTION_ERRCODE :: u32 where [simp]: "VMCS_VMENTRY_EXCEPTION_ERRCODE = 0x4018"
definition VMCS_VMENTRY_INSTRUCTION_LEN :: u32 where [simp]: "VMCS_VMENTRY_INSTRUCTION_LEN = 0x401A"
definition VMCS_TPR_THRESHOLD :: u32 where [simp]: "VMCS_TPR_THRESHOLD = 0x401C"
definition VMCS_SECONDARY_VM_EXEC_CONTROL :: u32 where [simp]: "VMCS_SECONDARY_VM_EXEC_CONTROL = 0x401E"
definition VMCS_VM_INSTRUCTION_ERR :: u32 where [simp]: "VMCS_VM_INSTRUCTION_ERR = 0x4400"
definition VMCS_EXIT_REASON :: u32 where [simp]: "VMCS_EXIT_REASON = 0x4402"
definition VMCS_VMEXIT_INTR_INFO :: u32 where [simp]: "VMCS_VMEXIT_INTR_INFO = 0x4404"
definition VMCS_VMEXIT_INTR_ERRCODE :: u32 where [simp]: "VMCS_VMEXIT_INTR_ERRCODE = 0x4406"
definition VMCS_IDT_VECTORING_INFO_FIELD :: u32 where [simp]: "VMCS_IDT_VECTORING_INFO_FIELD = 0x4408"
definition VMCS_IDT_VECTORING_ERRCODE :: u32 where [simp]: "VMCS_IDT_VECTORING_ERRCODE = 0x440A"
definition VMCS_VMEXIT_INSTRUCTION_LEN :: u32 where [simp]: "VMCS_VMEXIT_INSTRUCTION_LEN = 0x440C"
definition VMCS_VMX_INSTRUCTION_INFO :: u32 where [simp]: "VMCS_VMX_INSTRUCTION_INFO = 0x440E"

text \<open>32-Bit Guest-State Fields.\<close>

definition VMCS_GUEST_ES_LIMIT :: u32 where [simp]: "VMCS_GUEST_ES_LIMIT = 0x4800"
definition VMCS_GUEST_CS_LIMIT :: u32 where [simp]: "VMCS_GUEST_CS_LIMIT = 0x4802"
definition VMCS_GUEST_SS_LIMIT :: u32 where [simp]: "VMCS_GUEST_SS_LIMIT = 0x4804"
definition VMCS_GUEST_DS_LIMIT :: u32 where [simp]: "VMCS_GUEST_DS_LIMIT = 0x4806"
definition VMCS_GUEST_FS_LIMIT :: u32 where [simp]: "VMCS_GUEST_FS_LIMIT = 0x4808"
definition VMCS_GUEST_GS_LIMIT :: u32 where [simp]: "VMCS_GUEST_GS_LIMIT = 0x480A"
definition VMCS_GUEST_LDTR_LIMIT :: u32 where [simp]: "VMCS_GUEST_LDTR_LIMIT = 0x480C"
definition VMCS_GUEST_TR_LIMIT :: u32 where [simp]: "VMCS_GUEST_TR_LIMIT = 0x480E"
definition VMCS_GUEST_GDTR_LIMIT :: u32 where [simp]: "VMCS_GUEST_GDTR_LIMIT = 0x4810"
definition VMCS_GUEST_IDTR_LIMIT :: u32 where [simp]: "VMCS_GUEST_IDTR_LIMIT = 0x4812"
definition VMCS_GUEST_ES_ACCESS_RIGHTS :: u32 where [simp]: "VMCS_GUEST_ES_ACCESS_RIGHTS = 0x4814"
definition VMCS_GUEST_CS_ACCESS_RIGHTS :: u32 where [simp]: "VMCS_GUEST_CS_ACCESS_RIGHTS = 0x4816"
definition VMCS_GUEST_SS_ACCESS_RIGHTS :: u32 where [simp]: "VMCS_GUEST_SS_ACCESS_RIGHTS = 0x4818"
definition VMCS_GUEST_DS_ACCESS_RIGHTS :: u32 where [simp]: "VMCS_GUEST_DS_ACCESS_RIGHTS = 0x481A"
definition VMCS_GUEST_FS_ACCESS_RIGHTS :: u32 where [simp]: "VMCS_GUEST_FS_ACCESS_RIGHTS = 0x481C"
definition VMCS_GUEST_GS_ACCESS_RIGHTS :: u32 where [simp]: "VMCS_GUEST_GS_ACCESS_RIGHTS = 0x481E"
definition VMCS_GUEST_LDTR_ACCESS_RIGHTS :: u32 where [simp]: "VMCS_GUEST_LDTR_ACCESS_RIGHTS = 0x4820"
definition VMCS_GUEST_TR_ACCESS_RIGHTS :: u32 where [simp]: "VMCS_GUEST_TR_ACCESS_RIGHTS = 0x4822"
definition VMCS_GUEST_INTERRUPTIBILITY_STATE :: u32 where [simp]: "VMCS_GUEST_INTERRUPTIBILITY_STATE = 0x4824"
definition VMCS_GUEST_ACTIVITY_STATE :: u32 where [simp]: "VMCS_GUEST_ACTIVITY_STATE = 0x4826"
definition VMCS_GUEST_SMBASE :: u32 where [simp]: "VMCS_GUEST_SMBASE = 0x4828"
definition VMCS_GUEST_IA32_SYSENTER_CS :: u32 where [simp]: "VMCS_GUEST_IA32_SYSENTER_CS = 0x482A"

text \<open>32-Bit Host-State Field.\<close>

definition VMCS_HOST_IA32_SYSENTER_CS :: u32 where [simp]: "VMCS_HOST_IA32_SYSENTER_CS = 0x4C00"

text \<open>Natural-Width Control Fields.\<close>

definition VMCS_CR0_GUESTHOST_MASK :: u32 where [simp]: "VMCS_CR0_GUESTHOST_MASK = 0x6000"
definition VMCS_CR4_GUESTHOST_MASK :: u32 where [simp]: "VMCS_CR4_GUESTHOST_MASK = 0x6002"
definition VMCS_CR0_READ_SHADOW :: u32 where [simp]: "VMCS_CR0_READ_SHADOW = 0x6004"
definition VMCS_CR4_READ_SHADOW :: u32 where [simp]: "VMCS_CR4_READ_SHADOW = 0x6006"
definition VMCS_CR3_TARGET_VALUE_0 :: u32 where [simp]: "VMCS_CR3_TARGET_VALUE_0 = 0x6008"
definition VMCS_CR3_TARGET_VALUE_1 :: u32 where [simp]: "VMCS_CR3_TARGET_VALUE_1 = 0x600A"
definition VMCS_CR3_TARGET_VALUE_2 :: u32 where [simp]: "VMCS_CR3_TARGET_VALUE_2 = 0x600C"
definition VMCS_CR3_TARGET_VALUE_3 :: u32 where [simp]: "VMCS_CR3_TARGET_VALUE_3 = 0x600E"

text \<open>Natural-Width Read-Only Data Fields.\<close>

definition VMCS_EXIT_QUALIFICATION :: u32 where [simp]: "VMCS_EXIT_QUALIFICATION = 0x6400"
definition VMCS_IO_RCX :: u32 where [simp]: "VMCS_IO_RCX = 0x6402"
definition VMCS_IO_RSI :: u32 where [simp]: "VMCS_IO_RSI = 0x6404"
definition VMCS_IO_RDI :: u32 where [simp]: "VMCS_IO_RDI = 0x6406"
definition VMCS_IO_RIP :: u32 where [simp]: "VMCS_IO_RIP = 0x6408"
definition VMCS_GUEST_LINEAR_ADDR :: u32 where [simp]: "VMCS_GUEST_LINEAR_ADDR = 0x640A"

text \<open>Natural-Width Guest-State Fields.\<close>

definition VMCS_GUEST_CR0 :: u32 where [simp]: "VMCS_GUEST_CR0 = 0x6800"
definition VMCS_GUEST_CR3 :: u32 where [simp]: "VMCS_GUEST_CR3 = 0x6802"
definition VMCS_GUEST_CR4 :: u32 where [simp]: "VMCS_GUEST_CR4 = 0x6804"
definition VMCS_GUEST_ES_BASE :: u32 where [simp]: "VMCS_GUEST_ES_BASE = 0x6806"
definition VMCS_GUEST_CS_BASE :: u32 where [simp]: "VMCS_GUEST_CS_BASE = 0x6808"
definition VMCS_GUEST_SS_BASE :: u32 where [simp]: "VMCS_GUEST_SS_BASE = 0x680A"
definition VMCS_GUEST_DS_BASE :: u32 where [simp]: "VMCS_GUEST_DS_BASE = 0x680C"
definition VMCS_GUEST_FS_BASE :: u32 where [simp]: "VMCS_GUEST_FS_BASE = 0x680E"
definition VMCS_GUEST_GS_BASE :: u32 where [simp]: "VMCS_GUEST_GS_BASE = 0x6810"
definition VMCS_GUEST_LDTR_BASE :: u32 where [simp]: "VMCS_GUEST_LDTR_BASE = 0x6812"
definition VMCS_GUEST_TR_BASE :: u32 where [simp]: "VMCS_GUEST_TR_BASE = 0x6814"
definition VMCS_GUEST_GDTR_BASE :: u32 where [simp]: "VMCS_GUEST_GDTR_BASE = 0x6816"
definition VMCS_GUEST_IDTR_BASE :: u32 where [simp]: "VMCS_GUEST_IDTR_BASE = 0x6818"
definition VMCS_GUEST_DR7 :: u32 where [simp]: "VMCS_GUEST_DR7 = 0x681A"
definition VMCS_GUEST_RSP :: u32 where [simp]: "VMCS_GUEST_RSP = 0x681C"
definition VMCS_GUEST_RIP :: u32 where [simp]: "VMCS_GUEST_RIP = 0x681E"
definition VMCS_GUEST_RFLAGS :: u32 where [simp]: "VMCS_GUEST_RFLAGS = 0x6820"
definition VMCS_GUEST_PENDING_DEBUG_EXCEPTIONS :: u32 where [simp]: "VMCS_GUEST_PENDING_DEBUG_EXCEPTIONS = 0x6822"
definition VMCS_GUEST_IA32_SYSENTER_ESP :: u32 where [simp]: "VMCS_GUEST_IA32_SYSENTER_ESP = 0x6824"
definition VMCS_GUEST_IA32_SYSENTER_EIP :: u32 where [simp]: "VMCS_GUEST_IA32_SYSENTER_EIP = 0x6826"

text \<open>Natural-Width Host-State Fields.\<close>

definition VMCS_HOST_CR0 :: u32 where [simp]: "VMCS_HOST_CR0 = 0x6C00"
definition VMCS_HOST_CR3 :: u32 where [simp]: "VMCS_HOST_CR3 = 0x6C02"
definition VMCS_HOST_CR4 :: u32 where [simp]: "VMCS_HOST_CR4 = 0x6C04"
definition VMCS_HOST_FS_BASE :: u32 where [simp]: "VMCS_HOST_FS_BASE = 0x6C06"
definition VMCS_HOST_GS_BASE :: u32 where [simp]: "VMCS_HOST_GS_BASE = 0x6C08"
definition VMCS_HOST_TR_BASE :: u32 where [simp]: "VMCS_HOST_TR_BASE = 0x6C0A"
definition VMCS_HOST_GDTR_BASE :: u32 where [simp]: "VMCS_HOST_GDTR_BASE = 0x6C0C"
definition VMCS_HOST_IDTR_BASE :: u32 where [simp]: "VMCS_HOST_IDTR_BASE = 0x6C0E"
definition VMCS_HOST_IA32_SYSENTER_ESP :: u32 where [simp]: "VMCS_HOST_IA32_SYSENTER_ESP = 0x6C10"
definition VMCS_HOST_IA32_SYSENTER_EIP :: u32 where [simp]: "VMCS_HOST_IA32_SYSENTER_EIP = 0x6C12"
definition VMCS_HOST_RSP :: u32 where [simp]: "VMCS_HOST_RSP = 0x6C14"
definition VMCS_HOST_RIP :: u32 where [simp]: "VMCS_HOST_RIP = 0x6C16"

section \<open>Other constants\<close>

definition CPUID_1 :: u32 where [simp]: "CPUID_1 = 0x1"
definition CPUID_1_ECX_VMX_BIT :: u32 where [simp]: "CPUID_1_ECX_VMX_BIT = 0x20"
definition MSR_IA32_FEATURE_CONTROL :: u32 where [simp]: "MSR_IA32_FEATURE_CONTROL = 0x3A"
definition MSR_IA32_FEATURE_CONTROL_LOCK_BIT :: u64 where [simp]: "MSR_IA32_FEATURE_CONTROL_LOCK_BIT = 0x1"
definition MSR_IA32_FEATURE_CONTROL_VMXON_BIT :: u64 where [simp]: "MSR_IA32_FEATURE_CONTROL_VMXON_BIT = 0x4"
definition MSR_IA32_VMX_PINBASED_CTLS :: u32 where [simp]: "MSR_IA32_VMX_PINBASED_CTLS = 0x481"
definition MSR_IA32_VMX_PROCBASED_CTLS :: u32 where [simp]: "MSR_IA32_VMX_PROCBASED_CTLS = 0x482"
definition MSR_IA32_VMX_EXIT_CTLS :: u32 where [simp]: "MSR_IA32_VMX_EXIT_CTLS = 0x483"
definition MSR_IA32_VMX_ENTRY_CTLS :: u32 where [simp]: "MSR_IA32_VMX_ENTRY_CTLS = 0x484"
definition MSR_IA32_VMX_CR0_FIXED0 :: u32 where [simp]: "MSR_IA32_VMX_CR0_FIXED0 = 0x486"
definition MSR_IA32_VMX_CR0_FIXED1 :: u32 where [simp]: "MSR_IA32_VMX_CR0_FIXED1 = 0x487"
definition MSR_IA32_VMX_CR4_FIXED0 :: u32 where [simp]: "MSR_IA32_VMX_CR4_FIXED0 = 0x488"
definition MSR_IA32_VMX_CR4_FIXED1 :: u32 where [simp]: "MSR_IA32_VMX_CR4_FIXED1 = 0x489"
definition MSR_IA32_VMX_PROCBASED_CTLS2 :: u32 where [simp]: "MSR_IA32_VMX_PROCBASED_CTLS2 = 0x48B"
definition VMCS_PROC_BASED_VMEXEC_CTL_CR3LOADEXIT_BIT :: u32 where [simp]: "VMCS_PROC_BASED_VMEXEC_CTL_CR3LOADEXIT_BIT = 0x8000"
definition VMCS_PROC_BASED_VMEXEC_CTL_CR3STOREXIT_BIT :: u32 where [simp]: "VMCS_PROC_BASED_VMEXEC_CTL_CR3STOREXIT_BIT = 0x10000"
definition VMCS_PROC_BASED_VMEXEC_CTL_ACTIVESECCTL_BIT :: u32 where [simp]: "VMCS_PROC_BASED_VMEXEC_CTL_ACTIVESECCTL_BIT = 0x80000000"
definition SECONDARY_EXEC_ENABLE_EPT :: u32 where [simp]: "SECONDARY_EXEC_ENABLE_EPT = 0x00000002"
definition SECONDARY_EXEC_UNRESTRICTED_GUEST :: u32 where [simp]: "SECONDARY_EXEC_UNRESTRICTED_GUEST = 0x00000080"
definition ACCESS_RIGHTS_MASK :: u32 where [simp]: "ACCESS_RIGHTS_MASK = 0xF0FF"
definition ACCESS_RIGHTS_UNUSABLE_BIT :: u32 where [simp]: "ACCESS_RIGHTS_UNUSABLE_BIT = 0x10000"
definition SEL_LDT_BIT :: u16 where [simp]: "SEL_LDT_BIT = 0x4"
definition SEL_MASK :: u16 where [simp]: "SEL_MASK = 0xFFF8"
definition EXIT_REASON_MASK :: u32 where [simp]: "EXIT_REASON_MASK = 0xFFFF"
definition EXIT_REASON_INIT_SIGNAL :: u32 where [simp]: "EXIT_REASON_INIT_SIGNAL = 0x3"
definition EXIT_REASON_CPUID :: u32 where [simp]: "EXIT_REASON_CPUID = 0xA"
definition EXIT_REASON_VMENTRY_FAILURE_BIT :: u32 where [simp]: "EXIT_REASON_VMENTRY_FAILURE_BIT = 0x80000000"
definition EXIT_REASON_EPT_VIOLATION :: u32 where [simp]: "EXIT_REASON_EPT_VIOLATION = 0x30"
definition EXIT_REASON_EPT_MISCONFIG :: u32 where [simp]: "EXIT_REASON_EPT_MISCONFIG = 0x31"
definition RFLAGS_ALWAYS1_BIT :: u32 where [simp]: "RFLAGS_ALWAYS1_BIT = 0x2"
definition CR0_NE_BIT :: u32 where [simp]: "CR0_NE_BIT = 0x20"
definition CR4_VMXE_BIT :: u32 where [simp]: "CR4_VMXE_BIT = 0x2000"
definition PAGESIZE :: u32 where [simp]: "PAGESIZE = 0x1000"
definition PAGESIZE_SHIFT :: nat where [simp]: "PAGESIZE_SHIFT = 12"

section \<open>The table of fields\<close>

text \<open>The fields by group, in the order of the header.\<close>

definition guest_w16_fields :: "u32 list" where
  "guest_w16_fields =
     [VMCS_GUEST_ES_SEL, VMCS_GUEST_CS_SEL, VMCS_GUEST_SS_SEL,
      VMCS_GUEST_DS_SEL, VMCS_GUEST_FS_SEL, VMCS_GUEST_GS_SEL,
      VMCS_GUEST_LDTR_SEL, VMCS_GUEST_TR_SEL]"

definition host_w16_fields :: "u32 list" where
  "host_w16_fields =
     [VMCS_HOST_ES_SEL, VMCS_HOST_CS_SEL, VMCS_HOST_SS_SEL,
      VMCS_HOST_DS_SEL, VMCS_HOST_FS_SEL, VMCS_HOST_GS_SEL,
      VMCS_HOST_TR_SEL]"

definition ctl_w64_fields :: "u32 list" where
  "ctl_w64_fields =
     [VMCS_ADDR_IOBMP_A, VMCS_ADDR_IOBMP_A_HIGH, VMCS_ADDR_IOBMP_B,
      VMCS_ADDR_IOBMP_B_HIGH, VMCS_ADDR_MSRBMP, VMCS_ADDR_MSRBMP_HIGH,
      VMCS_VMEXIT_MSRSTORE_ADDR, VMCS_VMEXIT_MSRSTORE_ADDR_HIGH, VMCS_VMEXIT_MSRLOAD_ADDR,
      VMCS_VMEXIT_MSRLOAD_ADDR_HIGH, VMCS_VMENTRY_MSRLOAD_ADDR, VMCS_VMENTRY_MSRLOAD_ADDR_HIGH,
      VMCS_EXEC_VMCS_POINTER, VMCS_EXEC_VMCS_POINTER_HIGH, VMCS_TSC_OFFSET,
      VMCS_TSC_OFFSET_HIGH, VMCS_VIRT_APIC_PAGE_ADDR, VMCS_VIRT_APIC_PAGE_ADDR_HIGH,
      VMCS_EPT_POINTER, VMCS_EPT_POINTER_HIGH]"

definition ro_w64_fields :: "u32 list" where
  "ro_w64_fields =
     [VMCS_GUEST_PHYSICAL_ADDR, VMCS_GUEST_PHYSICAL_ADDR_HIGH]"

definition guest_w64_fields :: "u32 list" where
  "guest_w64_fields =
     [VMCS_VMCS_LINK_POINTER, VMCS_VMCS_LINK_POINTER_HIGH, VMCS_GUEST_IA32_DEBUGCTL,
      VMCS_GUEST_IA32_DEBUGCTL_HIGH]"

definition ctl_w32_fields :: "u32 list" where
  "ctl_w32_fields =
     [VMCS_PIN_BASED_VMEXEC_CTL, VMCS_PROC_BASED_VMEXEC_CTL, VMCS_EXCEPTION_BMP,
      VMCS_PAGEFAULT_ERRCODE_MASK, VMCS_PAGEFAULT_ERRCODE_MATCH, VMCS_CR3_TARGET_COUNT,
      VMCS_VMEXIT_CTL, VMCS_VMEXIT_MSR_STORE_COUNT, VMCS_VMEXIT_MSR_LOAD_COUNT,
      VMCS_VMENTRY_CTL, VMCS_VMENTRY_MSR_LOAD_COUNT, VMCS_VMENTRY_INTR_INFO_FIELD,
      VMCS_VMENTRY_EXCEPTION_ERRCODE, VMCS_VMENTRY_INSTRUCTION_LEN, VMCS_TPR_THRESHOLD,
      VMCS_SECONDARY_VM_EXEC_CONTROL]"

text \<open>The header lists these under the control fields too, but they are read-only data.\<close>

definition ro_w32_fields :: "u32 list" where
  "ro_w32_fields =
     [VMCS_VM_INSTRUCTION_ERR, VMCS_EXIT_REASON,
      VMCS_VMEXIT_INTR_INFO, VMCS_VMEXIT_INTR_ERRCODE, VMCS_IDT_VECTORING_INFO_FIELD,
      VMCS_IDT_VECTORING_ERRCODE, VMCS_VMEXIT_INSTRUCTION_LEN, VMCS_VMX_INSTRUCTION_INFO]"

definition guest_w32_fields :: "u32 list" where
  "guest_w32_fields =
     [VMCS_GUEST_ES_LIMIT, VMCS_GUEST_CS_LIMIT, VMCS_GUEST_SS_LIMIT,
      VMCS_GUEST_DS_LIMIT, VMCS_GUEST_FS_LIMIT, VMCS_GUEST_GS_LIMIT,
      VMCS_GUEST_LDTR_LIMIT, VMCS_GUEST_TR_LIMIT, VMCS_GUEST_GDTR_LIMIT,
      VMCS_GUEST_IDTR_LIMIT, VMCS_GUEST_ES_ACCESS_RIGHTS, VMCS_GUEST_CS_ACCESS_RIGHTS,
      VMCS_GUEST_SS_ACCESS_RIGHTS, VMCS_GUEST_DS_ACCESS_RIGHTS, VMCS_GUEST_FS_ACCESS_RIGHTS,
      VMCS_GUEST_GS_ACCESS_RIGHTS, VMCS_GUEST_LDTR_ACCESS_RIGHTS, VMCS_GUEST_TR_ACCESS_RIGHTS,
      VMCS_GUEST_INTERRUPTIBILITY_STATE, VMCS_GUEST_ACTIVITY_STATE, VMCS_GUEST_SMBASE,
      VMCS_GUEST_IA32_SYSENTER_CS]"

definition host_w32_fields :: "u32 list" where
  "host_w32_fields =
     [VMCS_HOST_IA32_SYSENTER_CS]"

definition ctl_nat_fields :: "u32 list" where
  "ctl_nat_fields =
     [VMCS_CR0_GUESTHOST_MASK, VMCS_CR4_GUESTHOST_MASK, VMCS_CR0_READ_SHADOW,
      VMCS_CR4_READ_SHADOW, VMCS_CR3_TARGET_VALUE_0, VMCS_CR3_TARGET_VALUE_1,
      VMCS_CR3_TARGET_VALUE_2, VMCS_CR3_TARGET_VALUE_3]"

definition ro_nat_fields :: "u32 list" where
  "ro_nat_fields =
     [VMCS_EXIT_QUALIFICATION, VMCS_IO_RCX, VMCS_IO_RSI,
      VMCS_IO_RDI, VMCS_IO_RIP, VMCS_GUEST_LINEAR_ADDR]"

definition guest_nat_fields :: "u32 list" where
  "guest_nat_fields =
     [VMCS_GUEST_CR0, VMCS_GUEST_CR3, VMCS_GUEST_CR4,
      VMCS_GUEST_ES_BASE, VMCS_GUEST_CS_BASE, VMCS_GUEST_SS_BASE,
      VMCS_GUEST_DS_BASE, VMCS_GUEST_FS_BASE, VMCS_GUEST_GS_BASE,
      VMCS_GUEST_LDTR_BASE, VMCS_GUEST_TR_BASE, VMCS_GUEST_GDTR_BASE,
      VMCS_GUEST_IDTR_BASE, VMCS_GUEST_DR7, VMCS_GUEST_RSP,
      VMCS_GUEST_RIP, VMCS_GUEST_RFLAGS, VMCS_GUEST_PENDING_DEBUG_EXCEPTIONS,
      VMCS_GUEST_IA32_SYSENTER_ESP, VMCS_GUEST_IA32_SYSENTER_EIP]"

definition host_nat_fields :: "u32 list" where
  "host_nat_fields =
     [VMCS_HOST_CR0, VMCS_HOST_CR3, VMCS_HOST_CR4,
      VMCS_HOST_FS_BASE, VMCS_HOST_GS_BASE, VMCS_HOST_TR_BASE,
      VMCS_HOST_GDTR_BASE, VMCS_HOST_IDTR_BASE, VMCS_HOST_IA32_SYSENTER_ESP,
      VMCS_HOST_IA32_SYSENTER_EIP, VMCS_HOST_RSP, VMCS_HOST_RIP]"

text \<open>
  The architecture puts the width of a field in bits 14:13 of its encoding (0 for 16 bits, 1
  for 64, 2 for 32, 3 for natural width) and its kind in bits 11:10 (0 for control, 1 for
  read-only data, 2 for guest state, 3 for host state).
\<close>

definition field_width :: "u32 \<Rightarrow> u32" where
  "field_width e = drop_bit 13 e AND 3"

definition field_kind :: "u32 \<Rightarrow> u32" where
  "field_kind e = drop_bit 10 e AND 3"

definition vmcs_fields :: "u32 list" where
  "vmcs_fields = guest_w16_fields @ host_w16_fields @ ctl_w64_fields @ ro_w64_fields @
     guest_w64_fields @ ctl_w32_fields @ ro_w32_fields @ guest_w32_fields @ host_w32_fields @ ctl_nat_fields @
     ro_nat_fields @ guest_nat_fields @ host_nat_fields"

lemmas field_group_defs =
  guest_w16_fields_def host_w16_fields_def ctl_w64_fields_def ro_w64_fields_def
  guest_w64_fields_def ctl_w32_fields_def ro_w32_fields_def guest_w32_fields_def host_w32_fields_def
  ctl_nat_fields_def ro_nat_fields_def guest_nat_fields_def host_nat_fields_def

definition of_group :: "u32 \<Rightarrow> u32 \<Rightarrow> u32 list \<Rightarrow> bool" where
  "of_group w k es \<longleftrightarrow> list_all (\<lambda>e. field_width e = w \<and> field_kind e = k) es"

lemma vmcs_fields_ascending: "sorted_wrt (<) vmcs_fields"
proof -
  have "successively (<) vmcs_fields"
    by (simp add: vmcs_fields_def field_group_defs)
  then show ?thesis by (simp add: successively_conv_sorted_wrt)
qed

section \<open>The state of the hypervisor\<close>

text \<open>
  \<open>vt_vmentry_regs\<close> is what the assembly entry code saves and restores; \<open>hv\<close> adds to the
  memory state the current VMCS, the model-specific registers, the EPT pointer under
  construction and \<^verbatim>\<open>cr4\<close>.
\<close>

record vt_vmentry_regs =
  rax :: u32
  rcx :: u32
  rdx :: u32
  rbx :: u32
  cr2 :: u32
  rbp :: u32
  rsi :: u32
  rdi :: u32

record hv = vm +
  vr :: vt_vmentry_regs
  vmcs :: "u32 \<Rightarrow> u32"
  msr :: "u32 \<Rightarrow> u64"
  cr4 :: u32
  g_ept_ctl :: u64

text \<open>A machine with nothing in it, for concrete runs.\<close>

definition blank_hv :: hv where
  "blank_hv =
     \<lparr>lh_first = None, pages = \<lambda>_. null_page, npages = 0, n_base_pages = 0, kern_pgdir = 0,
      pages_at = 0, mem = \<lambda>_. 0, nextfree = 0, cr0 = 0, cr3 = 0, tlb = [],
      vr = \<lparr>rax = 0, rcx = 0, rdx = 0, rbx = 0, cr2 = 0, rbp = 0, rsi = 0, rdi = 0\<rparr>,
      vmcs = \<lambda>_. 0, msr = \<lambda>_. 0, cr4 = 0, g_ept_ctl = 0\<rparr>"

definition asm_vmread :: "hv \<Rightarrow> u32 \<Rightarrow> u32" where
  "asm_vmread s index = vmcs s index"

definition asm_vmwrite :: "u32 \<Rightarrow> u32 \<Rightarrow> hv \<Rightarrow> hv" where
  "asm_vmwrite index val s = s\<lparr>vmcs := (vmcs s)(index := val)\<rparr>"

definition asm_rdmsr64 :: "u32 \<Rightarrow> hv \<Rightarrow> u64" where
  "asm_rdmsr64 num s = msr s num"

definition asm_rdmsr32 :: "u32 \<Rightarrow> hv \<Rightarrow> u32 \<times> u32" where
  "asm_rdmsr32 num s = (ucast (msr s num), ucast (drop_bit 32 (msr s num)))"

definition asm_rdmsr :: "u32 \<Rightarrow> hv \<Rightarrow> u32" where
  "asm_rdmsr num s = fst (asm_rdmsr32 num s)"

definition asm_wrmsr32 :: "u32 \<Rightarrow> u32 \<Rightarrow> u32 \<Rightarrow> hv \<Rightarrow> hv" where
  "asm_wrmsr32 num a d s = s\<lparr>msr := (msr s)(num := ucast a OR push_bit 32 (ucast d))\<rparr>"

definition asm_wrmsr64 :: "u32 \<Rightarrow> u64 \<Rightarrow> hv \<Rightarrow> hv" where
  "asm_wrmsr64 num val s = asm_wrmsr32 num (ucast val) (ucast (drop_bit 32 val)) s"

interpretation vmcs: cells asm_vmread asm_vmwrite UNIV
  by unfold_locales (simp add: asm_vmread_def asm_vmwrite_def)

lemma wrmsr64_put:
  "asm_wrmsr64 num val s = s\<lparr>msr := (msr s)(num := val)\<rparr>"
proof -
  have "ucast (ucast val :: u32) OR push_bit 32 (ucast (ucast (drop_bit 32 val) :: u32)) = (val :: u64)"
    by (rule bit_word_eqI) (auto simp: bit_simps)
  then show ?thesis by (simp add: asm_wrmsr64_def asm_wrmsr32_def)
qed

interpretation msr: cells "\<lambda>s num. asm_rdmsr64 num s" asm_wrmsr64 UNIV
  by unfold_locales (simp add: asm_rdmsr64_def wrmsr64_put)

lemma asm_vmread_eq: "asm_vmread = vmcs"
  by (simp add: fun_eq_iff asm_vmread_def)

text \<open>Writing the VMCS touches nothing else.\<close>

lemma write_vmcs:
  "write_all asm_vmwrite kvs s = s\<lparr>vmcs := asm_vmread (write_all asm_vmwrite kvs s)\<rparr>"
proof (induction kvs rule: rev_induct)
  case (snoc x kvs)
  obtain k v where x: "x = (k, v)" by (cases x)
  define r where "r = write_all asm_vmwrite kvs s"
  have "r\<lparr>vmcs := f\<rparr> = s\<lparr>vmcs := f\<rparr>" for f
    using arg_cong [OF snoc.IH, of "\<lambda>u. u\<lparr>vmcs := f\<rparr>"] by (simp add: r_def)
  then have "asm_vmwrite k v r = s\<lparr>vmcs := asm_vmread (asm_vmwrite k v r)\<rparr>"
    by (simp add: asm_vmwrite_def asm_vmread_eq)
  then show ?case by (simp add: x r_def)
qed (simp add: asm_vmread_def)

section \<open>Properties\<close>

text \<open>The encodings of the header are pairwise different, and the width and kind bits of each agree with
  the group it is in here.\<close>

lemma vmcs_fields_ok:
  "distinct vmcs_fields \<and> length vmcs_fields = 134 \<and>
   of_group 0 2 guest_w16_fields \<and> of_group 0 3 host_w16_fields \<and>
   of_group 1 0 ctl_w64_fields \<and> of_group 1 1 ro_w64_fields \<and> of_group 1 2 guest_w64_fields \<and>
   of_group 2 0 ctl_w32_fields \<and> of_group 2 1 ro_w32_fields \<and>
   of_group 2 2 guest_w32_fields \<and> of_group 2 3 host_w32_fields \<and>
   of_group 3 0 ctl_nat_fields \<and> of_group 3 1 ro_nat_fields \<and>
   of_group 3 2 guest_nat_fields \<and> of_group 3 3 host_nat_fields"
proof -
  have "distinct vmcs_fields" using vmcs_fields_ascending strict_sorted_iff by blast
  moreover have "length vmcs_fields = 134" by (simp add: vmcs_fields_def field_group_defs)
  ultimately show ?thesis
    unfolding of_group_def field_width_def field_kind_def
    by (intro conjI) (simp_all only: field_group_defs, simp_all)
qed

end
