(* ===== verification/Vt_Regs.thy ===== *)
theory Vt_Regs
  imports Vmcs
begin

text \<open>
  \<^verbatim>\<open>hvm/vt_regs.c\<close>: the guest's general registers, and the host registers that are copied
  into the VMCS. What the processor answers to \<^verbatim>\<open>lsl\<close>, \<^verbatim>\<open>lar\<close> and the register reads is
  the record \<open>host_cpu\<close>, an argument of the definitions.
\<close>

section \<open>Segment descriptors\<close>

record segdesc =
  limit_15_0 :: u32
  base_15_0 :: u32
  base_23_16 :: u32
  seg_type :: u32
  seg_s :: u32
  seg_dpl :: u32
  seg_p :: u32
  limit_19_16 :: u32
  seg_avl :: u32
  seg_l :: u32
  seg_d_b :: u32
  seg_g :: u32
  base_31_24 :: u32

text \<open>The bits \<open>i\<close> to \<open>i + n - 1\<close> of a word, and the packed descriptor in two words.\<close>

definition bits :: "nat \<Rightarrow> nat \<Rightarrow> u32 \<Rightarrow> u32" where
  "bits i n w = drop_bit i w AND mask n"

definition segdesc_of :: "u32 \<Rightarrow> u32 \<Rightarrow> segdesc" where
  "segdesc_of lo hi =
     \<lparr>limit_15_0 = bits 0 16 lo, base_15_0 = bits 16 16 lo, base_23_16 = bits 0 8 hi,
      seg_type = bits 8 4 hi, seg_s = bits 12 1 hi, seg_dpl = bits 13 2 hi, seg_p = bits 15 1 hi,
      limit_19_16 = bits 16 4 hi, seg_avl = bits 20 1 hi, seg_l = bits 21 1 hi,
      seg_d_b = bits 22 1 hi, seg_g = bits 23 1 hi, base_31_24 = bits 24 8 hi\<rparr>"

definition segdesc_at :: "u32 \<Rightarrow> 'a vm_scheme \<Rightarrow> segdesc" where
  "segdesc_at a s = segdesc_of (mem s a) (mem s (a + 4))"

definition SEGDESC_BASE :: "segdesc \<Rightarrow> u32" where
  "SEGDESC_BASE d = push_bit 24 (base_31_24 d) OR push_bit 16 (base_23_16 d) OR base_15_0 d"

definition get_seg_base :: "u32 \<Rightarrow> u16 \<Rightarrow> u16 \<Rightarrow> 'a vm_scheme \<Rightarrow> u32" where
  "get_seg_base gdtbase ldtr sel s =
     (if sel = 0 then 0
      else if sel AND SEL_LDT_BIT \<noteq> 0 then
        let p = segdesc_at (gdtbase + ucast (ldtr AND SEL_MASK)) s in
        if seg_p p = 0 then 0
        else
          let ldtbase = SEGDESC_BASE p;
              p = segdesc_at (ldtbase + ucast (sel AND SEL_MASK)) s in
          if seg_p p = 0 then 0 else SEGDESC_BASE p
      else
        let p = segdesc_at (gdtbase + ucast (sel AND SEL_MASK)) s in
        if seg_p p = 0 then 0 else SEGDESC_BASE p)"

definition get_seg_access_rights :: "(u32 \<Rightarrow> u32) \<Rightarrow> u16 \<Rightarrow> u32" where
  "get_seg_access_rights asm_lar sel =
     (if sel \<noteq> 0 then
        let tmp = asm_lar (ucast sel) in drop_bit 8 tmp AND ACCESS_RIGHTS_MASK
      else ACCESS_RIGHTS_UNUSABLE_BIT)"

section \<open>The host registers\<close>

record regs_in_vmcs_sreg =
  sel :: u16
  limit :: u32
  acr :: u32
  base :: u32

record regs_in_vmcs_desc =
  desc_base :: u32
  desc_limit :: u32

record regs_in_vmcs =
  riv_es :: regs_in_vmcs_sreg
  riv_cs :: regs_in_vmcs_sreg
  riv_ss :: regs_in_vmcs_sreg
  riv_ds :: regs_in_vmcs_sreg
  riv_fs :: regs_in_vmcs_sreg
  riv_gs :: regs_in_vmcs_sreg
  riv_ldtr :: regs_in_vmcs_sreg
  riv_tr :: regs_in_vmcs_sreg
  riv_gdtr :: regs_in_vmcs_desc
  riv_idtr :: regs_in_vmcs_desc
  riv_cr0 :: u32
  riv_cr3 :: u32
  riv_cr4 :: u32
  riv_dr7 :: u32
  riv_rflags :: u32

text \<open>What the processor returns: selectors, control registers, \<^verbatim>\<open>sgdt\<close>, \<^verbatim>\<open>sidt\<close>, \<^verbatim>\<open>lsl\<close>, \<^verbatim>\<open>lar\<close>.\<close>

record host_cpu =
  rd_es :: u16
  rd_cs :: u16
  rd_ss :: u16
  rd_ds :: u16
  rd_fs :: u16
  rd_gs :: u16
  rd_ldtr :: u16
  rd_tr :: u16
  rd_gdtr :: "u32 \<times> u32"
  rd_idtr :: "u32 \<times> u32"
  rd_dr7 :: u32
  rd_rflags :: u32
  do_lsl :: "u32 \<Rightarrow> u32"
  do_lar :: "u32 \<Rightarrow> u32"

definition host_sreg :: "host_cpu \<Rightarrow> u16 \<Rightarrow> 'a vm_scheme \<Rightarrow> regs_in_vmcs_sreg" where
  "host_sreg c x s =
     \<lparr>sel = x, limit = do_lsl c (ucast x), acr = get_seg_access_rights (do_lar c) x,
      base = get_seg_base (fst (rd_gdtr c)) (rd_ldtr c) x s\<rparr>"

definition vt_get_current_regs_host :: "host_cpu \<Rightarrow> hv \<Rightarrow> regs_in_vmcs" where
  "vt_get_current_regs_host c s =
     \<lparr>riv_es = host_sreg c (rd_es c) s, riv_cs = host_sreg c (rd_cs c) s,
      riv_ss = host_sreg c (rd_ss c) s, riv_ds = host_sreg c (rd_ds c) s,
      riv_fs = host_sreg c (rd_fs c) s, riv_gs = host_sreg c (rd_gs c) s,
      riv_ldtr = host_sreg c (rd_ldtr c) s, riv_tr = host_sreg c (rd_tr c) s,
      riv_gdtr = \<lparr>desc_base = fst (rd_gdtr c), desc_limit = snd (rd_gdtr c)\<rparr>,
      riv_idtr = \<lparr>desc_base = fst (rd_idtr c), desc_limit = snd (rd_idtr c)\<rparr>,
      riv_cr0 = cr0 s, riv_cr3 = cr3 s, riv_cr4 = cr4 s,
      riv_dr7 = rd_dr7 c, riv_rflags = rd_rflags c\<rparr>"

section \<open>The guest registers\<close>

datatype general_reg =
  GENERAL_REG_RAX | GENERAL_REG_RCX | GENERAL_REG_RDX | GENERAL_REG_RBX | GENERAL_REG_RSP |
  GENERAL_REG_RBP | GENERAL_REG_RSI | GENERAL_REG_RDI | GENERAL_REG_R8 | GENERAL_REG_R9 |
  GENERAL_REG_R10 | GENERAL_REG_R11 | GENERAL_REG_R12 | GENERAL_REG_R13 | GENERAL_REG_R14 |
  GENERAL_REG_R15

fun vt_read_general_reg :: "general_reg \<Rightarrow> hv \<Rightarrow> u32 res" where
  "vt_read_general_reg GENERAL_REG_RAX s = Inr (rax (vr s))"
| "vt_read_general_reg GENERAL_REG_RCX s = Inr (rcx (vr s))"
| "vt_read_general_reg GENERAL_REG_RDX s = Inr (rdx (vr s))"
| "vt_read_general_reg GENERAL_REG_RBX s = Inr (rbx (vr s))"
| "vt_read_general_reg GENERAL_REG_RSP s = Inr (asm_vmread s VMCS_GUEST_RSP)"
| "vt_read_general_reg GENERAL_REG_RBP s = Inr (rbp (vr s))"
| "vt_read_general_reg GENERAL_REG_RSI s = Inr (rsi (vr s))"
| "vt_read_general_reg GENERAL_REG_RDI s = Inr (rdi (vr s))"
| "vt_read_general_reg _ s = Inl (Panic ''Fatal error: unknown register.'')"

fun vt_write_general_reg :: "general_reg \<Rightarrow> u32 \<Rightarrow> hv \<Rightarrow> hv res" where
  "vt_write_general_reg GENERAL_REG_RAX val s = Inr (s\<lparr>vr := (vr s)\<lparr>rax := val\<rparr>\<rparr>)"
| "vt_write_general_reg GENERAL_REG_RCX val s = Inr (s\<lparr>vr := (vr s)\<lparr>rcx := val\<rparr>\<rparr>)"
| "vt_write_general_reg GENERAL_REG_RDX val s = Inr (s\<lparr>vr := (vr s)\<lparr>rdx := val\<rparr>\<rparr>)"
| "vt_write_general_reg GENERAL_REG_RBX val s = Inr (s\<lparr>vr := (vr s)\<lparr>rbx := val\<rparr>\<rparr>)"
| "vt_write_general_reg GENERAL_REG_RSP val s = Inr (asm_vmwrite VMCS_GUEST_RSP val s)"
| "vt_write_general_reg GENERAL_REG_RBP val s = Inr (s\<lparr>vr := (vr s)\<lparr>rbp := val\<rparr>\<rparr>)"
| "vt_write_general_reg GENERAL_REG_RSI val s = Inr (s\<lparr>vr := (vr s)\<lparr>rsi := val\<rparr>\<rparr>)"
| "vt_write_general_reg GENERAL_REG_RDI val s = Inr (s\<lparr>vr := (vr s)\<lparr>rdi := val\<rparr>\<rparr>)"
| "vt_write_general_reg _ val s = Inl (Panic ''Fatal error: unknown register.'')"

text \<open>The registers a 32-bit guest has; reads and writes of the others panic.\<close>

definition known_regs :: "general_reg set" where
  "known_regs = {GENERAL_REG_RAX, GENERAL_REG_RCX, GENERAL_REG_RDX, GENERAL_REG_RBX,
     GENERAL_REG_RSP, GENERAL_REG_RBP, GENERAL_REG_RSI, GENERAL_REG_RDI}"

definition get_reg :: "hv \<Rightarrow> general_reg \<Rightarrow> u32" where
  "get_reg s r = (case vt_read_general_reg r s of Inl _ \<Rightarrow> 0 | Inr v \<Rightarrow> v)"

definition put_reg :: "general_reg \<Rightarrow> u32 \<Rightarrow> hv \<Rightarrow> hv" where
  "put_reg r v s = (case vt_write_general_reg r v s of Inl _ \<Rightarrow> s | Inr s' \<Rightarrow> s')"

lemma known_reg_ok:
  assumes "r \<in> known_regs"
  shows "vt_read_general_reg r s = Inr (get_reg s r)"
    and "vt_write_general_reg r v s = Inr (put_reg r v s)"
  using assms by (cases r; simp add: known_regs_def get_reg_def put_reg_def)+

interpretation guest_regs: cells get_reg put_reg known_regs
proof
  fix k k' :: general_reg and v :: u32 and s :: hv
  assume "k \<in> known_regs" "k' \<in> known_regs"
  then show "get_reg (put_reg k v s) k' = (if k' = k then v else get_reg s k')"
    by (auto simp: known_regs_def get_reg_def put_reg_def asm_vmread_def asm_vmwrite_def)
qed

section \<open>Properties\<close>

text \<open>A register written with \<^verbatim>\<open>vt_write_general_reg\<close> is read back by
  \<^verbatim>\<open>vt_read_general_reg\<close>, every other register keeps its value (the stack pointer, which
  lives in the VMCS, included), and the eight registers of a 64-bit guest make both panic.\<close>

lemma general_reg_read_write:
  "case vt_write_general_reg r v s of
     Inl e \<Rightarrow> r \<notin> known_regs \<and> e = Panic ''Fatal error: unknown register.'' \<and>
       vt_read_general_reg r s = Inl e
   | Inr s' \<Rightarrow> r \<in> known_regs \<and>
       (\<forall>r'. vt_read_general_reg r' s' = (if r' = r then Inr v else vt_read_general_reg r' s))"
proof (cases "r \<in> known_regs")
  case True
  have "vt_read_general_reg r' (put_reg r v s) = (if r' = r then Inr v else vt_read_general_reg r' s)" for r'
  proof (cases "r' \<in> known_regs")
    case True
    with \<open>r \<in> known_regs\<close> show ?thesis by (simp add: known_reg_ok guest_regs.get_put)
  next
    case False
    with \<open>r \<in> known_regs\<close> show ?thesis by (cases r') (auto simp: known_regs_def)
  qed
  then show ?thesis using True by (simp add: known_reg_ok)
next
  case False
  then show ?thesis by (cases r) (simp_all add: known_regs_def)
qed

lemma segdesc_base_bits:
  "bit (SEGDESC_BASE (segdesc_of lo hi)) k \<longleftrightarrow>
     k < 32 \<and> (if k < 16 then bit lo (16 + k) else if k < 24 then bit hi (k - 16) else bit hi k)"
  by (auto simp: SEGDESC_BASE_def segdesc_of_def bits_def bit_simps)

end
