(* ===== verification/Pmap_Page.thy ===== *)
theory Pmap_Page
  imports Pmap_Mem
begin

text \<open>
  The physical page allocator and the page table operations of \<^verbatim>\<open>kern/pmap.c\<close>:
  \<^verbatim>\<open>page_alloc\<close>, \<^verbatim>\<open>page_free\<close>, \<^verbatim>\<open>page_decref\<close>, \<^verbatim>\<open>pgdir_walk\<close>, \<^verbatim>\<open>page_lookup\<close>,
  \<^verbatim>\<open>page_remove\<close>, \<^verbatim>\<open>page_insert\<close>. A pointer result is a 32-bit address with 0 for
  null. A negative return code is \<open>Inl\<close> of the error.
\<close>

section \<open>Operations\<close>

definition page_clear :: "ppn \<Rightarrow> 'a vm_scheme \<Rightarrow> 'a vm_scheme" where
  "page_clear pp s = s\<lparr>pages := (pages s)(pp := null_page)\<rparr>"

definition page_alloc :: "'a vm_scheme \<Rightarrow> ((jos_error + ppn) \<times> 'a vm_scheme) res" where
  "page_alloc s =
     (if LIST_EMPTY s then Inr (Inl E_NO_MEM, s)
      else case LIST_FIRST s of
             None \<Rightarrow> Inl (Fault ''null struct Page'')
           | Some pp \<Rightarrow>
               if pp < npages s then
                 res_bind (LIST_REMOVE pp s) (\<lambda>s1. Inr (Inr pp, page_clear pp s1))
               else Inl (Fault ''struct Page out of pages[]''))"

definition page_free :: "ppn \<Rightarrow> 'a vm_scheme \<Rightarrow> 'a vm_scheme res" where
  "page_free pp s =
     (if pp < npages s then Inr (LIST_INSERT_HEAD pp s)
      else Inl (Fault ''struct Page out of pages[]''))"

definition page_decref :: "ppn \<Rightarrow> 'a vm_scheme \<Rightarrow> 'a vm_scheme res" where
  "page_decref pp s =
     res_bind (set_ref pp (pp_ref (pages s pp) - 1) s)
       (\<lambda>s1. if pp_ref (pages s1 pp) = 0 then page_free pp s1 else Inr s1)"

definition tlb_invalidate :: "u32 \<Rightarrow> u32 \<Rightarrow> 'a vm_scheme \<Rightarrow> 'a vm_scheme" where
  "tlb_invalidate pgdir va s = s\<lparr>tlb := va # tlb s\<rparr>"

definition pgdir_walk :: "u32 \<Rightarrow> u32 \<Rightarrow> u32 \<Rightarrow> 'a vm_scheme \<Rightarrow> (u32 \<times> 'a vm_scheme) res" where
  "pgdir_walk pgdir va create s =
     (let pdep = pgdir + 4 * PDX va;
          entry = (\<lambda>s. res_bind (KADDR (PTE_ADDR (mem s pdep)) s)
                         (\<lambda>pte. Inr (pte + 4 * PTX va, s)))
      in if mem s pdep = 0 then
           if create = 0 then Inr (0, s)
           else res_bind (page_alloc s) (\<lambda>(r, s1).
             case r of
               Inl e \<Rightarrow> Inr (0, s1)
             | Inr pp \<Rightarrow>
                 res_bind
                   (set_ref pp 1 (store pdep (page2pa pp OR PTE_U OR PTE_W OR PTE_P) s1))
                   (\<lambda>s2. res_bind (KADDR (page2pa pp) s2)
                     (\<lambda>pte. entry (mem_zero pte PGSIZE s2))))
         else entry s)"

text \<open>
  \<open>want\<close> says whether the caller passed a non-null \<^verbatim>\<open>pte_store\<close>; the second result is what
  is stored through it.
\<close>

definition page_lookup ::
    "u32 \<Rightarrow> u32 \<Rightarrow> bool \<Rightarrow> 'a vm_scheme \<Rightarrow> (ppn option \<times> u32 option \<times> 'a vm_scheme) res" where
  "page_lookup pgdir va want s =
     res_bind (pgdir_walk pgdir va 0 s) (\<lambda>(pte, s1).
       if pte = 0 then Inr (None, None, s1)
       else Inr (Some (PGNUM (PTE_ADDR (mem s1 pte))), if want then Some pte else None, s1))"

definition page_remove :: "u32 \<Rightarrow> u32 \<Rightarrow> 'a vm_scheme \<Rightarrow> 'a vm_scheme res" where
  "page_remove pgdir va s =
     res_bind (page_lookup pgdir va True s) (\<lambda>(pp, pte_store, s1).
       case pp of
         None \<Rightarrow> Inr s1
       | Some p \<Rightarrow>
           res_bind (page_decref p s1) (\<lambda>s2.
             case pte_store of
               None \<Rightarrow> Inl (Fault ''null pte_store'')
             | Some pte \<Rightarrow> Inr (tlb_invalidate pgdir va (store pte 0 s2))))"

definition page_insert ::
    "u32 \<Rightarrow> ppn \<Rightarrow> u32 \<Rightarrow> u32 \<Rightarrow> 'a vm_scheme \<Rightarrow> ((jos_error + unit) \<times> 'a vm_scheme) res" where
  "page_insert pgdir pp va perm s =
     res_bind (pgdir_walk pgdir va (perm OR PTE_P) s) (\<lambda>(pte, s1).
       if pte = 0 then Inr (Inl E_NO_MEM, s1)
       else
         res_bind (set_ref pp (pp_ref (pages s1 pp) + 1) s1) (\<lambda>s2.
         res_bind (if (mem s2 pte \<noteq> 0 \<and> PTE_P \<noteq> 0) \<noteq> False then page_remove pgdir va s2 else Inr s2)
           (\<lambda>s3. Inr (Inr (), store pte (page2pa pp OR PTE_P OR perm) s3))))"

text \<open>What \<^verbatim>\<open>check_va2pa\<close> of the same file computes: the page a virtual address maps to.\<close>

definition check_va2pa :: "u32 \<Rightarrow> u32 \<Rightarrow> 'a vm_scheme \<Rightarrow> u32 res" where
  "check_va2pa pgdir va s =
     (let pde = mem s (pgdir + 4 * PDX va)
      in if pde AND PTE_P = 0 then Inr (NOT 0)
         else res_bind (KADDR (PTE_ADDR pde) s) (\<lambda>p.
           let pte = mem s (p + 4 * PTX va)
           in if pte AND PTE_P = 0 then Inr (NOT 0) else Inr (PTE_ADDR pte)))"

section \<open>The directory, its tables and the reference counts\<close>

text \<open>The user part of a directory is the entries below \<^verbatim>\<open>PDX(UTOP)\<close>.\<close>

definition UPDX :: nat where "UPDX = 955"

lemma UPDX_UTOP: "UPDX = pdi UTOP"
  by (simp add: UPDX_def unat_PDX)

definition pde :: "'a vm_scheme \<Rightarrow> nat \<Rightarrow> nat \<Rightarrow> u32" where
  "pde s pn i = mem s (cell pn i)"

definition pte :: "'a vm_scheme \<Rightarrow> nat \<Rightarrow> nat \<Rightarrow> nat \<Rightarrow> u32" where
  "pte s pn i j = mem s (cell (fr (pde s pn i)) j)"

definition user_maps :: "'a vm_scheme \<Rightarrow> nat \<Rightarrow> nat \<Rightarrow> (nat \<times> nat) set" where
  "user_maps s pn p =
     {(i, j). i < UPDX \<and> j < 1024 \<and> pde s pn i \<noteq> 0 \<and> pte s pn i j \<noteq> 0 \<and> fr (pte s pn i j) = p}"

definition user_tables :: "'a vm_scheme \<Rightarrow> nat \<Rightarrow> nat \<Rightarrow> nat set" where
  "user_tables s pn p = {i. i < UPDX \<and> pde s pn i \<noteq> 0 \<and> fr (pde s pn i) = p}"

text \<open>The references to a physical page from the user part of the directory.\<close>

definition refs :: "'a vm_scheme \<Rightarrow> nat \<Rightarrow> nat \<Rightarrow> nat" where
  "refs s pn p = card (user_maps s pn p) + card (user_tables s pn p)"

text \<open>The frames the kernel part uses: the directory and the tables at and above \<^verbatim>\<open>UTOP\<close>.\<close>

definition kernel_frames :: "'a vm_scheme \<Rightarrow> nat \<Rightarrow> nat set" where
  "kernel_frames s pn =
     insert pn {f. \<exists>i. UPDX \<le> i \<and> i < 1024 \<and> pde s pn i \<noteq> 0 \<and> f = fr (pde s pn i)}"

text \<open>
  \<open>pages_ok\<close>: the machine has at most 256MB, the free list is well formed, the user tables
  are distinct pages outside the kernel's frames, and no user entry maps a kernel frame.
\<close>

definition present :: "u32 \<Rightarrow> bool" where
  "present w \<longleftrightarrow> w AND PTE_P \<noteq> 0"

definition tables_ok :: "'a vm_scheme \<Rightarrow> nat \<Rightarrow> bool" where
  "tables_ok s pn \<longleftrightarrow>
     unat (npages s) \<le> 65536 \<and> (\<forall>f \<in> kernel_frames s pn. f < unat (npages s)) \<and>
     (\<forall>i < UPDX. pde s pn i \<noteq> 0 \<longrightarrow>
        present (pde s pn i) \<and>
        fr (pde s pn i) < unat (npages s) \<and> fr (pde s pn i) \<notin> kernel_frames s pn) \<and>
     (\<forall>i < UPDX. \<forall>k < UPDX. pde s pn i \<noteq> 0 \<longrightarrow> pde s pn k \<noteq> 0 \<longrightarrow>
        fr (pde s pn i) = fr (pde s pn k) \<longrightarrow> i = k) \<and>
     (\<forall>i < UPDX. \<forall>j < 1024. pde s pn i \<noteq> 0 \<longrightarrow> pte s pn i j \<noteq> 0 \<longrightarrow>
        present (pte s pn i j) \<and>
        fr (pte s pn i j) < unat (npages s) \<and> fr (pte s pn i j) \<notin> kernel_frames s pn)"

definition list_ok :: "'a vm_scheme \<Rightarrow> nat \<Rightarrow> ppn list \<Rightarrow> bool" where
  "list_ok s pn xs \<longleftrightarrow>
     free_list s xs \<and> (\<forall>x \<in> set xs. x < npages s \<and> unat x \<notin> kernel_frames s pn)"

definition pages_ok :: "'a vm_scheme \<Rightarrow> nat \<Rightarrow> ppn list \<Rightarrow> bool" where
  "pages_ok s pn xs \<longleftrightarrow> tables_ok s pn \<and> list_ok s pn xs"

text \<open>
  \<open>counts_ok\<close>: every \<^verbatim>\<open>pp_ref\<close> is exactly the number of references, but for one reference
  that is counted and not yet (or no longer) in a table; free pages have none.
\<close>

definition counts_ok :: "'a vm_scheme \<Rightarrow> nat \<Rightarrow> ppn list \<Rightarrow> ppn option \<Rightarrow> bool" where
  "counts_ok s pn xs held \<longleftrightarrow>
     (\<forall>p < npages s. unat (pp_ref (pages s p)) =
        refs s pn (unat p) + (if held = Some p then 1 else 0)) \<and>
     (\<forall>x \<in> set xs. refs s pn (unat x) = 0 \<and> held \<noteq> Some x)"

definition pmap_inv :: "'a vm_scheme \<Rightarrow> nat \<Rightarrow> ppn list \<Rightarrow> ppn option \<Rightarrow> bool" where
  "pmap_inv s pn xs held \<longleftrightarrow> pages_ok s pn xs \<and> counts_ok s pn xs held"

lemma finite_user_maps [simp]: "finite (user_maps s pn p)"
  by (rule finite_subset [of _ "{..<UPDX} \<times> {..<1024}"]) (auto simp: user_maps_def)

lemma finite_user_tables [simp]: "finite (user_tables s pn p)"
  by (rule finite_subset [of _ "{..<UPDX}"]) (auto simp: user_tables_def)

lemma refs_0_iff: "refs s pn p = 0 \<longleftrightarrow> user_maps s pn p = {} \<and> user_tables s pn p = {}"
  by (simp add: refs_def)

lemma UPDX_lt [simp]: "i < UPDX \<Longrightarrow> i < 1024"
  by (simp add: UPDX_def)

lemma pn_in_kernel [simp]: "pn \<in> kernel_frames s pn"
  by (simp add: kernel_frames_def)

lemma table_in_kernel:
  "UPDX \<le> i \<Longrightarrow> i < 1024 \<Longrightarrow> pde s pn i \<noteq> 0 \<Longrightarrow> fr (pde s pn i) \<in> kernel_frames s pn"
  by (auto simp: kernel_frames_def)

lemma pages_okD:
  assumes "pages_ok s pn xs"
  shows "unat (npages s) \<le> 65536" "pn < unat (npages s)" "pn < 65536" "free_list s xs"
    and "x \<in> set xs \<Longrightarrow> x < npages s" "x \<in> set xs \<Longrightarrow> unat x \<notin> kernel_frames s pn"
    and "i < UPDX \<Longrightarrow> pde s pn i \<noteq> 0 \<Longrightarrow> fr (pde s pn i) < unat (npages s)"
    and "i < UPDX \<Longrightarrow> pde s pn i \<noteq> 0 \<Longrightarrow> fr (pde s pn i) < 65536"
    and "i < UPDX \<Longrightarrow> pde s pn i \<noteq> 0 \<Longrightarrow> fr (pde s pn i) \<notin> kernel_frames s pn"
    and "i < UPDX \<Longrightarrow> k < UPDX \<Longrightarrow> pde s pn i \<noteq> 0 \<Longrightarrow> pde s pn k \<noteq> 0 \<Longrightarrow>
           fr (pde s pn i) = fr (pde s pn k) \<Longrightarrow> i = k"
    and "i < UPDX \<Longrightarrow> j < 1024 \<Longrightarrow> pde s pn i \<noteq> 0 \<Longrightarrow> pte s pn i j \<noteq> 0 \<Longrightarrow>
           fr (pte s pn i j) < unat (npages s)"
    and "i < UPDX \<Longrightarrow> j < 1024 \<Longrightarrow> pde s pn i \<noteq> 0 \<Longrightarrow> pte s pn i j \<noteq> 0 \<Longrightarrow>
           fr (pte s pn i j) \<notin> kernel_frames s pn"
    and "f \<in> kernel_frames s pn \<Longrightarrow> f < unat (npages s)"
    and "f \<in> kernel_frames s pn \<Longrightarrow> f < 65536"
    and "i < UPDX \<Longrightarrow> pde s pn i \<noteq> 0 \<Longrightarrow> present (pde s pn i)"
    and "i < UPDX \<Longrightarrow> j < 1024 \<Longrightarrow> pde s pn i \<noteq> 0 \<Longrightarrow> pte s pn i j \<noteq> 0 \<Longrightarrow>
           present (pte s pn i j)"
proof -
  note ok = assms [unfolded pages_ok_def tables_ok_def list_ok_def]
  show 1: "unat (npages s) \<le> 65536" "free_list s xs" "pn < unat (npages s)"
    using ok by (simp_all del: pn_in_kernel) (blast intro: pn_in_kernel)
  show "f \<in> kernel_frames s pn \<Longrightarrow> f < unat (npages s)" using ok by blast
  with 1 show "f \<in> kernel_frames s pn \<Longrightarrow> f < 65536" by linarith
  from 1 show "pn < 65536" by linarith
  show "x \<in> set xs \<Longrightarrow> x < npages s" "x \<in> set xs \<Longrightarrow> unat x \<notin> kernel_frames s pn"
    using ok by blast+
  show 2: "i < UPDX \<Longrightarrow> pde s pn i \<noteq> 0 \<Longrightarrow> fr (pde s pn i) < unat (npages s)"
    and "i < UPDX \<Longrightarrow> pde s pn i \<noteq> 0 \<Longrightarrow> fr (pde s pn i) \<notin> kernel_frames s pn"
    using ok by blast+
  show "i < UPDX \<Longrightarrow> pde s pn i \<noteq> 0 \<Longrightarrow> fr (pde s pn i) < 65536"
    using 1 2 by linarith
  show "i < UPDX \<Longrightarrow> k < UPDX \<Longrightarrow> pde s pn i \<noteq> 0 \<Longrightarrow> pde s pn k \<noteq> 0 \<Longrightarrow>
      fr (pde s pn i) = fr (pde s pn k) \<Longrightarrow> i = k"
    using ok by blast
  show "i < UPDX \<Longrightarrow> j < 1024 \<Longrightarrow> pde s pn i \<noteq> 0 \<Longrightarrow> pte s pn i j \<noteq> 0 \<Longrightarrow>
      fr (pte s pn i j) < unat (npages s)"
    and "i < UPDX \<Longrightarrow> j < 1024 \<Longrightarrow> pde s pn i \<noteq> 0 \<Longrightarrow> pte s pn i j \<noteq> 0 \<Longrightarrow>
      fr (pte s pn i j) \<notin> kernel_frames s pn"
    and "i < UPDX \<Longrightarrow> j < 1024 \<Longrightarrow> pde s pn i \<noteq> 0 \<Longrightarrow> pte s pn i j \<noteq> 0 \<Longrightarrow>
      present (pte s pn i j)"
    and "i < UPDX \<Longrightarrow> pde s pn i \<noteq> 0 \<Longrightarrow> present (pde s pn i)"
    using ok by blast+
qed

lemma table_ne_pn: "pages_ok s pn xs \<Longrightarrow> i < UPDX \<Longrightarrow> pde s pn i \<noteq> 0 \<Longrightarrow> fr (pde s pn i) \<noteq> pn"
  using pages_okD(9) [of s pn xs i] by (metis pn_in_kernel)

text \<open>States that agree on memory agree on everything above but the counts and the list.\<close>

lemma mem_cong:
  assumes "mem s' = mem s"
  shows "pde s' pn = pde s pn" "pte s' pn = pte s pn" "user_maps s' pn = user_maps s pn"
    "user_tables s' pn = user_tables s pn" "refs s' pn = refs s pn"
    "kernel_frames s' pn = kernel_frames s pn"
  using assms
  by (simp_all add: fun_eq_iff pde_def pte_def user_maps_def user_tables_def refs_def
      kernel_frames_def)

section \<open>Walking\<close>

lemma KADDR_frame:
  assumes "fr w < unat (npages s)" and "unat (npages s) \<le> 65536"
  shows "KADDR (PTE_ADDR w) s = Inr (kva (fr w))"
proof -
  have "\<not> npages s \<le> PGNUM (PTE_ADDR w)"
    using assms(1) by (simp add: word_le_nat_alt unat_PGNUM_fr)
  moreover have "PTE_ADDR w + KERNBASE = kva (fr w)"
    using assms by (intro kva_PTE_ADDR) simp
  ultimately show ?thesis by (simp add: KADDR_def)
qed

lemma pdep_cell: "pn < 65536 \<Longrightarrow> kva pn + 4 * PDX va = cell pn (pdi va)"
  by (rule cell_index) (simp_all add: unat_PDX_lt)

lemma ptep_cell: "f < 65536 \<Longrightarrow> kva f + 4 * PTX va = cell f (pti va)"
  by (rule cell_index) (simp_all add: unat_PTX_lt)

lemma pgdir_walk_present:
  assumes "pn < 65536" and "unat (npages s) \<le> 65536"
    and "pde s pn (pdi va) \<noteq> 0" and "fr (pde s pn (pdi va)) < unat (npages s)"
  shows "pgdir_walk (kva pn) va c s = Inr (cell (fr (pde s pn (pdi va))) (pti va), s)"
  using assms
  by (simp add: pgdir_walk_def pdep_cell KADDR_frame ptep_cell flip: pde_def)

lemma pgdir_walk_absent:
  assumes "pn < 65536" and "pde s pn (pdi va) = 0"
  shows "pgdir_walk (kva pn) va 0 s = Inr (0, s)"
  using assms by (simp add: pgdir_walk_def pdep_cell flip: pde_def)

lemma pgdir_walk_no_memory:
  assumes "pn < 65536" and "pde s pn (pdi va) = 0" and "free_list s []" and "c \<noteq> 0"
  shows "pgdir_walk (kva pn) va c s = Inr (0, s)"
  using assms
  by (simp add: pgdir_walk_def pdep_cell page_alloc_def LIST_EMPTY_iff flip: pde_def)

section \<open>Allocating\<close>

lemma more_eqD:
  fixes s s' :: "'a vm_scheme"
  assumes "page_heap.more s' = page_heap.more s"
  shows "mem s' = mem s" "npages s' = npages s" "tlb s' = tlb s" "kern_pgdir s' = kern_pgdir s"
    "nextfree s' = nextfree s"
  using assms by (cases s; cases s'; simp)+

lemma free_list_cong:
  assumes "lh_first s' = lh_first s"
    and "\<And>x. x \<in> set xs \<Longrightarrow> le_next (pages s' x) = le_next (pages s x) \<and>
           le_prev (pages s' x) = le_prev (pages s x)"
  shows "free_list s' xs = free_list s xs"
  using assms linked_cong [of xs "pages s'" "pages s"] by (simp add: free_list_def)

lemma page_clear_simps [simp]:
  "mem (page_clear p s) = mem s" "npages (page_clear p s) = npages s"
  "tlb (page_clear p s) = tlb s" "lh_first (page_clear p s) = lh_first s"
  "pages (page_clear p s) = (pages s)(p := null_page)"
  "kern_pgdir (page_clear p s) = kern_pgdir s" "nextfree (page_clear p s) = nextfree s"
  by (simp_all add: page_clear_def)

lemma page_alloc_Nil: "free_list s [] \<Longrightarrow> page_alloc s = Inr (Inl E_NO_MEM, s)"
  by (simp add: page_alloc_def LIST_EMPTY_iff)

text \<open>What an allocation leaves unchanged.\<close>

definition same_vm :: "'a vm_scheme \<Rightarrow> 'a vm_scheme \<Rightarrow> bool" where
  "same_vm s' s \<longleftrightarrow> mem s' = mem s \<and> npages s' = npages s \<and> tlb s' = tlb s \<and>
     kern_pgdir s' = kern_pgdir s \<and> nextfree s' = nextfree s"

lemma page_alloc_Cons:
  assumes "free_list s (x # xs)" and "x < npages s"
  obtains s' where "page_alloc s = Inr (Inr x, s')" and "free_list s' xs" and "same_vm s' s"
    and "pages s' x = null_page" and "\<And>p. p \<noteq> x \<Longrightarrow> pp_ref (pages s' p) = pp_ref (pages s p)"
proof -
  obtain s1 where rem: "LIST_REMOVE x s = Inr s1" and fl: "free_list s1 xs"
    using LIST_REMOVE_list [of s "[]" x xs] assms(1) by auto
  have "x \<notin> set xs" using free_list_distinct [OF assms(1)] by simp
  then have "free_list (page_clear x s1) xs"
    using fl by (subst free_list_cong [where s = s1]) auto
  moreover have "page_alloc s = Inr (Inr x, page_clear x s1)"
    using assms rem by (simp add: page_alloc_def LIST_EMPTY_iff LIST_FIRST_Cons)
  moreover have "same_vm (page_clear x s1) s"
    using more_eqD [OF LIST_REMOVE_more [OF rem]] by (simp add: same_vm_def)
  ultimately show ?thesis
    using that LIST_REMOVE_ref [OF rem] by simp
qed

lemma tables_ok_cong:
  assumes "mem s' = mem s" and "npages s' = npages s"
  shows "tables_ok s' pn = tables_ok s pn"
  by (simp add: tables_ok_def mem_cong [OF assms(1)] assms(2))

lemma list_ok_cong:
  assumes "mem s' = mem s" and "npages s' = npages s"
  shows "list_ok s' pn xs \<longleftrightarrow>
    free_list s' xs \<and> (\<forall>x \<in> set xs. x < npages s \<and> unat x \<notin> kernel_frames s pn)"
  by (simp add: list_ok_def mem_cong [OF assms(1)] assms(2))

lemma pages_ok_tl:
  assumes "pages_ok s pn (x # xs)" and "mem s' = mem s" and "npages s' = npages s"
    and "free_list s' xs"
  shows "pages_ok s' pn xs"
proof -
  have "list_ok s' pn xs"
    using assms(1,4) unfolding list_ok_cong [OF assms(2,3)] by (simp add: pages_ok_def list_ok_def)
  with assms(1) show ?thesis
    by (simp add: pages_ok_def tables_ok_cong [OF assms(2,3)])
qed

lemma page_alloc_inv:
  assumes "pmap_inv s pn (x # xs) held"
  obtains s' where "page_alloc s = Inr (Inr x, s')" and "pmap_inv s' pn xs held"
    and "same_vm s' s" and "\<And>p. pp_ref (pages s' p) = pp_ref (pages s p)"
proof -
  have ok: "pages_ok s pn (x # xs)" and cnt: "counts_ok s pn (x # xs) held"
    using assms by (simp_all add: pmap_inv_def)
  have x: "x < npages s" by (rule pages_okD(5) [OF ok]) simp
  obtain s' where s': "page_alloc s = Inr (Inr x, s')" "free_list s' xs" "same_vm s' s"
    "pages s' x = null_page" "\<And>p. p \<noteq> x \<Longrightarrow> pp_ref (pages s' p) = pp_ref (pages s p)"
    by (rule page_alloc_Cons [OF pages_okD(4) [OF ok] x]) blast
  have "unat (pp_ref (pages s x)) = 0"
    using cnt x by (auto simp: counts_ok_def)
  then have ref: "pp_ref (pages s' p) = pp_ref (pages s p)" for p
    using s'(4,5) by (cases "p = x") (simp_all add: null_page_def unat_eq_zero)
  have m: "mem s' = mem s" "npages s' = npages s" using s'(3) by (simp_all add: same_vm_def)
  have "pages_ok s' pn xs" by (rule pages_ok_tl [OF ok m s'(2)])
  moreover have "counts_ok s' pn xs held"
    using cnt by (simp add: counts_ok_def ref m mem_cong [OF m(1)])
  ultimately show ?thesis using that s'(1,3) ref by (simp add: pmap_inv_def)
qed

section \<open>Writing an entry\<close>

lemma set_pte:
  fixes s :: "'a vm_scheme" and w :: u32
  assumes ok: "pages_ok s pn xs" and i: "i < UPDX" "pde s pn i \<noteq> 0" and j: "j < 1024"
  defines "s' \<equiv> store (cell (fr (pde s pn i)) j) w s"
  shows set_pte_pde: "k < 1024 \<Longrightarrow> pde s' pn k = pde s pn k"
    and set_pte_pte: "i' < 1024 \<Longrightarrow> j' < 1024 \<Longrightarrow> pde s pn i' \<noteq> 0 \<Longrightarrow>
      pte s' pn i' j' = (if i' = i \<and> j' = j then w else pte s pn i' j')"
    and set_pte_kernel: "kernel_frames s' pn = kernel_frames s pn"
    and set_pte_tables: "user_tables s' pn = user_tables s pn"
    and set_pte_maps: "user_maps s' pn p = (if w \<noteq> 0 \<and> fr w = p then insert (i, j) (user_maps s pn p)
                                 else user_maps s pn p - {(i, j)})"
proof -
  have pn: "pn < 65536" by (rule pages_okD(3) [OF ok])
  have f: "fr (pde s pn i) < 65536" "fr (pde s pn i) \<noteq> pn"
    using pages_okD(8) [OF ok] table_ne_pn [OF ok] i by blast+
  show pde: "pde s' pn k = pde s pn k" if "k < 1024" for k
    using pn f j that by (simp add: s'_def pde_def cell_eq_iff)
  show pte: "pte s' pn i' j' = (if i' = i \<and> j' = j then w else pte s pn i' j')"
    if "i' < 1024" "j' < 1024" "pde s pn i' \<noteq> 0" for i' j'
  proof -
    have "fr (pde s pn i') < 65536 \<and> (fr (pde s pn i') = fr (pde s pn i) \<longleftrightarrow> i' = i)"
    proof (cases "i' < UPDX")
      case True
      then show ?thesis using pages_okD(8,10) [OF ok] that i by blast
    next
      case False
      then have "fr (pde s pn i') \<in> kernel_frames s pn" using that by (intro table_in_kernel) auto
      then show ?thesis using pages_okD(9,14) [OF ok] i False by metis
    qed
    then show ?thesis
      using pde [of i'] that f j by (auto simp: pte_def s'_def cell_eq_iff)
  qed
  show "kernel_frames s' pn = kernel_frames s pn"
    using pde by (auto simp: kernel_frames_def)
  show "user_tables s' pn = user_tables s pn"
    using pde by (auto simp: user_tables_def fun_eq_iff)
  show "user_maps s' pn p = (if w \<noteq> 0 \<and> fr w = p then insert (i, j) (user_maps s pn p)
      else user_maps s pn p - {(i, j)})"
    using pde pte i j by (auto simp: user_maps_def split: if_splits)
qed

lemma set_pte_pages_ok:
  assumes ok: "pages_ok s pn xs" and i: "i < UPDX" "pde s pn i \<noteq> 0" and j: "j < 1024"
    and w: "w \<noteq> 0 \<Longrightarrow> present w \<and> fr w < unat (npages s) \<and> fr w \<notin> kernel_frames s pn"
  shows "pages_ok (store (cell (fr (pde s pn i)) j) w s) pn xs"
proof -
  let ?s' = "store (cell (fr (pde s pn i)) j) w s"
  have list: "list_ok ?s' pn xs"
    using ok unfolding pages_ok_def list_ok_def set_pte_kernel [OF ok i j]
    by (simp add: free_list_def)
  have pde: "k < UPDX \<Longrightarrow> pde ?s' pn k = pde s pn k" for k
    using set_pte_pde [OF ok i j] by simp
  have "tables_ok ?s' pn"
    unfolding tables_ok_def set_pte_kernel [OF ok i j]
    using pde ok w set_pte_pte [OF ok i j] by (simp add: pages_ok_def tables_ok_def)
  with list show ?thesis by (simp add: pages_ok_def)
qed

lemma set_pte_refs:
  fixes s :: "'a vm_scheme" and w :: u32
  assumes ok: "pages_ok s pn xs" and i: "i < UPDX" "pde s pn i \<noteq> 0" and j: "j < 1024"
  defines "v \<equiv> pte s pn i j" and "s' \<equiv> store (cell (fr (pde s pn i)) j) w s"
  shows "refs s' pn p + (if v \<noteq> 0 \<and> fr v = p then 1 else 0) =
         refs s pn p + (if w \<noteq> 0 \<and> fr w = p then 1 else 0)"
proof -
  have mem: "(i, j) \<in> user_maps s pn p \<longleftrightarrow> v \<noteq> 0 \<and> fr v = p"
    using i j by (simp add: user_maps_def v_def)
  have "card (user_maps s' pn p) + (if v \<noteq> 0 \<and> fr v = p then 1 else 0) =
        card (user_maps s pn p) + (if w \<noteq> 0 \<and> fr w = p then 1 else 0)"
    unfolding s'_def set_pte_maps [OF ok i j] mem [symmetric]
    using card_Suc_Diff1 [of "user_maps s pn p" "(i, j)"]
    by (auto simp: insert_absorb card_insert_if)
  then show ?thesis
    by (simp add: refs_def s'_def set_pte_tables [OF ok i j])
qed

section \<open>Removing a mapping\<close>

lemma fr_PGNUM: "unat (PGNUM v) = fr v"
  by (rule unat_PGNUM_fr)

lemma PGNUM_lt: "fr v < unat (npages s) \<Longrightarrow> PGNUM v < npages s"
  by (simp add: word_less_nat_alt unat_PGNUM_fr)

lemma page_remove_present:
  assumes inv: "pmap_inv s pn xs held"
    and i: "pdi va < UPDX" "pde s pn (pdi va) \<noteq> 0"
    and v: "v = pte s pn (pdi va) (pti va)" "v \<noteq> 0"
  obtains s' where "page_remove (kva pn) va s = Inr s'"
    and "pmap_inv s' pn (if pp_ref (pages s (PGNUM v)) = 1 then PGNUM v # xs else xs) held"
    and "mem s' = (mem s)(cell (fr (pde s pn (pdi va))) (pti va) := 0)"
    and "npages s' = npages s" and "tlb s' = va # tlb s"
    and "\<And>q. pp_ref (pages s' q) = (if q = PGNUM v then pp_ref (pages s q) - 1 else pp_ref (pages s q))"
proof -
  let ?c = "cell (fr (pde s pn (pdi va))) (pti va)" and ?p = "PGNUM v"
  let ?t = "store ?c 0 s" and ?r = "pp_ref (pages s ?p)"
  have ok: "pages_ok s pn xs" and cnt: "counts_ok s pn xs held"
    using inv by (simp_all add: pmap_inv_def)
  note D = pages_okD [OF ok]
  have j: "pti va < 1024" by (rule unat_PTX_lt)
  have c: "?c \<noteq> 0" using D(8) [OF i] j by (rule cell_nonzero)
  have vp: "fr v < unat (npages s)" "fr v \<notin> kernel_frames s pn"
    using D(11,12) [OF i(1) j i(2)] v by simp_all
  then have p: "?p < npages s" by (intro PGNUM_lt)
  have refs_t: "refs ?t pn q + (if fr v = q then 1 else 0) = refs s pn q" for q
    using set_pte_refs [OF ok i j, of 0 q] v by simp
  have r: "unat ?r = refs s pn (fr v) + (if held = Some ?p then 1 else 0)"
    using cnt p by (auto simp: counts_ok_def unat_PGNUM_fr)
  have r1: "1 \<le> unat ?r" using refs_t [of "fr v"] r by simp
  then have "?r \<noteq> 0" by auto
  then have rm1: "unat (?r - 1) = unat ?r - 1" by (rule unat_minus_one)
  have nin: "?p \<notin> set xs" using cnt refs_t [of "fr v"] by (auto simp: counts_ok_def unat_PGNUM_fr)
  define s1 where "s1 = s\<lparr>pages := (pages s)(?p := (pages s ?p)\<lparr>pp_ref := ?r - 1\<rparr>)\<rparr>"
  define ys where "ys = (if ?r = 1 then ?p # xs else xs)"
  define s2 where "s2 = (if ?r = 1 then LIST_INSERT_HEAD ?p s1 else s1)"
  define s' where "s' = tlb_invalidate (kva pn) va (store ?c 0 s2)"
  have more: "page_heap.more s2 = page_heap.more s" by (simp add: s2_def s1_def)
  note m = more_eqD [OF more]
  have "free_list s1 xs" using D(4) by (subst free_list_cong [where s = s]) (auto simp: s1_def)
  then have fl: "free_list s' ys"
    using nin by (auto simp: s'_def ys_def s2_def tlb_invalidate_def store_def free_list_def
        dest: LIST_INSERT_HEAD_list [unfolded free_list_def])
  have run: "page_remove (kva pn) va s = Inr s'"
  proof -
    have "page_lookup (kva pn) va True s = Inr (Some ?p, Some ?c, s)"
      using pgdir_walk_present [OF D(3) D(1) i(2) D(7) [OF i]] c v
      by (simp add: page_lookup_def pte_def)
    moreover have "page_decref ?p s = Inr s2"
      using p by (auto simp: page_decref_def set_ref_def page_free_def s2_def s1_def)
    ultimately show ?thesis by (simp add: page_remove_def s'_def)
  qed
  have mem: "mem s' = mem ?t" and np: "npages s' = npages s" and tl: "tlb s' = va # tlb s"
    by (simp_all add: s'_def tlb_invalidate_def m)
  note eq = mem_cong [OF mem]
  have ref: "pp_ref (pages s' q) = (if q = ?p then pp_ref (pages s q) - 1 else pp_ref (pages s q))" for q
    by (simp add: s'_def tlb_invalidate_def s2_def s1_def)
  have okt: "pages_ok ?t pn xs" by (rule set_pte_pages_ok [OF ok i j]) simp
  have "list_ok s' pn ys"
    unfolding list_ok_def eq set_pte_kernel [OF ok i j]
    using D(5,6) fl p vp(2) by (auto simp: ys_def np unat_PGNUM_fr)
  then have "pages_ok s' pn ys"
    using okt mem np by (simp add: pages_ok_def tables_ok_cong [of s' ?t])
  moreover have "counts_ok s' pn ys held"
  proof -
    have "unat (pp_ref (pages s' q)) = refs s' pn (unat q) + (if held = Some q then 1 else 0)"
      if "q < npages s" for q
      using cnt that refs_t [of "unat q"] rm1 r1
      by (auto simp: counts_ok_def ref eq fr_PGNUM [symmetric] word_unat_eq_iff [symmetric])
    moreover have "refs s' pn (unat q) = 0 \<and> held \<noteq> Some q" if "q \<in> set ys" for q
    proof (cases "q \<in> set xs")
      case True
      then show ?thesis using cnt refs_t [of "unat q"] by (auto simp: counts_ok_def eq)
    next
      case False
      with that have q: "q = ?p" "unat ?r = 1" by (auto simp: ys_def split: if_splits)
      then show ?thesis using r refs_t [of "fr v"] by (auto simp: eq fr_PGNUM split: if_splits)
    qed
    ultimately show ?thesis by (simp add: counts_ok_def np)
  qed
  ultimately have "pmap_inv s' pn ys held" by (simp add: pmap_inv_def)
  then show ?thesis using that run mem np tl ref by (simp add: ys_def)
qed

section \<open>Creating a page table\<close>

lemma or_nonzero: "b \<noteq> 0 \<Longrightarrow> a OR b \<noteq> (0 :: 'a::len word)"
  by (simp add: or_eq_0_iff)

lemma present_or: "b AND PTE_P \<noteq> 0 \<Longrightarrow> present (a OR b)"
  by (simp add: present_def bit.conj_disj_distrib2 or_eq_0_iff)

lemma KADDR_page2pa:
  assumes "p < npages s" and "unat (npages s) \<le> 65536"
  shows "KADDR (page2pa p) s = Inr (kva (unat p))"
proof -
  have p: "unat p < unat (npages s)" "unat p < 65536" using assms by (auto simp: word_less_nat_alt)
  then show ?thesis
    by (simp add: KADDR_def word_le_nat_alt unat_PGNUM_fr fr_page2pa kva_page2pa [simplified])
qed

lemma pgdir_walk_create:
  fixes s :: "'a vm_scheme"
  assumes inv: "pmap_inv s pn (x # xs) held"
    and i: "pdi va < UPDX" "pde s pn (pdi va) = 0" and c: "c \<noteq> 0"
  obtains s' where "pgdir_walk (kva pn) va c s = Inr (cell (unat x) (pti va), s')"
    and "pmap_inv s' pn xs held"
    and "pde s' pn (pdi va) = page2pa x OR 7" and "fr (pde s' pn (pdi va)) = unat x"
    and "\<And>k. k < 1024 \<Longrightarrow> k \<noteq> pdi va \<Longrightarrow> pde s' pn k = pde s pn k"
    and "\<And>j. j < 1024 \<Longrightarrow> pte s' pn (pdi va) j = 0"
    and "\<And>k j. k < 1024 \<Longrightarrow> j < 1024 \<Longrightarrow> pde s pn k \<noteq> 0 \<Longrightarrow> fr (pde s pn k) \<noteq> pn \<Longrightarrow>
           pte s' pn k j = pte s pn k j"
    and "npages s' = npages s" and "tlb s' = tlb s"
    and "\<And>q. pp_ref (pages s' q) = (if q = x then 1 else pp_ref (pages s q))"
    and "kernel_frames s' pn = kernel_frames s pn"
proof -
  let ?i = "pdi va" and ?w = "page2pa x OR 7 :: u32"
  have ok: "pages_ok s pn (x # xs)" and cnt: "counts_ok s pn (x # xs) held"
    using inv by (simp_all add: pmap_inv_def)
  note D = pages_okD [OF ok]
  have x: "x < npages s" "unat x \<notin> kernel_frames s pn" using D(5,6) by simp_all
  have xn: "unat x < 65536" "unat x \<noteq> pn"
    using x D(1) pn_in_kernel [of pn s] by (auto simp: word_less_nat_alt)
  have x0: "user_maps s pn (unat x) = {}" "user_tables s pn (unat x) = {}"
    using cnt by (auto simp: counts_ok_def refs_0_iff)
  have i1024: "?i < 1024" by (rule unat_PDX_lt)
  have w: "?w \<noteq> 0" "fr ?w = unat x" "present ?w"
    using xn by (simp_all add: or_nonzero fr_or_perm present_or)
  obtain s1 where s1: "page_alloc s = Inr (Inr x, s1)" "pmap_inv s1 pn xs held" "same_vm s1 s"
    "\<And>p. pp_ref (pages s1 p) = pp_ref (pages s p)"
    by (rule page_alloc_inv [OF inv]) blast
  have m1: "mem s1 = mem s" "npages s1 = npages s" "tlb s1 = tlb s"
    using s1(3) by (simp_all add: same_vm_def)
  define s2 where "s2 = (store (cell pn ?i) ?w s1)
    \<lparr>pages := (pages s1)(x := (pages s1 x)\<lparr>pp_ref := 1\<rparr>)\<rparr>"
  define s' where "s' = mem_zero (kva (unat x)) PGSIZE s2"
  have mem: "mem s' (cell m j) =
      (if m = unat x then 0 else if m = pn \<and> j = ?i then ?w else mem s (cell m j))"
    if "m < 65536" "j < 1024" for m j
    using that xn D(3) i1024
    by (simp add: s'_def s2_def mem_zero_cell [simplified] cell_eq_iff m1)
  have np: "npages s' = npages s" and tl: "tlb s' = tlb s"
    by (simp_all add: s'_def s2_def m1)
  have ref: "pp_ref (pages s' q) = (if q = x then 1 else pp_ref (pages s q))" for q
    by (simp add: s'_def s2_def s1(4))
  have pde: "pde s' pn k = (if k = ?i then ?w else pde s pn k)" if "k < 1024" for k
    using that D(3) xn by (simp add: pde_def mem)
  have kf: "kernel_frames s' pn = kernel_frames s pn"
    using pde i(1) by (auto simp: kernel_frames_def)
  have fk: "fr (pde s pn k) < 65536 \<and> fr (pde s pn k) \<noteq> unat x"
    if "k < 1024" "pde s pn k \<noteq> 0" for k
  proof (cases "k < UPDX")
    case True
    then show ?thesis using D(8) that x0(2) by (auto simp: user_tables_def)
  next
    case False
    then have "fr (pde s pn k) \<in> kernel_frames s pn" using that by (intro table_in_kernel) auto
    then show ?thesis using D(14) x(2) by metis
  qed
  have pte_new: "pte s' pn ?i j = 0" if "j < 1024" for j
    using that xn w i1024 by (simp add: pte_def pde mem)
  have pte_old: "pte s' pn k j = pte s pn k j"
    if "k < 1024" "j < 1024" "pde s pn k \<noteq> 0" "fr (pde s pn k) \<noteq> pn" for k j
    using that fk [of k] i(2) by (auto simp: pte_def pde mem)
  have pte_user: "pte s' pn k j = pte s pn k j"
    if "k < UPDX" "j < 1024" "pde s pn k \<noteq> 0" for k j
    using that table_ne_pn [OF ok] by (intro pte_old) auto
  have maps: "user_maps s' pn p = user_maps s pn p" for p
    unfolding user_maps_def using pde pte_new pte_user i by (auto split: if_splits)
  have tables: "user_tables s' pn p = (if p = unat x then {?i} else user_tables s pn p)" for p
    unfolding user_tables_def using pde w i fk by (auto split: if_splits)
  have refs: "refs s' pn p = (if p = unat x then 1 else refs s pn p)" for p
    using x0(1) by (simp add: refs_def maps tables)
  have run: "pgdir_walk (kva pn) va c s = Inr (cell (unat x) (pti va), s')"
  proof -
    have "set_ref x 1 (store (cell pn ?i) ?w s1) = Inr s2"
      using x by (simp add: set_ref_def s2_def m1)
    moreover have "KADDR (page2pa x) s2 = Inr (kva (unat x))"
      using x D(1) by (intro KADDR_page2pa) (simp_all add: s2_def m1)
    moreover have "mem s' (cell pn ?i) = ?w" using mem [OF D(3) i1024] xn by simp
    moreover have "KADDR (PTE_ADDR ?w) s' = Inr (kva (unat x))"
      using x D(1) w by (subst KADDR_frame) (auto simp: np word_less_nat_alt)
    ultimately show ?thesis
      using i c s1(1) pdep_cell [OF D(3)] ptep_cell [OF xn(1)]
      by (simp add: pgdir_walk_def s'_def flip: pde_def)
  qed
  have "list_ok s' pn xs"
  proof -
    have "free_list s1 xs" using s1(2) by (simp add: pmap_inv_def pages_ok_def list_ok_def)
    then have "free_list s' xs"
      by (subst free_list_cong [where s = s1]) (auto simp: s'_def s2_def)
    then show ?thesis using D(5,6) by (simp add: list_ok_def kf np)
  qed
  moreover have "tables_ok s' pn"
    unfolding tables_ok_def kf np
  proof (intro conjI allI impI ballI)
    fix k k' assume k: "k < UPDX" "k' < UPDX" "pde s' pn k \<noteq> 0" "pde s' pn k' \<noteq> 0"
      "fr (pde s' pn k) = fr (pde s' pn k')"
    have e: "pde s' pn k = (if k = ?i then ?w else pde s pn k)"
      "pde s' pn k' = (if k' = ?i then ?w else pde s pn k')" using k(1,2) by (simp_all add: pde)
    have "fr (pde s pn l) \<noteq> unat x" if "l < UPDX" "pde s pn l \<noteq> 0" for l
      using fk [of l] that by simp
    note ne = this
    show "k = k'"
    proof (cases "k = ?i"; cases "k' = ?i")
      assume "k = ?i" "k' \<noteq> ?i"
      then show ?thesis using k e ne [of k'] w(2) by simp
    next
      assume "k \<noteq> ?i" "k' = ?i"
      then show ?thesis using k e ne [of k] w(2) by simp
    next
      assume "k \<noteq> ?i" "k' \<noteq> ?i"
      then show ?thesis using k e D(10) [of k k'] by simp
    qed simp
  next
    fix k j assume k: "k < UPDX" "j < 1024" "pde s' pn k \<noteq> 0" "pte s' pn k j \<noteq> 0"
    then have "k \<noteq> ?i" using pte_new by auto
    with k show "fr (pte s' pn k j) < unat (npages s)" "fr (pte s' pn k j) \<notin> kernel_frames s pn"
      "present (pte s' pn k j)"
      using D(11,12,16) [of k j] pde pte_user by auto
  next
    fix k assume k: "k < UPDX" "pde s' pn k \<noteq> 0"
    then show "fr (pde s' pn k) < unat (npages s)" "fr (pde s' pn k) \<notin> kernel_frames s pn"
      "present (pde s' pn k)"
      using D(7,9,15) [of k] pde w x by (auto simp: word_less_nat_alt split: if_splits)
  qed (use D(1,13) in auto)
  moreover have "counts_ok s' pn xs held"
  proof -
    have "x \<notin> set xs" using free_list_distinct [OF D(4)] by simp
    then show ?thesis
      using cnt x(1) unfolding counts_ok_def np by (auto simp: ref refs word_unat_eq_iff [symmetric])
  qed
  ultimately have "pmap_inv s' pn xs held" by (simp add: pmap_inv_def pages_ok_def)
  then show ?thesis
    using that [OF run _ _ _ _ pte_new pte_old np tl ref kf] pde w i1024 by simp
qed

end
