(* ===== verification/Pmap_Insert.thy ===== *)
theory Pmap_Insert
  imports Pmap_Page
begin

text \<open>
  The properties of \<^verbatim>\<open>page_insert\<close>, \<^verbatim>\<open>page_remove\<close> and \<^verbatim>\<open>page_lookup\<close>: what they map and
  unmap (in terms of \<^verbatim>\<open>check_va2pa\<close>), that they keep every other mapping, that every
  reference count stays exact, and what they do when there is no memory or no mapping.
\<close>

section \<open>Reading a mapping\<close>

lemma check_va2pa_absent:
  "pn < 65536 \<Longrightarrow> \<not> present (pde s pn (pdi va)) \<Longrightarrow> check_va2pa (kva pn) va s = Inr (NOT 0)"
  by (simp add: check_va2pa_def pdep_cell present_def flip: pde_def)

lemma check_va2pa_entry:
  assumes "pn < 65536" "unat (npages s) \<le> 65536" "present (pde s pn (pdi va))"
    and "fr (pde s pn (pdi va)) < unat (npages s)"
  shows "check_va2pa (kva pn) va s =
    Inr (if present (pte s pn (pdi va) (pti va)) then PTE_ADDR (pte s pn (pdi va) (pti va)) else NOT 0)"
proof -
  have "fr (pde s pn (pdi va)) < 65536" using assms(2,4) by linarith
  then show ?thesis
    using assms
    by (simp add: check_va2pa_def pdep_cell ptep_cell KADDR_frame present_def pte_def flip: pde_def)
qed

lemma not_present_0 [simp]: "\<not> present 0"
  by (simp add: present_def)

lemma check_va2pa_user:
  assumes ok: "pages_ok s pn xs" and va: "pdi va < UPDX"
  shows "check_va2pa (kva pn) va s =
    Inr (if pde s pn (pdi va) = 0 \<or> pte s pn (pdi va) (pti va) = 0 then NOT 0
         else PTE_ADDR (pte s pn (pdi va) (pti va)))"
proof (cases "pde s pn (pdi va) = 0")
  case True
  then show ?thesis using pages_okD(3) [OF ok] by (simp add: check_va2pa_absent)
next
  case False
  have "present (pte s pn (pdi va) (pti va)) \<longleftrightarrow> pte s pn (pdi va) (pti va) \<noteq> 0"
    using pages_okD(16) [OF ok va unat_PTX_lt False] by auto
  with False show ?thesis
    using check_va2pa_entry [of pn s va] pages_okD(1,3) [OF ok] pages_okD(7,15) [OF ok va] by simp
qed

text \<open>
  Two states in which the walk of a virtual address reads the same words give the same
  answer. \<open>outside\<close> are the addresses that are not looked up through the directory used
  as its own page table.
\<close>

definition outside :: "'a vm_scheme \<Rightarrow> nat \<Rightarrow> u32 \<Rightarrow> bool" where
  "outside s pn va \<longleftrightarrow> pdi va < UPDX \<or> fr (pde s pn (pdi va)) \<noteq> pn"

lemma check_va2pa_same:
  assumes ok: "pages_ok s pn xs" and np: "npages s' = npages s"
    and d: "pde s' pn (pdi va) = pde s pn (pdi va)"
    and e: "pde s pn (pdi va) \<noteq> 0 \<Longrightarrow> pte s' pn (pdi va) (pti va) = pte s pn (pdi va) (pti va)"
  shows "check_va2pa (kva pn) va s' = check_va2pa (kva pn) va s"
proof (cases "present (pde s pn (pdi va))")
  case False
  then show ?thesis using pages_okD(3) [OF ok] d by (simp add: check_va2pa_absent)
next
  case True
  then have nz: "pde s pn (pdi va) \<noteq> 0" by auto
  have "fr (pde s pn (pdi va)) < unat (npages s)"
  proof (cases "pdi va < UPDX")
    case True
    then show ?thesis using pages_okD(7) [OF ok] nz by blast
  next
    case False
    then show ?thesis
      using pages_okD(13) [OF ok table_in_kernel [of "pdi va" s pn]] nz unat_PDX_lt by auto
  qed
  then show ?thesis
    using True pages_okD(1,3) [OF ok] d e [OF nz] np
    by (simp add: check_va2pa_entry)
qed

section \<open>Removing\<close>

lemma PGNUM_neq_index:
  "PGNUM va' \<noteq> PGNUM va \<Longrightarrow> pdi va' \<noteq> pdi va \<or> pti va' \<noteq> pti va"
  using PDX_PTX_eq_iff [of va' va] by (auto simp: word_unat_eq_iff)

lemma cell_write_frame:
  assumes ok: "pages_ok s pn xs" and i: "pdi va < UPDX" "pde s pn (pdi va) \<noteq> 0"
    and mem: "mem s' = (mem s)(cell (fr (pde s pn (pdi va))) (pti va) := w)"
    and np: "npages s' = npages s" and va': "PGNUM va' \<noteq> PGNUM va"
  shows "check_va2pa (kva pn) va' s' = check_va2pa (kva pn) va' s"
proof (rule check_va2pa_same [OF ok np])
  let ?t = "store (cell (fr (pde s pn (pdi va))) (pti va)) w s"
  note S = set_pte_pde [OF ok i unat_PTX_lt] set_pte_pte [OF ok i unat_PTX_lt]
  have m: "mem s' = mem ?t" using mem by simp
  show "pde s' pn (pdi va') = pde s pn (pdi va')"
    unfolding mem_cong [OF m] using S(1) unat_PDX_lt by blast
  show "pte s' pn (pdi va') (pti va') = pte s pn (pdi va') (pti va')" if "pde s pn (pdi va') \<noteq> 0"
    unfolding mem_cong [OF m] using S(2) [OF unat_PDX_lt unat_PTX_lt that] PGNUM_neq_index [OF va']
    by auto
qed

lemma page_remove_maps:
  assumes inv: "pmap_inv s pn xs held" and va: "pdi va < UPDX"
    and old: "check_va2pa (kva pn) va s = Inr pa" "pa \<noteq> NOT 0"
  obtains s' where "page_remove (kva pn) va s = Inr s'"
    and "pmap_inv s' pn (if pp_ref (pages s (PGNUM pa)) = 1 then PGNUM pa # xs else xs) held"
    and "check_va2pa (kva pn) va s' = Inr (NOT 0)"
    and "\<And>va'. PGNUM va' \<noteq> PGNUM va \<Longrightarrow>
           check_va2pa (kva pn) va' s' = check_va2pa (kva pn) va' s"
    and "\<And>k. k < 1024 \<Longrightarrow> pde s' pn k = pde s pn k" and "npages s' = npages s"
    and "\<And>q. pp_ref (pages s' q) = (if q = PGNUM pa then pp_ref (pages s q) - 1 else pp_ref (pages s q))"
    and "tlb s' = va # tlb s"
proof -
  have ok: "pages_ok s pn xs" using inv by (simp add: pmap_inv_def)
  define v where "v = pte s pn (pdi va) (pti va)"
  have nz: "pde s pn (pdi va) \<noteq> 0" "v \<noteq> 0" and pa: "pa = PTE_ADDR v"
    using old unfolding check_va2pa_user [OF ok va] v_def by (auto split: if_splits)
  have pg: "PGNUM pa = PGNUM v" using pa by simp
  obtain s' where s': "page_remove (kva pn) va s = Inr s'"
    "pmap_inv s' pn (if pp_ref (pages s (PGNUM v)) = 1 then PGNUM v # xs else xs) held"
    "mem s' = (mem s)(cell (fr (pde s pn (pdi va))) (pti va) := 0)"
    "npages s' = npages s" "tlb s' = va # tlb s"
    "\<And>q. pp_ref (pages s' q) = (if q = PGNUM v then pp_ref (pages s q) - 1 else pp_ref (pages s q))"
    by (rule page_remove_present [OF inv va nz(1) v_def nz(2)]) blast
  have m: "mem s' = mem (store (cell (fr (pde s pn (pdi va))) (pti va)) 0 s)" using s'(3) by simp
  have ok': "pages_ok s' pn (if pp_ref (pages s (PGNUM v)) = 1 then PGNUM v # xs else xs)"
    using s'(2) by (simp add: pmap_inv_def)
  have "pte s' pn (pdi va) (pti va) = 0"
    unfolding mem_cong [OF m]
    using set_pte_pte [OF ok va nz(1) unat_PTX_lt unat_PDX_lt unat_PTX_lt nz(1)] by simp
  then have un: "check_va2pa (kva pn) va s' = Inr (NOT 0)"
    by (simp add: check_va2pa_user [OF ok' va])
  have fr: "check_va2pa (kva pn) va' s' = check_va2pa (kva pn) va' s" if "PGNUM va' \<noteq> PGNUM va" for va'
    by (rule cell_write_frame [OF ok va nz(1) s'(3,4) that])
  have pd: "pde s' pn k = pde s pn k" if "k < 1024" for k
    unfolding mem_cong [OF m] by (rule set_pte_pde [OF ok va nz(1) unat_PTX_lt that])
  show ?thesis
    using that [OF s'(1) _ un fr pd s'(4) _ s'(5)] s'(2,6) unfolding pg by blast
qed

section \<open>Inserting\<close>

lemma take_ref:
  assumes inv: "pmap_inv s pn xs None" and p: "p < npages s" "p \<notin> set xs"
    and r: "pp_ref (pages s p) \<noteq> 0xFFFF"
  obtains s' where "set_ref p (pp_ref (pages s p) + 1) s = Inr s'" and "pmap_inv s' pn xs (Some p)"
    and "mem s' = mem s" and "npages s' = npages s" and "tlb s' = tlb s"
    and "\<And>q. pp_ref (pages s' q) = (if q = p then pp_ref (pages s q) + 1 else pp_ref (pages s q))"
proof -
  define s' where "s' = s\<lparr>pages := (pages s)(p := (pages s p)\<lparr>pp_ref := pp_ref (pages s p) + 1\<rparr>)\<rparr>"
  have ok: "pages_ok s pn xs" and cnt: "counts_ok s pn xs None"
    using inv by (simp_all add: pmap_inv_def)
  have m: "mem s' = mem s" "npages s' = npages s" "tlb s' = tlb s" by (simp_all add: s'_def)
  have "free_list s' xs"
    using pages_okD(4) [OF ok] p(2) by (subst free_list_cong [where s = s]) (auto simp: s'_def)
  then have "pages_ok s' pn xs"
    using ok unfolding pages_ok_def tables_ok_cong [OF m(1,2)] list_ok_cong [OF m(1,2)]
    by (simp add: list_ok_def)
  moreover have u: "unat (pp_ref (pages s p) + 1) = Suc (unat (pp_ref (pages s p)))"
  proof -
    have "unat (pp_ref (pages s p)) \<noteq> 65535" using r by (simp add: word_unat_eq_iff)
    then have "unat (pp_ref (pages s p)) < 65535"
      using unat_lt_16 [of "pp_ref (pages s p)"] by linarith
    then show ?thesis by (subst unat_add_small) simp_all
  qed
  have "counts_ok s' pn xs (Some p)"
    using cnt p by (auto simp: counts_ok_def mem_cong [OF m(1)] m(2)) (auto simp: s'_def u)
  ultimately have "pmap_inv s' pn xs (Some p)" by (simp add: pmap_inv_def)
  then show ?thesis using that [of s'] p m by (simp add: set_ref_def s'_def)
qed

lemma fill_pte:
  assumes inv: "pmap_inv s pn xs (Some p)" and i: "i < UPDX" "pde s pn i \<noteq> 0" and j: "j < 1024"
    and v: "pte s pn i j = 0"
    and w: "w \<noteq> 0" "present w" "fr w = unat p" "p < npages s" "unat p \<notin> kernel_frames s pn"
  shows "pmap_inv (store (cell (fr (pde s pn i)) j) w s) pn xs None"
proof -
  let ?s' = "store (cell (fr (pde s pn i)) j) w s"
  have ok: "pages_ok s pn xs" and cnt: "counts_ok s pn xs (Some p)"
    using inv by (simp_all add: pmap_inv_def)
  have refs: "refs ?s' pn q = refs s pn q + (if unat p = q then 1 else 0)" for q
    using set_pte_refs [OF ok i j, of w q] v w by simp
  have "pages_ok ?s' pn xs"
    using w by (intro set_pte_pages_ok [OF ok i j]) (simp add: word_less_nat_alt)
  moreover have "counts_ok ?s' pn xs None"
    using cnt unfolding counts_ok_def by (auto simp: refs word_unat_eq_iff [symmetric])
  ultimately show ?thesis by (simp add: pmap_inv_def)
qed

text \<open>What the mapping at an address holds, as a page number.\<close>

definition mapped :: "'a vm_scheme \<Rightarrow> nat \<Rightarrow> u32 \<Rightarrow> ppn option" where
  "mapped s pn va =
     (if pde s pn (pdi va) = 0 \<or> pte s pn (pdi va) (pti va) = 0 then None
      else Some (PGNUM (pte s pn (pdi va) (pti va))))"

text \<open>The free list after a mapping to \<open>old\<close> is replaced by one to \<open>p\<close>.\<close>

definition released :: "'a vm_scheme \<Rightarrow> ppn \<Rightarrow> ppn option \<Rightarrow> ppn list \<Rightarrow> ppn list" where
  "released s p old xs =
     (case old of None \<Rightarrow> xs
      | Some q \<Rightarrow> if q \<noteq> p \<and> pp_ref (pages s q) = 1 then q # xs else xs)"

lemma page_insert_filled:
  fixes s :: "'a vm_scheme"
  assumes inv: "pmap_inv s pn xs None" and i: "pdi va < UPDX" "pde s pn (pdi va) \<noteq> 0"
    and p: "p < npages s" "p \<notin> set xs" "unat p \<notin> kernel_frames s pn"
    and r: "pp_ref (pages s p) \<noteq> 0xFFFF" and perm: "unat perm < 4096"
  obtains s' where "page_insert (kva pn) p va perm s = Inr (Inr (), s')"
    and "pmap_inv s' pn (released s p (mapped s pn va) xs) None"
    and "mem s' = (mem s)(cell (fr (pde s pn (pdi va))) (pti va) := page2pa p OR PTE_P OR perm)"
    and "npages s' = npages s"
    and "tlb s' = (if mapped s pn va = None then tlb s else va # tlb s)"
    and "\<And>q. pp_ref (pages s' q) = pp_ref (pages s q) + (if q = p then 1 else 0)
                - (if mapped s pn va = Some q then 1 else 0)"
proof -
  let ?c = "cell (fr (pde s pn (pdi va))) (pti va)" and ?w = "page2pa p OR PTE_P OR perm"
  define v where "v = pte s pn (pdi va) (pti va)"
  have ok: "pages_ok s pn xs" using inv by (simp add: pmap_inv_def)
  note D = pages_okD [OF ok]
  have pn: "unat p < 65536" using p(1) D(1) by (simp add: word_less_nat_alt)
  have c: "?c \<noteq> 0" using D(8) [OF i] unat_PTX_lt by (rule cell_nonzero)
  have "unat (PTE_P OR perm) < 4096" using perm unat_or_lt [of "1 :: u32" 12 perm] by simp
  then have w: "fr ?w = unat p" "present ?w" "?w \<noteq> 0"
    using pn fr_or_perm [of p "PTE_P OR perm"]
    by (simp_all add: or.assoc present_def bit.conj_disj_distrib2 or_eq_0_iff)
  have walk: "pgdir_walk (kva pn) va x s = Inr (?c, s)" for x
    by (rule pgdir_walk_present [OF D(3) D(1) i(2) D(7) [OF i]])
  obtain s2 where s2: "set_ref p (pp_ref (pages s p) + 1) s = Inr s2" "pmap_inv s2 pn xs (Some p)"
    "mem s2 = mem s" "npages s2 = npages s" "tlb s2 = tlb s"
    "\<And>q. pp_ref (pages s2 q) = (if q = p then pp_ref (pages s q) + 1 else pp_ref (pages s q))"
    by (rule take_ref [OF inv p(1,2) r]) blast
  note m2 = mem_cong [OF s2(3)]
  have i2: "pde s2 pn (pdi va) \<noteq> 0" and v2: "pte s2 pn (pdi va) (pti va) = v"
    using i(2) by (simp_all add: m2 v_def)
  have mc: "mem s2 ?c = v" by (simp add: s2(3) v_def pte_def)
  obtain s3 where s3: "(if (mem s2 ?c \<noteq> 0 \<and> PTE_P \<noteq> 0) \<noteq> False then page_remove (kva pn) va s2
      else Inr s2) = Inr s3"
    "pmap_inv s3 pn (released s p (mapped s pn va) xs) (Some p)"
    "mem s3 = (mem s)(?c := 0)" "npages s3 = npages s"
    "tlb s3 = (if mapped s pn va = None then tlb s else va # tlb s)"
    "\<And>q. pp_ref (pages s3 q) = pp_ref (pages s q) + (if q = p then 1 else 0)
       - (if mapped s pn va = Some q then 1 else 0)"
  proof (cases "v = 0")
    case True
    then have "mapped s pn va = None" by (simp add: mapped_def v_def)
    moreover have "(mem s)(?c := 0) = mem s" using True mc s2(3) by (simp add: fun_upd_idem_iff)
    ultimately show ?thesis
      using True s2 mc by (intro that [of s2]) (simp_all add: released_def)
  next
    case False
    then have mp: "mapped s pn va = Some (PGNUM v)" using i(2) by (simp add: mapped_def v_def)
    have rel: "(if pp_ref (pages s2 (PGNUM v)) = 1 then PGNUM v # xs else xs) =
        released s p (mapped s pn va) xs"
    proof (cases "PGNUM v = p")
      case True
      have "(pdi va, pti va) \<in> user_maps s pn (unat p)"
        using i False True unat_PTX_lt by (simp add: user_maps_def v_def fr_PGNUM [symmetric])
      then have "refs s pn (unat p) \<noteq> 0" by (auto simp: refs_0_iff)
      then have "pp_ref (pages s p) \<noteq> 0"
        using inv p(1) by (auto simp: pmap_inv_def counts_ok_def)
      then show ?thesis using True by (simp add: released_def mp s2(6))
    qed (simp add: released_def mp s2(6))
    obtain s3 where s3: "page_remove (kva pn) va s2 = Inr s3"
      "pmap_inv s3 pn (if pp_ref (pages s2 (PGNUM v)) = 1 then PGNUM v # xs else xs) (Some p)"
      "mem s3 = (mem s2)(cell (fr (pde s2 pn (pdi va))) (pti va) := 0)"
      "npages s3 = npages s2" "tlb s3 = va # tlb s2"
      "\<And>q. pp_ref (pages s3 q) =
         (if q = PGNUM v then pp_ref (pages s2 q) - 1 else pp_ref (pages s2 q))"
      by (rule page_remove_present [OF s2(2) i(1) i2 v2 [symmetric] False]) blast
    show ?thesis
    proof (rule that [of s3])
      show "pmap_inv s3 pn (released s p (mapped s pn va) xs) (Some p)"
        using s3(2) unfolding rel .
      show "pp_ref (pages s3 q) = pp_ref (pages s q) + (if q = p then 1 else 0)
          - (if mapped s pn va = Some q then 1 else 0)" for q
        by (auto simp: s3(6) s2(6) mp)
    qed (use s3 s2 m2 False mc mp in simp_all)
  qed
  define s' where "s' = store ?c ?w s3"
  have ok3: "pages_ok s3 pn (released s p (mapped s pn va) xs)" using s3(2) by (simp add: pmap_inv_def)
  have m3: "mem s3 = mem (store ?c 0 s)" using s3(3) by simp
  note S = mem_cong [OF m3]
  have e3: "pde s3 pn (pdi va) = pde s pn (pdi va)" "pte s3 pn (pdi va) (pti va) = 0"
    "kernel_frames s3 pn = kernel_frames s pn"
    unfolding S
    using set_pte_pde [OF ok i unat_PTX_lt unat_PDX_lt] set_pte_kernel [OF ok i unat_PTX_lt]
      set_pte_pte [OF ok i unat_PTX_lt unat_PDX_lt unat_PTX_lt i(2)] by simp_all
  have "pmap_inv s' pn (released s p (mapped s pn va) xs) None"
    using fill_pte [OF s3(2) i(1) _ unat_PTX_lt e3(2) w(3,2,1)] i(2) p(1,3)
    by (simp add: s'_def e3 s3(4))
  moreover have "page_insert (kva pn) p va perm s = Inr (Inr (), s')"
    using walk c s2(1) s3(1) by (simp add: page_insert_def s'_def)
  ultimately show ?thesis
    using that [of s'] s3 by (simp add: s'_def)
qed

lemma mapped_check:
  assumes "pages_ok s pn xs" and "pdi va < UPDX"
  shows "mapped s pn va = None \<longleftrightarrow> check_va2pa (kva pn) va s = Inr (NOT 0)"
    and "mapped s pn va = Some q \<Longrightarrow> check_va2pa (kva pn) va s = Inr (page2pa q)"
proof -
  let ?v = "pte s pn (pdi va) (pti va)"
  have A: "PTE_ADDR ?v = page2pa (PGNUM ?v)" if "fr ?v < 65536"
    using that by (simp add: word_unat_eq_iff unat_PTE_ADDR unat_page2pa fr_PGNUM) (simp add: fr_def)
  show "mapped s pn va = Some q \<Longrightarrow> check_va2pa (kva pn) va s = Inr (page2pa q)"
    using A pages_okD(1) [OF assms(1)] pages_okD(11) [OF assms(1), of "pdi va" "pti va"] assms(2) unat_PTX_lt [of va]
    unfolding check_va2pa_user [OF assms] by (auto simp: mapped_def split: if_splits)
  have "PTE_ADDR w \<noteq> NOT 0" for w
  proof
    assume "PTE_ADDR w = NOT 0"
    then have "bit (PTE_ADDR w) 0 \<longleftrightarrow> bit (NOT 0 :: u32) 0" by simp
    then show False by (simp add: PTE_ADDR_def low_masks bit_simps)
  qed
  then show "mapped s pn va = None \<longleftrightarrow> check_va2pa (kva pn) va s = Inr (NOT 0)"
    unfolding check_va2pa_user [OF assms] by (simp add: mapped_def)
qed

lemma PGNUM_eqI: "fr w = unat p \<Longrightarrow> PGNUM w = p"
  by (simp add: word_unat_eq_iff fr_PGNUM)

lemma mapped_counted:
  assumes inv: "pmap_inv s pn xs held" and i: "pdi va < UPDX" and m: "mapped s pn va = Some q"
  shows "q < npages s" and "pp_ref (pages s q) \<noteq> 0" and "pde s pn (pdi va) \<noteq> 0"
proof -
  have ok: "pages_ok s pn xs" using inv by (simp add: pmap_inv_def)
  have v: "pde s pn (pdi va) \<noteq> 0" "pte s pn (pdi va) (pti va) \<noteq> 0"
    "q = PGNUM (pte s pn (pdi va) (pti va))"
    using m by (auto simp: mapped_def split: if_splits)
  show q: "q < npages s"
    unfolding v(3) by (rule PGNUM_lt [OF pages_okD(11) [OF ok i unat_PTX_lt v(1,2)]])
  have "(pdi va, pti va) \<in> user_maps s pn (unat q)"
    using i v unat_PTX_lt by (simp add: user_maps_def fr_PGNUM)
  then have "refs s pn (unat q) \<noteq> 0" by (auto simp: refs_0_iff)
  then show "pp_ref (pages s q) \<noteq> 0"
    using inv q by (auto simp: pmap_inv_def counts_ok_def)
qed (use m in \<open>simp add: mapped_def split: if_splits\<close>)

lemma unat_ref_step:
  assumes "b \<Longrightarrow> r \<noteq> (0 :: u16)" and "a \<Longrightarrow> r \<noteq> 0xFFFF"
  shows "unat (r + (if a then 1 else 0) - (if b then 1 else 0)) + (if b then 1 else 0) =
    unat r + (if a then 1 else 0)"
proof -
  have "unat (r - 1) + 1 = unat r" if b
    using assms(1) [OF that] by (simp add: unat_minus_one unat_gt_0)
  moreover have "unat (r + 1) = unat r + 1" if a
  proof -
    have "unat r \<noteq> 65535" using assms(2) [OF that] by (simp add: word_unat_eq_iff)
    then have "unat r < 65535" using unat_lt_16 [of r] by linarith
    then show ?thesis by (subst unat_add_small) simp_all
  qed
  ultimately show ?thesis by auto
qed

lemma page_insert_walk:
  assumes "pgdir_walk pgdir va (perm OR PTE_P) s = Inr (a, s1)"
    and "pgdir_walk pgdir va (perm OR PTE_P) s1 = Inr (a, s1)"
  shows "page_insert pgdir p va perm s = page_insert pgdir p va perm s1"
  using assms by (simp add: page_insert_def)

lemma page_insert_no_memory:
  assumes "pages_ok s pn []" and "pde s pn (pdi va) = 0"
  shows "page_insert (kva pn) p va perm s = Inr (Inl E_NO_MEM, s)"
proof -
  have "perm OR PTE_P \<noteq> 0" by (simp add: or_nonzero)
  then show ?thesis
    using pgdir_walk_no_memory [OF pages_okD(3) [OF assms(1)] assms(2) pages_okD(4) [OF assms(1)]]
    by (simp add: page_insert_def)
qed

text \<open>The pages left on the free list once a table for \<open>va\<close> exists.\<close>

definition after_table :: "'a vm_scheme \<Rightarrow> nat \<Rightarrow> u32 \<Rightarrow> ppn list \<Rightarrow> ppn list" where
  "after_table s pn va xs = (if pde s pn (pdi va) = 0 then tl xs else xs)"

lemma page_insert_ok:
  fixes s :: "'a vm_scheme"
  assumes inv: "pmap_inv s pn xs None" and i: "pdi va < UPDX"
    and room: "pde s pn (pdi va) = 0 \<Longrightarrow> xs \<noteq> []"
    and p: "p < npages s" "p \<notin> set xs" "unat p \<notin> kernel_frames s pn"
    and r: "pp_ref (pages s p) \<noteq> 0xFFFF" and perm: "unat perm < 4096"
  obtains s' where "page_insert (kva pn) p va perm s = Inr (Inr (), s')"
    and "pmap_inv s' pn (released s p (mapped s pn va) (after_table s pn va xs)) None"
    and "pte s' pn (pdi va) (pti va) = page2pa p OR PTE_P OR perm"
    and "mapped s' pn va = Some p"
    and "\<And>va'. PGNUM va' \<noteq> PGNUM va \<Longrightarrow> outside s pn va' \<Longrightarrow>
           check_va2pa (kva pn) va' s' = check_va2pa (kva pn) va' s"
    and "tlb s' = (if mapped s pn va = None then tlb s else va # tlb s)"
    and "npages s' = npages s"
    and "\<And>k. k < 1024 \<Longrightarrow> pde s' pn k =
           (if k = pdi va \<and> pde s pn k = 0 then page2pa (hd xs) OR 7 else pde s pn k)"
    and "\<And>q. q < npages s \<Longrightarrow>
           unat (pp_ref (pages s' q)) + (if mapped s pn va = Some q then 1 else 0) =
           unat (pp_ref (pages s q)) + (if q = p then 1 else 0)
           + (if pde s pn (pdi va) = 0 \<and> q = hd xs then 1 else 0)"
proof -
  note concl = that
  have pn: "unat p < 65536"
    using p(1) pages_okD(1) [of s pn xs] inv by (simp add: pmap_inv_def word_less_nat_alt)
  have filled: "thesis" if walked:
    "pmap_inv s1 pn (after_table s pn va xs) None" "pde s1 pn (pdi va) \<noteq> 0"
    "page_insert (kva pn) p va perm s = page_insert (kva pn) p va perm s1"
    "npages s1 = npages s" "tlb s1 = tlb s" "kernel_frames s1 pn = kernel_frames s pn"
    "mapped s1 pn va = mapped s pn va"
    "\<And>va'. PGNUM va' \<noteq> PGNUM va \<Longrightarrow> outside s pn va' \<Longrightarrow>
           check_va2pa (kva pn) va' s1 = check_va2pa (kva pn) va' s"
    "\<And>q. q < npages s \<Longrightarrow> unat (pp_ref (pages s1 q)) =
        unat (pp_ref (pages s q)) + (if pde s pn (pdi va) = 0 \<and> q = hd xs then 1 else 0)"
    "pde s pn (pdi va) = 0 \<Longrightarrow> p \<noteq> hd xs"
    "\<And>k. k < 1024 \<Longrightarrow> pde s1 pn k =
       (if k = pdi va \<and> pde s pn k = 0 then page2pa (hd xs) OR 7 else pde s pn k)" for s1 :: "'a vm_scheme"
  proof -
    have ref: "pp_ref (pages s1 q) = pp_ref (pages s q)"
      if "pde s pn (pdi va) = 0 \<Longrightarrow> q \<noteq> hd xs" "q < npages s" for q
    proof -
      have "\<not> (pde s pn (pdi va) = 0 \<and> q = hd xs)" using that(1) by blast
      then show ?thesis using walked(9) [OF that(2)] by (simp only: word_unat_eq_iff if_False add_0_right)
    qed
    have "p \<notin> set (after_table s pn va xs)"
      using p(2) by (cases xs) (auto simp: after_table_def)
    then obtain s' where s': "page_insert (kva pn) p va perm s1 = Inr (Inr (), s')"
      "pmap_inv s' pn (released s1 p (mapped s1 pn va) (after_table s pn va xs)) None"
      "mem s' = (mem s1)(cell (fr (pde s1 pn (pdi va))) (pti va) := page2pa p OR PTE_P OR perm)"
      "npages s' = npages s1"
      "tlb s' = (if mapped s1 pn va = None then tlb s1 else va # tlb s1)"
      "\<And>q. pp_ref (pages s' q) = pp_ref (pages s1 q) + (if q = p then 1 else 0)
                - (if mapped s1 pn va = Some q then 1 else 0)"
      using page_insert_filled [OF walked(1) i walked(2), of p perm] p r perm ref [of p] walked
      by auto
    note ref' = s'(6)
    have ok1: "pages_ok s1 pn (after_table s pn va xs)" using walked(1) by (simp add: pmap_inv_def)
    have m: "mem s' = mem (store (cell (fr (pde s1 pn (pdi va))) (pti va)) (page2pa p OR PTE_P OR perm) s1)"
      using s'(3) by simp
    have rel: "released s1 p (mapped s1 pn va) zs = released s p (mapped s pn va) zs" for zs
      using ref mapped_counted [OF inv i] walked(7) by (auto simp: released_def split: option.split)
    have e: "pde s' pn (pdi va) = pde s1 pn (pdi va)"
      "pte s' pn (pdi va) (pti va) = page2pa p OR PTE_P OR perm"
      unfolding mem_cong [OF m]
      using set_pte_pde [OF ok1 i walked(2) unat_PTX_lt unat_PDX_lt]
        set_pte_pte [OF ok1 i walked(2) unat_PTX_lt unat_PDX_lt unat_PTX_lt walked(2)] by simp_all
    have pd: "pde s' pn k = (if k = pdi va \<and> pde s pn k = 0 then page2pa (hd xs) OR 7 else pde s pn k)"
      if "k < 1024" for k
      unfolding mem_cong [OF m] set_pte_pde [OF ok1 i walked(2) unat_PTX_lt that] by (rule walked(11) [OF that])
    have "unat (1 OR perm) < 4096" using perm unat_or_lt [of "1 :: u32" 12 perm] by simp
    then have "fr (page2pa p OR PTE_P OR perm) = unat p"
      using fr_or_perm [OF pn, of "1 OR perm"] by (simp add: or.assoc)
    then have mp: "mapped s' pn va = Some p"
      using walked(2) e PGNUM_eqI [of _ p] by (simp add: mapped_def or_eq_0_iff)
    have fr: "check_va2pa (kva pn) va' s' = check_va2pa (kva pn) va' s"
      if "PGNUM va' \<noteq> PGNUM va" "outside s pn va'" for va'
      using cell_write_frame [OF ok1 i walked(2) s'(3,4) that(1)] walked(8) [OF that] by simp
    have cnt: "unat (pp_ref (pages s' q)) + (if mapped s pn va = Some q then 1 else 0) =
        unat (pp_ref (pages s q)) + (if q = p then 1 else 0)
        + (if pde s pn (pdi va) = 0 \<and> q = hd xs then 1 else 0)" if "q < npages s" for q
    proof -
      have "unat (pp_ref (pages s' q)) + (if mapped s pn va = Some q then 1 else 0) =
          unat (pp_ref (pages s1 q)) + (if q = p then 1 else 0)"
        unfolding ref' walked(7)
        using mapped_counted(2) [OF walked(1) i] ref [OF walked(10)] r walked(7) p(1)
        by (intro unat_ref_step) auto
      then show ?thesis using walked(9) [OF that] by simp
    qed
    show thesis
      using concl [OF _ _ e(2) mp fr _ _ pd cnt] s' walked(3,4,5,7) unfolding rel by simp
  qed
  show ?thesis
  proof (cases "pde s pn (pdi va) = 0")
    case False
    then show ?thesis
      by (intro filled [of s]) (auto simp: inv after_table_def)
  next
    case True
    then obtain x zs where xs: "xs = x # zs" using room by (cases xs) auto
    have c: "perm OR PTE_P \<noteq> 0" by (simp add: or_nonzero)
    obtain s1 where s1: "pgdir_walk (kva pn) va (perm OR PTE_P) s = Inr (cell (unat x) (pti va), s1)"
      "pmap_inv s1 pn zs None" "pde s1 pn (pdi va) = page2pa x OR 7"
      "fr (pde s1 pn (pdi va)) = unat x"
      "\<And>k. k < 1024 \<Longrightarrow> k \<noteq> pdi va \<Longrightarrow> pde s1 pn k = pde s pn k"
      "\<And>j. j < 1024 \<Longrightarrow> pte s1 pn (pdi va) j = 0"
      "\<And>k j. k < 1024 \<Longrightarrow> j < 1024 \<Longrightarrow> pde s pn k \<noteq> 0 \<Longrightarrow> fr (pde s pn k) \<noteq> pn \<Longrightarrow>
         pte s1 pn k j = pte s pn k j"
      "npages s1 = npages s" "tlb s1 = tlb s"
      "\<And>q. pp_ref (pages s1 q) = (if q = x then 1 else pp_ref (pages s q))"
      "kernel_frames s1 pn = kernel_frames s pn"
      by (rule pgdir_walk_create [OF inv [unfolded xs] i True c]) blast
    have ok: "pages_ok s pn xs" and ok1: "pages_ok s1 pn zs"
      using inv s1(2) by (simp_all add: pmap_inv_def)
    have nz: "pde s1 pn (pdi va) \<noteq> 0" by (simp add: s1(3) or_nonzero)
    have x0: "pp_ref (pages s x) = 0"
      using inv xs pages_okD(5) [OF ok, of x]
      by (auto simp: pmap_inv_def counts_ok_def simp flip: unat_eq_zero)
    have walk: "pgdir_walk (kva pn) va (perm OR PTE_P) s1 = Inr (cell (unat x) (pti va), s1)"
      using pgdir_walk_present [OF pages_okD(3,1) [OF ok1] nz pages_okD(7) [OF ok1 i nz]] s1(4)
      by simp
    have same: "check_va2pa (kva pn) va' s1 = check_va2pa (kva pn) va' s"
      if "PGNUM va' \<noteq> PGNUM va" "outside s pn va'" for va'
    proof (cases "pdi va' = pdi va")
      case True
      then show ?thesis
        using i \<open>pde s pn (pdi va) = 0\<close> s1(6) unat_PTX_lt
        by (simp add: check_va2pa_user [OF ok] check_va2pa_user [OF ok1])
    next
      case False
      have "fr (pde s pn (pdi va')) \<noteq> pn" if "pde s pn (pdi va') \<noteq> 0"
        using \<open>outside s pn va'\<close> table_ne_pn [OF ok] that by (auto simp: outside_def)
      then show ?thesis
        using s1(5) [OF unat_PDX_lt False] s1(7) [OF unat_PDX_lt unat_PTX_lt]
        by (intro check_va2pa_same [OF ok s1(8)]) auto
    qed
    show ?thesis
    proof (rule filled [of s1])
      show "page_insert (kva pn) p va perm s = page_insert (kva pn) p va perm s1"
        by (rule page_insert_walk [OF s1(1) walk])
      show "mapped s1 pn va = mapped s pn va"
        using True s1(6) unat_PTX_lt by (simp add: mapped_def)
      show "pde s1 pn k = (if k = pdi va \<and> pde s pn k = 0 then page2pa (hd xs) OR 7 else pde s pn k)"
        if "k < 1024" for k
        using True s1(3) s1(5) [OF that] by (simp add: xs)
    qed (use True nz s1 same xs x0 p(2) in \<open>auto simp: after_table_def\<close>)
  qed
qed

section \<open>What the operations never touch\<close>

lemma set_ref_pgdir: "set_ref p r s = Inr s' \<Longrightarrow> kern_pgdir s' = kern_pgdir s"
  by (auto simp: set_ref_def split: if_splits)

lemma insert_head_pgdir: "kern_pgdir (LIST_INSERT_HEAD p s) = kern_pgdir s"
  by (rule more_eqD(4)) simp

lemma page_decref_pgdir: "page_decref p s = Inr s' \<Longrightarrow> kern_pgdir s' = kern_pgdir s"
  by (auto simp: page_decref_def page_free_def insert_head_pgdir split: if_splits dest!: set_ref_pgdir)

lemma page_alloc_pgdir: "page_alloc s = Inr (r, s') \<Longrightarrow> kern_pgdir s' = kern_pgdir s"
  by (auto simp: page_alloc_def split: if_splits option.splits dest: more_eqD(4) [OF LIST_REMOVE_more])

lemma pgdir_walk_pgdir: "pgdir_walk d va c s = Inr (a, s') \<Longrightarrow> kern_pgdir s' = kern_pgdir s"
  by (auto simp: pgdir_walk_def Let_def split: if_splits sum.splits dest!: set_ref_pgdir page_alloc_pgdir)

lemma page_remove_pgdir: "page_remove d va s = Inr s' \<Longrightarrow> kern_pgdir s' = kern_pgdir s"
  by (auto simp: page_remove_def page_lookup_def tlb_invalidate_def split: if_splits option.splits
      dest!: page_decref_pgdir pgdir_walk_pgdir)

lemma page_insert_pgdir: "page_insert d p va perm s = Inr (r, s') \<Longrightarrow> kern_pgdir s' = kern_pgdir s"
  by (auto simp: page_insert_def split: if_splits
      dest!: pgdir_walk_pgdir page_remove_pgdir set_ref_pgdir)

end
