(* ===== verification/Page_Pool.thy ===== *)
theory Page_Pool
  imports Pmap_Insert
begin

text \<open>
  The allocator as an interface. A pool hands out the first of its available items, takes
  an item back in front of the others, and reports when it has none. The lemmas of the
  locale are what the users of \<^verbatim>\<open>page_alloc\<close> and \<^verbatim>\<open>page_free\<close> rely on; the model of
  \<^verbatim>\<open>kern/pmap.c\<close> is shown to be such a pool.
\<close>

section \<open>Pools\<close>

text \<open>Asking for \<open>n\<close> items one after the other, stopping at the first refusal.\<close>

fun take_n :: "('s \<Rightarrow> ((jos_error + 'p) \<times> 's) res) \<Rightarrow> nat \<Rightarrow> 's \<Rightarrow> ('p list \<times> 's) res" where
  "take_n get 0 s = Inr ([], s)"
| "take_n get (Suc n) s = res_bind (get s) (\<lambda>(r, s1).
     case r of
       Inl e \<Rightarrow> Inr ([], s1)
     | Inr p \<Rightarrow> res_bind (take_n get n s1) (\<lambda>(ps, s2). Inr (p # ps, s2)))"

fun put_all :: "('p \<Rightarrow> 's \<Rightarrow> 's res) \<Rightarrow> 'p list \<Rightarrow> 's \<Rightarrow> 's res" where
  "put_all put [] s = Inr s"
| "put_all put (p # ps) s = res_bind (put p s) (put_all put ps)"

locale pool =
  fixes get :: "'s \<Rightarrow> ((jos_error + 'p) \<times> 's) res"
    and put :: "'p \<Rightarrow> 's \<Rightarrow> 's res"
    and avail :: "'s \<Rightarrow> 'p list \<Rightarrow> bool"
    and member :: "'s \<Rightarrow> 'p set"
  assumes get_none: "avail s [] \<Longrightarrow> get s = Inr (Inl E_NO_MEM, s)"
    and get_some: "avail s (x # xs) \<Longrightarrow>
          \<exists>s'. get s = Inr (Inr x, s') \<and> avail s' xs \<and> member s' = member s"
    and put_avail: "avail s xs \<Longrightarrow> p \<in> member s \<Longrightarrow> p \<notin> set xs \<Longrightarrow>
          \<exists>s'. put p s = Inr s' \<and> avail s' (p # xs) \<and> member s' = member s"
    and avail_distinct: "avail s xs \<Longrightarrow> distinct xs"
    and avail_member: "avail s xs \<Longrightarrow> set xs \<subseteq> member s"
begin

lemma take_n_ok:
  "avail s xs \<Longrightarrow>
     \<exists>s'. take_n get n s = Inr (take n xs, s') \<and> avail s' (drop n xs) \<and> member s' = member s"
proof (induction n arbitrary: s xs)
  case (Suc n)
  show ?case
  proof (cases xs)
    case Nil
    with Suc.prems show ?thesis by (simp add: get_none)
  next
    case (Cons x ys)
    with Suc.prems obtain s1 where s1: "get s = Inr (Inr x, s1)" "avail s1 ys" "member s1 = member s"
      using get_some by blast
    with Suc.IH [OF s1(2)] Cons show ?thesis by auto
  qed
qed simp

lemma taken_distinct:
  assumes "avail s xs" and "take_n get n s = Inr (ps, s')"
  shows "distinct ps" and "length ps = min n (length xs)" and "set ps \<subseteq> member s"
  using take_n_ok [OF assms(1), of n] assms(2) avail_distinct [OF assms(1)]
    avail_member [OF assms(1)] set_take_subset [of n xs]
  by (auto simp: min.commute)

lemma put_all_ok:
  "avail s xs \<Longrightarrow> set ps \<subseteq> member s \<Longrightarrow> distinct ps \<Longrightarrow> set ps \<inter> set xs = {} \<Longrightarrow>
     \<exists>s'. put_all put ps s = Inr s' \<and> avail s' (rev ps @ xs) \<and> member s' = member s"
proof (induction ps arbitrary: s xs)
  case (Cons p ps)
  then obtain s1 where s1: "put p s = Inr s1" "avail s1 (p # xs)" "member s1 = member s"
    using put_avail [of s xs p] by auto
  with Cons.IH [OF s1(2)] Cons.prems show ?case by auto
qed simp

text \<open>Taking \<open>n\<close> items and putting them back loses none of them.\<close>

lemma take_put:
  assumes "avail s xs"
  shows "\<exists>s1 s2. take_n get n s = Inr (take n xs, s1) \<and> put_all put (take n xs) s1 = Inr s2 \<and>
           avail s2 (rev (take n xs) @ drop n xs)"
proof -
  obtain s1 where s1: "take_n get n s = Inr (take n xs, s1)" "avail s1 (drop n xs)"
    "member s1 = member s"
    using take_n_ok [OF assms, of n] by blast
  have "set (take n xs) \<inter> set (drop n xs) = {}"
    using avail_distinct [OF assms] by (metis append_take_drop_id distinct_append)
  moreover have "set (take n xs) \<subseteq> member s1"
    using avail_member [OF assms] set_take_subset [of n xs] s1(3) by auto
  ultimately show ?thesis
    using put_all_ok [OF s1(2), of "take n xs"] avail_distinct [OF assms] s1(1) by auto
qed

text \<open>The item put back last is the one handed out next.\<close>

lemma put_get:
  assumes "avail s xs" "p \<in> member s" "p \<notin> set xs"
  shows "\<exists>s1 s2. put p s = Inr s1 \<and> get s1 = Inr (Inr p, s2) \<and> avail s2 xs"
  using put_avail [OF assms] get_some by metis

end

section \<open>The free list of \<^verbatim>\<open>kern/pmap.c\<close> is a pool\<close>

definition avail_pages :: "'a vm_scheme \<Rightarrow> ppn list \<Rightarrow> bool" where
  "avail_pages s xs \<longleftrightarrow> free_list s xs \<and> (\<forall>x \<in> set xs. x < npages s)"

definition all_pages :: "'a vm_scheme \<Rightarrow> ppn set" where
  "all_pages s = {p. p < npages s}"

lemma page_free_avail:
  fixes s :: "'a vm_scheme"
  assumes "avail_pages s xs" "p < npages s" "p \<notin> set xs"
  shows "\<exists>s'. page_free p s = Inr s' \<and> avail_pages s' (p # xs) \<and> same_vm s' s"
proof -
  have "same_vm (LIST_INSERT_HEAD p s) s"
    using more_eqD [OF LIST_INSERT_HEAD_more [of p s]] by (simp add: same_vm_def)
  then show ?thesis
    using assms LIST_INSERT_HEAD_list [of s xs p]
    by (simp add: page_free_def avail_pages_def same_vm_def)
qed

interpretation page_pool: pool page_alloc page_free avail_pages all_pages
proof unfold_locales
  fix s :: "'a vm_scheme" and xs :: "ppn list" and p x :: ppn
  show "avail_pages s [] \<Longrightarrow> page_alloc s = Inr (Inl E_NO_MEM, s)"
    by (simp add: avail_pages_def page_alloc_Nil)
  show "\<exists>s'. page_alloc s = Inr (Inr x, s') \<and> avail_pages s' xs \<and> all_pages s' = all_pages s"
    if "avail_pages s (x # xs)"
  proof -
    from that have "free_list s (x # xs)" "x < npages s" by (simp_all add: avail_pages_def)
    then obtain s' where "page_alloc s = Inr (Inr x, s')" "free_list s' xs" "same_vm s' s"
      by (rule page_alloc_Cons) blast
    with that show ?thesis by (auto simp: avail_pages_def all_pages_def same_vm_def)
  qed
  show "\<exists>s'. page_free p s = Inr s' \<and> avail_pages s' (p # xs) \<and> all_pages s' = all_pages s"
    if "avail_pages s xs" "p \<in> all_pages s" "p \<notin> set xs"
    using page_free_avail [of s xs p] that by (auto simp: all_pages_def same_vm_def)
  show "avail_pages s xs \<Longrightarrow> distinct xs"
    by (auto simp: avail_pages_def intro: free_list_distinct)
  show "avail_pages s xs \<Longrightarrow> set xs \<subseteq> all_pages s"
    by (auto simp: avail_pages_def all_pages_def)
qed

section \<open>A machine with a fresh directory\<close>

text \<open>
  A directory with no user entry has no references, so the invariant only asks for the
  frames of the kernel part and for the free list.
\<close>

lemma pmap_inv_fresh:
  assumes "unat (npages s) \<le> 65536" and "\<forall>f \<in> kernel_frames s pn. f < unat (npages s)"
    and "\<And>i. i < UPDX \<Longrightarrow> pde s pn i = 0" and "list_ok s pn xs"
    and "\<And>p. p < npages s \<Longrightarrow> pp_ref (pages s p) = 0"
  shows "pmap_inv s pn xs None"
proof -
  have "refs s pn p = 0" for p
    using assms(3) by (auto simp: refs_0_iff user_maps_def user_tables_def)
  then show ?thesis
    using assms by (simp add: pmap_inv_def pages_ok_def tables_ok_def counts_ok_def)
qed

text \<open>A small machine: 16 pages, the directory in page 0, the pages \<open>xs\<close> free.\<close>

definition bare_machine :: vm where
  "bare_machine =
     \<lparr>lh_first = None, pages = \<lambda>_. null_page, npages = 16, n_base_pages = 0, kern_pgdir = kva 0,
      pages_at = 0, mem = \<lambda>_. 0, nextfree = 0, cr0 = 0, cr3 = 0, tlb = []\<rparr>"

definition small_machine :: "ppn list \<Rightarrow> vm" where
  "small_machine xs = fold LIST_INSERT_HEAD (rev xs) bare_machine"

lemma fold_insert_head:
  assumes "free_list s ys" and "distinct (xs @ ys)"
  shows "free_list (fold LIST_INSERT_HEAD xs s) (rev xs @ ys)"
  using assms
proof (induction xs arbitrary: s ys)
  case (Cons x xs)
  then have "free_list (LIST_INSERT_HEAD x s) (x # ys)"
    by (intro LIST_INSERT_HEAD_list) auto
  with Cons.IH [OF this] Cons.prems show ?case by auto
qed simp

lemma fold_insert_head_same:
  "page_heap.more (fold LIST_INSERT_HEAD xs s) = page_heap.more s \<and>
   pp_ref (pages (fold LIST_INSERT_HEAD xs s) p) = pp_ref (pages s p)"
  by (induction xs arbitrary: s) simp_all

lemma small_machine_inv:
  assumes "distinct xs" and "\<forall>x \<in> set xs. x \<noteq> 0 \<and> x < 16"
  shows "pmap_inv (small_machine xs) 0 xs None" and "npages (small_machine xs) = 16"
    and "mem (small_machine xs) = (\<lambda>_. 0)" and "pp_ref (pages (small_machine xs) p) = 0"
    and "tlb (small_machine xs) = []" and "kern_pgdir (small_machine xs) = kva 0"
    and "pde (small_machine xs) 0 i = 0" and "kernel_frames (small_machine xs) 0 = {0}"
proof -
  let ?s = "small_machine xs"
  note same = fold_insert_head_same [of "rev xs" bare_machine, folded small_machine_def]
  show eqs: "npages ?s = 16" "mem ?s = (\<lambda>_. 0)" "tlb ?s = []" "kern_pgdir ?s = kva 0"
    using more_eqD [OF conjunct1 [OF same]] by (simp_all add: bare_machine_def)
  show ref: "pp_ref (pages ?s p) = 0" for p using same [of p] by (simp add: bare_machine_def null_page_def)
  have "free_list bare_machine []" by (simp add: free_list_def bare_machine_def)
  then have "free_list ?s xs"
    unfolding small_machine_def
    using assms(1) fold_insert_head [of bare_machine "[]" "rev xs"] by simp
  moreover show "pde ?s 0 i = 0" for i by (simp add: pde_def eqs)
  moreover from this show "kernel_frames ?s 0 = {0}" by (auto simp: kernel_frames_def)
  ultimately show "pmap_inv ?s 0 xs None"
    using assms(2) ref by (intro pmap_inv_fresh) (auto simp: eqs list_ok_def unat_eq_zero)
qed

end
