(* ===== verification/Segments.thy ===== *)
theory Segments
  imports Vt_Regs Page_Pool
begin

text \<open>
  Parts 2 and 3 of \<^verbatim>\<open>inc/mmu.h\<close>: segment and gate descriptors, and the descriptor table of
  \<^verbatim>\<open>kern/pmap.c\<close>. A bit field of \<open>n\<close> bits is an \<open>n\<close>-bit word. \<open>segdesc_words\<close> and
  \<open>gatedesc_words\<close> are the two words of memory that the C structures occupy.
\<close>

section \<open>Segment descriptors\<close>

record Segdesc =
  sd_lim_15_0 :: "16 word"
  sd_base_15_0 :: "16 word"
  sd_base_23_16 :: "8 word"
  sd_type :: "4 word"
  sd_s :: "1 word"
  sd_dpl :: "2 word"
  sd_p :: "1 word"
  sd_lim_19_16 :: "4 word"
  sd_avl :: "1 word"
  sd_rsv1 :: "1 word"
  sd_db :: "1 word"
  sd_g :: "1 word"
  sd_base_31_24 :: "8 word"

definition segdesc_words :: "Segdesc \<Rightarrow> u32 \<times> u32" where
  "segdesc_words d =
     (ucast (sd_lim_15_0 d) OR push_bit 16 (ucast (sd_base_15_0 d)),
      ucast (sd_base_23_16 d) OR push_bit 8 (ucast (sd_type d)) OR push_bit 12 (ucast (sd_s d))
        OR push_bit 13 (ucast (sd_dpl d)) OR push_bit 15 (ucast (sd_p d))
        OR push_bit 16 (ucast (sd_lim_19_16 d)) OR push_bit 20 (ucast (sd_avl d))
        OR push_bit 21 (ucast (sd_rsv1 d)) OR push_bit 22 (ucast (sd_db d))
        OR push_bit 23 (ucast (sd_g d)) OR push_bit 24 (ucast (sd_base_31_24 d)))"

definition SEG_NULL :: Segdesc where
  "SEG_NULL = \<lparr>sd_lim_15_0 = 0, sd_base_15_0 = 0, sd_base_23_16 = 0, sd_type = 0, sd_s = 0,
     sd_dpl = 0, sd_p = 0, sd_lim_19_16 = 0, sd_avl = 0, sd_rsv1 = 0, sd_db = 0, sd_g = 0,
     sd_base_31_24 = 0\<rparr>"

definition SEG_FAULT :: Segdesc where
  "SEG_FAULT = \<lparr>sd_lim_15_0 = 0, sd_base_15_0 = 0, sd_base_23_16 = 0, sd_type = 0, sd_s = 1,
     sd_dpl = 0, sd_p = 1, sd_lim_19_16 = 0, sd_avl = 0, sd_rsv1 = 0, sd_db = 1, sd_g = 0,
     sd_base_31_24 = 0\<rparr>"

definition SEG :: "u32 \<Rightarrow> u32 \<Rightarrow> u32 \<Rightarrow> u32 \<Rightarrow> Segdesc" where
  "SEG ty b l dp =
     \<lparr>sd_lim_15_0 = ucast (drop_bit 12 l AND 0xffff), sd_base_15_0 = ucast (b AND 0xffff),
      sd_base_23_16 = ucast (drop_bit 16 b AND 0xff), sd_type = ucast ty, sd_s = 1,
      sd_dpl = ucast dp, sd_p = 1, sd_lim_19_16 = ucast (drop_bit 28 l), sd_avl = 0,
      sd_rsv1 = 0, sd_db = 1, sd_g = 1, sd_base_31_24 = ucast (drop_bit 24 b)\<rparr>"

definition SEG16 :: "u32 \<Rightarrow> u32 \<Rightarrow> u32 \<Rightarrow> u32 \<Rightarrow> Segdesc" where
  "SEG16 ty b l dp =
     \<lparr>sd_lim_15_0 = ucast (l AND 0xffff), sd_base_15_0 = ucast (b AND 0xffff),
      sd_base_23_16 = ucast (drop_bit 16 b AND 0xff), sd_type = ucast ty, sd_s = 1,
      sd_dpl = ucast dp, sd_p = 1, sd_lim_19_16 = ucast (drop_bit 16 l), sd_avl = 0,
      sd_rsv1 = 0, sd_db = 1, sd_g = 0, sd_base_31_24 = ucast (drop_bit 24 b)\<rparr>"

definition STA_X :: u32 where [simp]: "STA_X = 0x8"
definition STA_W :: u32 where [simp]: "STA_W = 0x2"
definition STA_R :: u32 where [simp]: "STA_R = 0x2"
definition STS_T32A :: u32 where [simp]: "STS_T32A = 0x9"
definition STS_CG32 :: u32 where [simp]: "STS_CG32 = 0xC"
definition STS_IG32 :: u32 where [simp]: "STS_IG32 = 0xE"
definition STS_TG32 :: u32 where [simp]: "STS_TG32 = 0xF"

definition GD_KT :: u32 where [simp]: "GD_KT = 0x08"
definition GD_KD :: u32 where [simp]: "GD_KD = 0x10"
definition GD_UT :: u32 where [simp]: "GD_UT = 0x18"
definition GD_UD :: u32 where [simp]: "GD_UD = 0x20"
definition GD_TSS :: u32 where [simp]: "GD_TSS = 0x28"

text \<open>The descriptor table as it is initialised, before \<^verbatim>\<open>idt_init\<close>.\<close>

definition gdt_init :: "Segdesc list" where
  "gdt_init =
     [SEG_NULL,
      SEG (STA_X OR STA_R) 0x0 0xffffffff 0,
      SEG STA_W 0x0 0xffffffff 0,
      SEG (STA_X OR STA_R) 0x0 0xffffffff 3,
      SEG STA_W 0x0 0xffffffff 3,
      SEG_NULL]"

section \<open>Gate descriptors\<close>

record Gatedesc =
  gd_off_15_0 :: "16 word"
  gd_ss :: "16 word"
  gd_args :: "5 word"
  gd_rsv1 :: "3 word"
  gd_type :: "4 word"
  gd_s :: "1 word"
  gd_dpl :: "2 word"
  gd_p :: "1 word"
  gd_off_31_16 :: "16 word"

definition zero_gate :: Gatedesc where
  "zero_gate = \<lparr>gd_off_15_0 = 0, gd_ss = 0, gd_args = 0, gd_rsv1 = 0, gd_type = 0, gd_s = 0,
     gd_dpl = 0, gd_p = 0, gd_off_31_16 = 0\<rparr>"

definition SETGATE :: "bool \<Rightarrow> u32 \<Rightarrow> u32 \<Rightarrow> u32 \<Rightarrow> Gatedesc" where
  "SETGATE istrap ss off dpl =
     \<lparr>gd_off_15_0 = ucast (off AND 0xffff), gd_ss = ucast ss, gd_args = 0, gd_rsv1 = 0,
      gd_type = ucast (if istrap then STS_TG32 else STS_IG32), gd_s = 0, gd_dpl = ucast dpl,
      gd_p = 1, gd_off_31_16 = ucast (drop_bit 16 off)\<rparr>"

definition SETCALLGATE :: "u32 \<Rightarrow> u32 \<Rightarrow> u32 \<Rightarrow> Gatedesc" where
  "SETCALLGATE ss off dpl =
     \<lparr>gd_off_15_0 = ucast (off AND 0xffff), gd_ss = ucast ss, gd_args = 0, gd_rsv1 = 0,
      gd_type = ucast STS_CG32, gd_s = 0, gd_dpl = ucast dpl,
      gd_p = 1, gd_off_31_16 = ucast (drop_bit 16 off)\<rparr>"

definition gate_offset :: "Gatedesc \<Rightarrow> u32" where
  "gate_offset g = ucast (gd_off_15_0 g) OR push_bit 16 (ucast (gd_off_31_16 g))"

section \<open>Properties\<close>

lemma field_masks:
  "(0xffff :: u32) = mask 16" "(0xff :: u32) = mask 8"
  by (simp_all add: mask_eq_decr_exp)

lemma gate_offset_SETGATE [simp]: "gate_offset (SETGATE istrap ss off dpl) = off"
  by (rule bit_word_eqI) (auto simp: gate_offset_def SETGATE_def field_masks bit_simps)

lemma gate_offset_SETCALLGATE [simp]: "gate_offset (SETCALLGATE ss off dpl) = off"
  by (rule bit_word_eqI) (auto simp: gate_offset_def SETCALLGATE_def field_masks bit_simps)

text \<open>What the processor reads from a descriptor in memory.\<close>

definition seg_limit :: "segdesc \<Rightarrow> u32" where
  "seg_limit d =
     (let raw = push_bit 16 (limit_19_16 d) OR limit_15_0 d in
      if seg_g d = 1 then push_bit 12 raw OR 0xfff else raw)"

lemma bits_or: "bits i n (a OR b) = bits i n a OR bits i n b"
  by (rule bit_word_eqI) (auto simp: bits_def bit_simps)

lemma bits_field:
  fixes f :: "'a::len word"
  shows "i + n \<le> j \<or> j + LENGTH('a) \<le> i \<Longrightarrow> bits i n (push_bit j (ucast f)) = 0"
    and "i = j \<Longrightarrow> n = LENGTH('a) \<Longrightarrow> j + LENGTH('a) \<le> 32 \<Longrightarrow> bits i n (push_bit j (ucast f)) = ucast f"
  by (rule bit_word_eqI, force simp: bits_def bit_simps dest: bit_imp_le_length)+

lemma bits_field0:
  fixes f :: "'a::len word"
  shows "LENGTH('a) \<le> i \<Longrightarrow> bits i n (ucast f) = 0"
    and "n = LENGTH('a) \<Longrightarrow> LENGTH('a) \<le> 32 \<Longrightarrow> bits 0 n (ucast f) = ucast f"
  using bits_field(1) [of i n 0 f] bits_field(2) [of 0 0 n f] by simp_all

text \<open>Every field of the packed descriptor is read back from the two words of memory.\<close>

lemma segdesc_of_words:
  "segdesc_of (fst (segdesc_words d)) (snd (segdesc_words d)) =
    \<lparr>limit_15_0 = ucast (sd_lim_15_0 d), base_15_0 = ucast (sd_base_15_0 d),
     base_23_16 = ucast (sd_base_23_16 d), seg_type = ucast (sd_type d), seg_s = ucast (sd_s d),
     seg_dpl = ucast (sd_dpl d), seg_p = ucast (sd_p d), limit_19_16 = ucast (sd_lim_19_16 d),
     seg_avl = ucast (sd_avl d), seg_l = ucast (sd_rsv1 d), seg_d_b = ucast (sd_db d),
     seg_g = ucast (sd_g d), base_31_24 = ucast (sd_base_31_24 d)\<rparr>"
  by (simp add: segdesc_words_def segdesc_of_def bits_or bits_field bits_field0)

lemma SEG_base:
  "SEGDESC_BASE (segdesc_of (fst (segdesc_words (SEG ty b l dp))) (snd (segdesc_words (SEG ty b l dp)))) = b"
    (is "?d = b")
proof (rule bit_word_eqI)
  fix n :: nat assume "n < LENGTH(32)"
  then show "bit ?d n \<longleftrightarrow> bit b n" unfolding segdesc_of_words SEGDESC_BASE_def
    by (cases "24 \<le> n"; cases "16 \<le> n") (auto simp: SEG_def field_masks bit_simps)
qed

lemma SEG_limit:
  "seg_limit (segdesc_of (fst (segdesc_words (SEG ty b l dp))) (snd (segdesc_words (SEG ty b l dp))))
    = l OR 0xfff" (is "?d = _")
proof (rule bit_word_eqI)
  fix n :: nat assume "n < LENGTH(32)"
  then show "bit ?d n \<longleftrightarrow> bit (l OR 0xfff) n" unfolding segdesc_of_words seg_limit_def low_masks
    by (cases "28 \<le> n"; cases "12 \<le> n") (auto simp: SEG_def field_masks bit_simps)
qed

text \<open>A segment descriptor built by SEG and stored at its place in the descriptor table is read
  back by get_seg_base: the base the macro was given comes out of the three base fields, and the
  limit the processor computes is the one given, rounded up to whole pages.\<close>

lemma get_seg_base_SEG:
  assumes table: "ss AND SEL_LDT_BIT = 0"
    and nonnull: "ss \<noteq> 0"
    and addr: "a = gdtbase + ucast (ss AND SEL_MASK)"
    and stored: "(mem s a, mem s (a + 4)) = segdesc_words (SEG ty b l dp)"
  shows "get_seg_base gdtbase ldtr ss s = b \<and> seg_limit (segdesc_at a s) = l OR 0xfff
    \<and> seg_p (segdesc_at a s) = 1"
proof -
  have m: "mem s a = fst (segdesc_words (SEG ty b l dp))" "mem s (a + 4) = snd (segdesc_words (SEG ty b l dp))"
    using stored by (simp_all add: prod_eq_iff)
  have at: "segdesc_at a s = segdesc_of (fst (segdesc_words (SEG ty b l dp))) (snd (segdesc_words (SEG ty b l dp)))"
    by (simp only: segdesc_at_def m)
  have p: "seg_p (segdesc_at a s) = 1" unfolding at segdesc_of_words by (simp add: SEG_def)
  moreover have "get_seg_base gdtbase ldtr ss s = b"
    unfolding get_seg_base_def Let_def addr [symmetric]
    using table nonnull p SEG_base [of ty b l dp] by (simp add: at)
  ultimately show ?thesis using SEG_limit [of ty b l dp] by (simp add: at)
qed

lemma get_seg_base_SEG_witness:
  "\<exists>s :: vm. get_seg_base 0x1000 0 8 s = 0x12345678
     \<and> seg_limit (segdesc_at 0x1008 s) = 0xfffff \<and> seg_p (segdesc_at 0x1008 s) = 1"
proof -
  define ws where "ws = segdesc_words (SEG (STA_X OR STA_R) 0x12345678 0xff800 0)"
  define s where "s = store 0x100c (snd ws) (store 0x1008 (fst ws) bare_machine)"
  have "(mem s 0x1008, mem s (0x1008 + 4)) = segdesc_words (SEG (STA_X OR STA_R) 0x12345678 0xff800 0)"
    unfolding s_def by (simp add: store_def ws_def)
  from get_seg_base_SEG [OF _ _ _ this, of 8 "0x1000" 0] show ?thesis by (intro exI [of _ s]) simp
qed

end
