(* ===== verification/Trap.thy ===== *)
theory Trap
  imports Segments Printfmt
begin

text \<open>
  \<^verbatim>\<open>kern/trap.c\<close> with \<^verbatim>\<open>inc/trap.h\<close>: the interrupt descriptor table and the task state
  segment \<^verbatim>\<open>idt_init\<close> sets up, the dump of a trap frame, and the dispatch of \<^verbatim>\<open>trap\<close>. The
  addresses of the handlers of \<^verbatim>\<open>kern/trapentry.S\<close> and of the tables are arguments, and so are
  the console output function, the memory of strings and the kernel monitor.
\<close>

section \<open>Trap frames\<close>

definition T_BRKPT :: u32 where [simp]: "T_BRKPT = 3"
definition T_SYSCALL :: u32 where [simp]: "T_SYSCALL = 48"

record Registers =
  reg_edi :: u32
  reg_esi :: u32
  reg_ebp :: u32
  reg_oesp :: u32
  reg_ebx :: u32
  reg_edx :: u32
  reg_ecx :: u32
  reg_eax :: u32

record Trapframe =
  tf_regs :: Registers
  tf_es :: u16
  tf_padding1 :: u16
  tf_ds :: u16
  tf_padding2 :: u16
  tf_trapno :: u32
  tf_err :: u32
  tf_eip :: u32
  tf_cs :: u16
  tf_padding3 :: u16
  tf_eflags :: u32
  tf_esp :: u32
  tf_ss :: u16
  tf_padding4 :: u16

definition excnames :: "string list" where
  "excnames =
     [''Divide error'', ''Debug'', ''Non-Maskable Interrupt'', ''Breakpoint'', ''Overflow'',
      ''BOUND Range Exceeded'', ''Invalid Opcode'', ''Device Not Available'', ''Double Falt'',
      ''Coprocessor Segment Overrun'', ''Invalid TSS'', ''Segment Not Present'', ''Stack Fault'',
      ''General Protection'', ''Page Fault'', ''(unknown trap)'', ''x87 FPU Floating-Point Error'',
      ''Alignment Check'', ''Machine-Check'', ''SIMD Floating-Point Exception'']"

text \<open>The number is compared with a \<^verbatim>\<open>sizeof\<close>, so as an unsigned number.\<close>

definition trapname :: "u32 \<Rightarrow> string" where
  "trapname trapno =
     (if trapno < of_nat (length excnames) then excnames ! unat trapno
      else if trapno = T_SYSCALL then ''System call''
      else ''(unknown trap)'')"

section \<open>Descriptor tables\<close>

record Taskstate =
  ts_link :: u32
  ts_esp0 :: u32
  ts_ss0 :: u16
  ts_padding1 :: u16
  ts_esp1 :: u32
  ts_ss1 :: u16
  ts_padding2 :: u16
  ts_esp2 :: u32
  ts_ss2 :: u16
  ts_padding3 :: u16
  ts_cr3 :: u32
  ts_eip :: u32
  ts_eflags :: u32
  ts_eax :: u32
  ts_ecx :: u32
  ts_edx :: u32
  ts_ebx :: u32
  ts_esp :: u32
  ts_ebp :: u32
  ts_esi :: u32
  ts_edi :: u32
  ts_es :: u16
  ts_padding4 :: u16
  ts_cs :: u16
  ts_padding5 :: u16
  ts_ss :: u16
  ts_padding6 :: u16
  ts_ds :: u16
  ts_padding7 :: u16
  ts_fs :: u16
  ts_padding8 :: u16
  ts_gs :: u16
  ts_padding9 :: u16
  ts_ldt :: u16
  ts_padding10 :: u16
  ts_t :: u16
  ts_iomb :: u16

definition zero_Taskstate :: Taskstate where
  "zero_Taskstate = \<lparr>ts_link = 0, ts_esp0 = 0, ts_ss0 = 0, ts_padding1 = 0, ts_esp1 = 0, ts_ss1 = 0,
     ts_padding2 = 0, ts_esp2 = 0, ts_ss2 = 0, ts_padding3 = 0, ts_cr3 = 0,
     ts_eip = 0, ts_eflags = 0, ts_eax = 0, ts_ecx = 0, ts_edx = 0, ts_ebx = 0,
     ts_esp = 0, ts_ebp = 0, ts_esi = 0, ts_edi = 0, ts_es = 0, ts_padding4 = 0,
     ts_cs = 0, ts_padding5 = 0, ts_ss = 0, ts_padding6 = 0, ts_ds = 0,
     ts_padding7 = 0, ts_fs = 0, ts_padding8 = 0, ts_gs = 0, ts_padding9 = 0,
     ts_ldt = 0, ts_padding10 = 0, ts_t = 0, ts_iomb = 0\<rparr>"

definition sizeof_Taskstate :: u32 where [simp]: "sizeof_Taskstate = 104"

record trap_state =
  ts :: Taskstate
  idt :: "Gatedesc list"
  gdt :: "Segdesc list"
  task_register :: u16
  idt_register :: "u16 \<times> u32"

definition trap_state_init :: trap_state where
  "trap_state_init = \<lparr>ts = zero_Taskstate, idt = replicate 256 zero_gate, gdt = gdt_init,
     task_register = 0, idt_register = (0, 0)\<rparr>"

definition set_gate :: "nat \<Rightarrow> bool \<Rightarrow> u32 \<Rightarrow> u32 \<Rightarrow> u32 \<Rightarrow> trap_state \<Rightarrow> trap_state" where
  "set_gate n istrap ss off dpl s = s\<lparr>idt := (idt s)[n := SETGATE istrap ss off dpl]\<rparr>"

definition idt_init :: "(nat \<Rightarrow> u32) \<Rightarrow> u32 \<Rightarrow> u32 \<Rightarrow> trap_state \<Rightarrow> trap_state" where
  "idt_init handler ts_addr idt_addr s0 =
     (let s = set_gate 1 True GD_KT (handler 1) 0 s0;
          s = set_gate 2 True GD_KT (handler 2) 0 s;
          s = set_gate 3 True GD_KT (handler 3) 3 s;
          s = set_gate 4 True GD_KT (handler 4) 0 s;
          s = set_gate 5 True GD_KT (handler 5) 0 s;
          s = set_gate 6 True GD_KT (handler 6) 0 s;
          s = set_gate 7 True GD_KT (handler 7) 0 s;
          s = set_gate 8 True GD_KT (handler 8) 0 s;
          s = set_gate 9 True GD_KT (handler 9) 0 s;
          s = set_gate 10 True GD_KT (handler 10) 0 s;
          s = set_gate 11 True GD_KT (handler 11) 0 s;
          s = set_gate 12 True GD_KT (handler 12) 0 s;
          s = set_gate 13 True GD_KT (handler 13) 0 s;
          s = set_gate 14 True GD_KT (handler 14) 0 s;
          s = set_gate 15 True GD_KT (handler 15) 0 s;
          s = set_gate 16 True GD_KT (handler 16) 0 s;
          s = set_gate 17 True GD_KT (handler 17) 0 s;
          s = set_gate 18 True GD_KT (handler 18) 0 s;
          s = set_gate 19 True GD_KT (handler 19) 0 s;
          s = set_gate 48 False GD_KT (handler 48) 3 s;
          s = s\<lparr>ts := (ts s)\<lparr>ts_esp0 := KSTACKTOP, ts_ss0 := ucast GD_KD\<rparr>\<rparr>;
          s = s\<lparr>gdt := (gdt s)[unat (drop_bit 3 GD_TSS) := SEG16 STS_T32A ts_addr sizeof_Taskstate 0]\<rparr>;
          s = s\<lparr>gdt := (gdt s)[unat (drop_bit 3 GD_TSS) :=
                          (gdt s ! unat (drop_bit 3 GD_TSS))\<lparr>sd_s := 0\<rparr>]\<rparr>
      in s\<lparr>task_register := ucast GD_TSS, idt_register := (of_nat (8 * 256 - 1), idt_addr)\<rparr>)"

section \<open>Printing a trap frame\<close>

text \<open>A format that ends in a newline.\<close>

definition line :: "string \<Rightarrow> string" where
  "line s = s @ [CHR 0x0A]"

text \<open>Calls of \<^verbatim>\<open>cprintf\<close> one after the other, their results ignored.\<close>

fun cprintf_all :: "'s sink \<Rightarrow> (u32 \<Rightarrow> string) \<Rightarrow> (string \<times> u32 list) list \<Rightarrow> 's \<Rightarrow> 's res" where
  "cprintf_all put str [] st = Inr st"
| "cprintf_all put str ((fmt, va) # calls) st =
     res_bind (cprintf put str fmt va st) (\<lambda>(_, st). cprintf_all put str calls st)"

definition print_regs :: "'s sink \<Rightarrow> (u32 \<Rightarrow> string) \<Rightarrow> Registers \<Rightarrow> 's \<Rightarrow> 's res" where
  "print_regs put str r =
     cprintf_all put str
       [(line ''  edi  0x%08x'', [reg_edi r]),
        (line ''  esi  0x%08x'', [reg_esi r]),
        (line ''  ebp  0x%08x'', [reg_ebp r]),
        (line ''  oesp 0x%08x'', [reg_oesp r]),
        (line ''  ebx  0x%08x'', [reg_ebx r]),
        (line ''  edx  0x%08x'', [reg_edx r]),
        (line ''  ecx  0x%08x'', [reg_ecx r]),
        (line ''  eax  0x%08x'', [reg_eax r])]"

text \<open>\<open>lit\<close> places a string constant in memory, \<open>tfp\<close> is the address of the frame.\<close>

definition print_trapframe ::
    "'s sink \<Rightarrow> (u32 \<Rightarrow> string) \<Rightarrow> (string \<Rightarrow> u32) \<Rightarrow> u32 \<Rightarrow> Trapframe \<Rightarrow> 's \<Rightarrow> 's res" where
  "print_trapframe put str lit tfp tf st =
     res_bind (cprintf_all put str [(line ''TRAP frame at %p'', [tfp])] st) (\<lambda>st.
     res_bind (print_regs put str (tf_regs tf) st) (\<lambda>st.
     cprintf_all put str
       [(line ''  es   0x----%04x'', [ucast (tf_es tf)]),
        (line ''  ds   0x----%04x'', [ucast (tf_ds tf)]),
        (line ''  trap 0x%08x %s'', [tf_trapno tf, lit (trapname (tf_trapno tf))]),
        (line ''  err  0x%08x'', [tf_err tf]),
        (line ''  eip  0x%08x'', [tf_eip tf]),
        (line ''  cs   0x----%04x'', [ucast (tf_cs tf)]),
        (line ''  flag 0x%08x'', [tf_eflags tf]),
        (line ''  esp  0x%08x'', [tf_esp tf]),
        (line ''  ss   0x----%04x'', [ucast (tf_ss tf)])] st))"

definition trap ::
    "'s sink \<Rightarrow> (u32 \<Rightarrow> string) \<Rightarrow> (string \<Rightarrow> u32) \<Rightarrow> (u32 \<Rightarrow> Trapframe \<Rightarrow> 's \<Rightarrow> 's res)
      \<Rightarrow> u32 \<Rightarrow> Trapframe \<Rightarrow> 's \<Rightarrow> 's res" where
  "trap put str lit monitor tfp tf st =
     (if tf_trapno tf = T_BRKPT then monitor tfp tf st
      else
        res_bind (print_trapframe put str lit tfp tf st) (\<lambda>st.
          if tf_cs tf = ucast GD_KT then Inl (Panic ''unhandled trap in kernel'')
          else Inl (Panic ''unhandled trap in user mode'')))"

section \<open>Hexadecimal fields\<close>

text \<open>The \<open>n\<close> lowest digits of a number.\<close>

primrec fixed_digits :: "nat \<Rightarrow> nat \<Rightarrow> nat \<Rightarrow> nat list" where
  "fixed_digits b 0 x = []"
| "fixed_digits b (Suc n) x = fixed_digits b n (x div b) @ [x mod b]"

lemma fixed_digits_0: "fixed_digits b n 0 = replicate n 0"
  by (induction n) (simp_all add: replicate_append_same)

lemma length_fixed_digits [simp]: "length (fixed_digits b n x) = n"
  by (induction n arbitrary: x) simp_all

lemma number_of_fixed_digits: "1 < b \<Longrightarrow> x < b ^ n \<Longrightarrow> number_of b (fixed_digits b n x) = x"
proof (induction n arbitrary: x)
  case (Suc n)
  then have "x div b < b ^ n" by (simp add: less_mult_imp_div_less mult.commute)
  with Suc show ?case by (simp add: number_of_def)
qed (simp add: number_of_def)

lemma padded_digits:
  assumes "1 < b"
  shows "0 < n \<Longrightarrow> x < b ^ n \<Longrightarrow>
    replicate (n - length (digits b x)) 0 @ digits b x = fixed_digits b n x \<and> length (digits b x) \<le> n"
proof (induction n arbitrary: x)
  case (Suc n)
  show ?case
  proof (cases "b \<le> x")
    case True
    then have d: "digits b x = digits b (x div b) @ [x mod b]" using assms by (subst digits.simps) simp
    have "x div b < b ^ n" using Suc.prems(2) by (simp add: less_mult_imp_div_less mult.commute)
    moreover have "0 < n" using True Suc.prems(2) by (cases n) auto
    ultimately show ?thesis using Suc.IH [of "x div b"] by (simp add: d)
  next
    case False
    then have "digits b x = [x]" by (subst digits.simps) simp
    then show ?thesis using False by (simp add: fixed_digits_0)
  qed
qed simp

definition hex_text :: "nat \<Rightarrow> u32 \<Rightarrow> u32 list" where
  "hex_text n x = map hex_digit (fixed_digits 16 n (unat x))"

lemma printnum_hex:
  assumes "0 < n" and "unat x < 16 ^ n"
  shows "printnum put (ucast x) 16 (int n) 0x30 st = fold put (hex_text n x) st"
proof -
  have h: "hex_digit 0 = 0x30" by (simp add: hex_digit_def)
  have u: "unat (ucast x :: u64) = unat x"
    by transfer simp
  note P = padded_digits [of 16 n "unat x", OF _ assms]
  have "nat (int n - int (length (digits 16 (unat x)))) = n - length (digits 16 (unat x))"
    using P by simp
  then show ?thesis
    using P [THEN conjunct1, symmetric] printnum_fold [of 16 put "ucast x" "int n" "0x30" st]
    by (simp add: hex_text_def u h del: fold_append fold_replicate)
qed

lemma vprintfmt_hex8:
  "vprintfmt put str (CHR ''%'' # CHR ''0'' # CHR ''8'' # CHR ''x'' # fmt) (x # va) st =
     vprintfmt put str fmt va (fold put (hex_text 8 x) st)"
  using printnum_hex [of 8 x put st] unat_lt_32 [of x]
  by (simp add: no_flags_def is_digit_def digit_def process_precision_def convert_def getuint_def
      conv_number_def del: fold_append)

lemma vprintfmt_hex4:
  "vprintfmt put str (CHR ''%'' # CHR ''0'' # CHR ''4'' # CHR ''x'' # fmt) (ucast (x :: u16) # va) st =
     vprintfmt put str fmt va (fold put (hex_text 4 (ucast x)) st)"
proof -
  have "unat (ucast x :: u32) = unat x" by transfer simp
  then have "unat (ucast x :: u32) < 16 ^ 4" using unsigned_less [of x, where 'a = nat] by simp
  then show ?thesis
    using printnum_hex [of 4 "ucast x" put st]
    by (simp add: no_flags_def is_digit_def digit_def process_precision_def convert_def getuint_def
        conv_number_def del: fold_append)
qed

lemma put_string_all: "put_string put False p (-1) w st = (w - int (length p), fold put (map char_int p) st)"
  by (induction p arbitrary: w st) (simp_all add: Let_def)

lemma vprintfmt_str:
  "x \<noteq> 0 \<Longrightarrow> vprintfmt put str (CHR ''%'' # CHR ''s'' # fmt) (x # va) st =
     vprintfmt put str fmt va (fold put (map char_int (str x)) st)"
  by (simp add: no_flags_def is_digit_def convert_def conv_string_def put_string_all)

lemma vprintfmt_ptr:
  "vprintfmt put str (CHR ''%'' # CHR ''p'' # fmt) (x # va) st =
     vprintfmt put str fmt va
       (fold put ([0x30, 0x78] @ map hex_digit (digits 16 (unat x))) st)"
proof -
  have "unat (ucast x :: u64) = unat x" by transfer simp
  then show ?thesis
    using printnum_fold [of 16 put "ucast x" "-1" "0x20" "put 0x78 (put 0x30 st)"]
    by (simp add: no_flags_def is_digit_def convert_def conv_number_def del: fold_append fold_replicate)
qed

lemma vprintfmt_char:
  "c \<noteq> CHR ''%'' \<Longrightarrow> c \<noteq> CHR 0x00 \<Longrightarrow>
     vprintfmt put str (c # fmt) va st = vprintfmt put str fmt va (put (of_char c) st)"
  by simp

lemmas vprintfmt_steps = vprintfmt_hex8 vprintfmt_hex4 vprintfmt_str vprintfmt_ptr vprintfmt_char

section \<open>Properties\<close>

text \<open>The text of a trap frame: every register in 8 digits, every selector in 4.\<close>

definition hex_line :: "string \<Rightarrow> nat \<Rightarrow> u32 \<Rightarrow> u32 list" where
  "hex_line label n x = map of_char label @ hex_text n x @ [0x0A]"

definition regs_text :: "Registers \<Rightarrow> u32 list" where
  "regs_text r = concat
     [hex_line ''  edi  0x'' 8 (reg_edi r), hex_line ''  esi  0x'' 8 (reg_esi r),
      hex_line ''  ebp  0x'' 8 (reg_ebp r), hex_line ''  oesp 0x'' 8 (reg_oesp r),
      hex_line ''  ebx  0x'' 8 (reg_ebx r), hex_line ''  edx  0x'' 8 (reg_edx r),
      hex_line ''  ecx  0x'' 8 (reg_ecx r), hex_line ''  eax  0x'' 8 (reg_eax r)]"

definition frame_text :: "u32 \<Rightarrow> Trapframe \<Rightarrow> u32 list" where
  "frame_text tfp tf = concat
     [map of_char ''TRAP frame at 0x'' @ map hex_digit (digits 16 (unat tfp)) @ [0x0A],
      regs_text (tf_regs tf),
      hex_line ''  es   0x----'' 4 (ucast (tf_es tf)), hex_line ''  ds   0x----'' 4 (ucast (tf_ds tf)),
      map of_char ''  trap 0x'' @ hex_text 8 (tf_trapno tf) @ [0x20] @
        map char_int (trapname (tf_trapno tf)) @ [0x0A],
      hex_line ''  err  0x'' 8 (tf_err tf), hex_line ''  eip  0x'' 8 (tf_eip tf),
      hex_line ''  cs   0x----'' 4 (ucast (tf_cs tf)), hex_line ''  flag 0x'' 8 (tf_eflags tf),
      hex_line ''  esp  0x'' 8 (tf_esp tf), hex_line ''  ss   0x----'' 4 (ucast (tf_ss tf))]"

lemma cprintf_vprintfmt:
  "cprintf put str fmt va st = map_sum id (Pair 0) (vprintfmt put str fmt va st)"
  by (cases "printed str fmt va")
    (simp_all add: cprintf_def vcprintf_def vprintfmt_printed cprintf_putch_fold)

lemma print_regs_text: "print_regs put str r st = Inr (fold put (regs_text r) st)"
  by (simp add: print_regs_def regs_text_def hex_line_def line_def cprintf_vprintfmt vprintfmt_steps
      del: vprintfmt.simps(2))

text \<open>print_trapframe prints the frame's address, the general registers and the fields of the
  frame, each register in exactly eight hexadecimal digits and each selector in four, and the
  name of the trap.\<close>

lemma print_trapframe_text:
  assumes lit: "str (lit (trapname (tf_trapno tf))) = trapname (tf_trapno tf)"
    and nonnull: "lit (trapname (tf_trapno tf)) \<noteq> 0"
  shows "print_trapframe put str lit tfp tf st = Inr (fold put (frame_text tfp tf) st)"
  using assms
  by (simp add: print_trapframe_def print_regs_text frame_text_def hex_line_def line_def
      cprintf_vprintfmt vprintfmt_steps del: vprintfmt.simps(2))

definition sample_frame :: Trapframe where
  "sample_frame = \<lparr>tf_regs = \<lparr>reg_edi = 1, reg_esi = 2, reg_ebp = 3, reg_oesp = 4, reg_ebx = 5,
     reg_edx = 6, reg_ecx = 7, reg_eax = 0xabcd\<rparr>, tf_es = 0x10, tf_padding1 = 0, tf_ds = 0x10,
     tf_padding2 = 0, tf_trapno = 14, tf_err = 2, tf_eip = 0xf0100000, tf_cs = 8, tf_padding3 = 0,
     tf_eflags = 0x46, tf_esp = 0, tf_ss = 0, tf_padding4 = 0\<rparr>"

lemma print_trapframe_text_witness:
  "print_trapframe collect (\<lambda>a. if a = 0x1000 then ''Page Fault'' else []) (\<lambda>s. 0x1000) 0xf0001000
     sample_frame [] = Inr (frame_text 0xf0001000 sample_frame)"
  using print_trapframe_text [of "\<lambda>a. if a = 0x1000 then ''Page Fault'' else []" "\<lambda>s. 0x1000"
      sample_frame collect "0xf0001000" "[]"]
  by (simp add: collect_fold sample_frame_def trapname_def excnames_def)

text \<open>Any trap but a breakpoint ends in a panic once its frame is printed, with the message for
  kernel mode exactly when the frame's code segment is the kernel's: printing the frame can not
  stop the kernel in another way, whatever the trap number.\<close>

lemma trap_unhandled_panics:
  assumes lit: "str (lit (trapname (tf_trapno tf))) = trapname (tf_trapno tf)"
    and nonnull: "lit (trapname (tf_trapno tf)) \<noteq> 0"
    and other: "tf_trapno tf \<noteq> 3"
  shows "trap put str lit monitor tfp tf st =
    Inl (Panic (if tf_cs tf = 8 then ''unhandled trap in kernel'' else ''unhandled trap in user mode''))"
proof -
  have "\<exists>st'. print_trapframe put str lit tfp tf st = Inr st'"
    using lit nonnull
    by (simp add: print_trapframe_def print_regs_text line_def cprintf_vprintfmt vprintfmt_steps
        del: vprintfmt.simps(2))
  then show ?thesis using other by (auto simp: trap_def)
qed

lemma trap_unhandled_panics_witness:
  "trap collect (\<lambda>a. if a = 0x1000 then ''Page Fault'' else []) (\<lambda>s. 0x1000) (\<lambda>_ _. Inr) 0xf0001000
     sample_frame [] = Inl (Panic ''unhandled trap in kernel'')"
  using trap_unhandled_panics [of "\<lambda>a. if a = 0x1000 then ''Page Fault'' else []" "\<lambda>s. 0x1000"
      sample_frame collect "\<lambda>_ _. Inr" "0xf0001000" "[]"]
  by (simp add: sample_frame_def trapname_def excnames_def)

section \<open>The descriptor table\<close>

text \<open>The gate the code intends for a vector, if any.\<close>

definition intended_gate :: "(nat \<Rightarrow> u32) \<Rightarrow> nat \<Rightarrow> Gatedesc" where
  "intended_gate handler n =
     (if n = 48 then SETGATE False 8 (handler 48) 3
      else if 1 \<le> n \<and> n \<le> 19 then SETGATE True 8 (handler n) (if n = 3 then 3 else 0)
      else zero_gate)"

lemma below_20:
  "n < 20 \<Longrightarrow> n \<in> {0, 1, 2, 3, 4, 5, 6, 7, 8, 9, 10, 11, 12, 13, 14, 15, 16, 17, 18, 19::nat}"
  by (simp only: insert_iff empty_iff) presburger

lemma idt_init_gate:
  assumes "n < 256"
  shows "idt (idt_init handler tsa idta trap_state_init) ! n = intended_gate handler n"
proof (cases "n < 20")
  case True
  from below_20 [OF this] show ?thesis
    by (elim insertE emptyE)
      (simp_all add: idt_init_def set_gate_def Let_def trap_state_init_def intended_gate_def)
next
  case False
  then show ?thesis using assms
    by (simp add: idt_init_def set_gate_def Let_def trap_state_init_def intended_gate_def nth_list_update)
qed

lemma idt_init_table: "idt (idt_init handler tsa idta trap_state_init) = map (intended_gate handler) [0..<256]"
proof -
  have "length (idt (idt_init handler tsa idta trap_state_init)) = 256"
    by (simp add: idt_init_def set_gate_def Let_def trap_state_init_def)
  then show ?thesis by (intro nth_equalityI) (simp_all add: idt_init_gate)
qed

text \<open>C36: After idt_init a vector has a present gate exactly if it is one of the exceptions 1 to 19
  or the system call 48; the gate leads to the handler of that vector, only the breakpoint and
  the system call can be raised from user mode, and only the system call keeps interrupts off;
  the divide error, vector 0, is left without a gate.\<close>

theorem idt_init_gates:
  "idt (idt_init handler tsa idta trap_state_init) = map (intended_gate handler) [0..<256] \<and>
   gd_p (intended_gate handler n) = (if n \<in> {1..19} \<or> n = 48 then 1 else 0) \<and>
   gate_offset (intended_gate handler n) = (if n \<in> {1..19} \<or> n = 48 then handler n else 0) \<and>
   gd_dpl (intended_gate handler n) = (if n = 3 \<or> n = 48 then 3 else 0)"
proof -
  have "idt (idt_init handler tsa idta trap_state_init) = map (intended_gate handler) [0..<256]"
    by (rule idt_init_table)
  moreover have "gd_p (SETGATE istrap ss off dpl) = 1" "gd_dpl (SETGATE istrap ss off dpl) = ucast dpl"
    for istrap ss off dpl by (simp_all add: SETGATE_def)
  moreover have "gd_p zero_gate = 0" "gd_dpl zero_gate = 0" "gate_offset zero_gate = 0"
    by (simp_all add: zero_gate_def gate_offset_def)
  ultimately show ?thesis by (simp add: intended_gate_def)
qed

text \<open>The task state segment that idt_init installs is an available 32-bit TSS at the address
  of ts with the kernel stack in it, the other descriptors keep their values, and the task
  register selects it.\<close>

lemma idt_init_tss:
  "let s = idt_init handler tsa idta trap_state_init;
       d = segdesc_of (fst (segdesc_words (gdt s ! 5))) (snd (segdesc_words (gdt s ! 5)))
   in SEGDESC_BASE d = tsa \<and> seg_limit d = 104 \<and> seg_type d = 9 \<and> seg_s d = 0 \<and> seg_p d = 1 \<and>
      ts s = zero_Taskstate\<lparr>ts_esp0 := 0xefc00000, ts_ss0 := 0x10\<rparr> \<and> take 5 (gdt s) = take 5 gdt_init \<and>
      task_register s = 0x28"
proof -
  let ?s = "idt_init handler tsa idta trap_state_init"
  define d where "d = (SEG16 STS_T32A tsa 104 0)\<lparr>sd_s := 0\<rparr>"
  have g: "gdt ?s = gdt_init[5 := d]"
    by (simp add: idt_init_def set_gate_def trap_state_init_def Let_def gdt_init_def d_def)
  have rest: "ts ?s = zero_Taskstate\<lparr>ts_esp0 := 0xefc00000, ts_ss0 := 0x10\<rparr>" "task_register ?s = 0x28"
    by (simp_all add: idt_init_def set_gate_def trap_state_init_def Let_def)
  have base: "SEGDESC_BASE (segdesc_of (fst (segdesc_words d)) (snd (segdesc_words d))) = tsa" (is "?b = _")
  proof (rule bit_word_eqI)
    fix n :: nat assume "n < LENGTH(32)"
    then show "bit ?b n \<longleftrightarrow> bit tsa n" unfolding segdesc_of_words SEGDESC_BASE_def
      by (cases "24 \<le> n"; cases "16 \<le> n") (auto simp: d_def SEG16_def field_masks bit_simps)
  qed
  have fields: "seg_limit (segdesc_of (fst (segdesc_words d)) (snd (segdesc_words d))) = 104"
      "seg_type (segdesc_of (fst (segdesc_words d)) (snd (segdesc_words d))) = 9"
      "seg_s (segdesc_of (fst (segdesc_words d)) (snd (segdesc_words d))) = 0"
      "seg_p (segdesc_of (fst (segdesc_words d)) (snd (segdesc_words d))) = 1"
    by (simp_all add: segdesc_of_words d_def SEG16_def seg_limit_def)
  have "gdt ?s ! 5 = d" by (simp add: g gdt_init_def)
  then show ?thesis using base fields rest by (simp add: Let_def g)
qed

end
