(* ===== verification/Vt_Ept.thy ===== *)
theory Vt_Ept
  imports Vmcs Pmap_Page
begin

text \<open>
  \<^verbatim>\<open>hvm/vt_ept.c\<close> and the types of \<^verbatim>\<open>inc/hvm/vt_ept.h\<close>: the control word of the extended
  page tables and the walk that is to build their identity map. The walk is an exercise
  whose two \<^verbatim>\<open>panic\<close> stubs are part of the code and of the model; the index computation
  around them is complete. A table entry of 64 bits is two words of memory, the low one
  first.
\<close>

section \<open>Constants and bit fields\<close>

definition P2M_FULL_ACCESS :: u32 where [simp]: "P2M_FULL_ACCESS = 1 OR 2 OR 4"
definition P2M_UPDATE_ALL :: u32 where [simp]: "P2M_UPDATE_ALL = 7"
definition EPT_DEFAULT_MT :: u64 where [simp]: "EPT_DEFAULT_MT = 0"
definition EPT_DEFAULT_WL :: nat where [simp]: "EPT_DEFAULT_WL = 3"
definition EPT_TABLE_ORDER :: nat where [simp]: "EPT_TABLE_ORDER = 9"
definition EPT_EACHTABLE_ENTRIES :: u32 where [simp]: "EPT_EACHTABLE_ENTRIES = 512"

definition GFN :: "u32 \<Rightarrow> u32" where
  "GFN addr = drop_bit PAGESIZE_SHIFT addr"

text \<open>Assigning the bits \<open>i\<close> to \<open>i + n - 1\<close> of a 64-bit word, and reading them.\<close>

definition set_field :: "nat \<Rightarrow> nat \<Rightarrow> u64 \<Rightarrow> u64 \<Rightarrow> u64" where
  "set_field i n v w = (w AND NOT (push_bit i (mask n))) OR push_bit i (v AND mask n)"

definition get_field :: "nat \<Rightarrow> nat \<Rightarrow> u64 \<Rightarrow> u64" where
  "get_field i n w = drop_bit i w AND mask n"

definition set_ept_mt :: "u64 \<Rightarrow> u64 \<Rightarrow> u64" where "set_ept_mt = set_field 0 3"
definition set_ept_wl :: "u64 \<Rightarrow> u64 \<Rightarrow> u64" where "set_ept_wl = set_field 3 3"
definition set_asr :: "u64 \<Rightarrow> u64 \<Rightarrow> u64" where "set_asr = set_field 12 52"
definition get_mfn :: "u64 \<Rightarrow> u64" where "get_mfn = get_field 12 40"

section \<open>Building the tables\<close>

definition read_entry :: "u32 \<Rightarrow> u64 \<Rightarrow> 'a vm_scheme \<Rightarrow> u64" where
  "read_entry pt offset s =
     (let a = pt + 8 * ucast offset
      in ucast (mem s a) OR push_bit 32 (ucast (mem s (a + 4))))"

definition ept_mask :: "nat \<Rightarrow> u64" where
  "ept_mask level = push_bit ((level + 1) * EPT_TABLE_ORDER) 1 - 1"

definition ept_offset :: "nat \<Rightarrow> u32 \<Rightarrow> u64" where
  "ept_offset level gfn = drop_bit (level * EPT_TABLE_ORDER) (ucast gfn AND ept_mask level)"

text \<open>The loop over the entries of a last-level table: its body is a stub.\<close>

fun ept_fill :: "nat \<Rightarrow> 'a vm_scheme \<Rightarrow> 'a vm_scheme res" where
  "ept_fill 0 s = Inr s"
| "ept_fill (Suc n) s = Inl (Panic ''ept_update_identity_table not implemented'')"

fun ept_update_identity_table ::
    "u32 \<Rightarrow> nat \<Rightarrow> u32 \<Rightarrow> u32 \<Rightarrow> u32 \<Rightarrow> 'a vm_scheme \<Rightarrow> (bool \<times> 'a vm_scheme) res" where
  "ept_update_identity_table pt level gfn p2m_type op_type s =
     res_bind (check (gfn AND (EPT_EACHTABLE_ENTRIES - 1) = 0)
                 ''(gfn & (EPT_EACHTABLE_ENTRIES - 1))==0'') (\<lambda>_.
     let offset = ept_offset level gfn in
     case level of
       0 \<Rightarrow> res_bind (ept_fill (unat EPT_EACHTABLE_ENTRIES) s) (\<lambda>s. Inr (True, s))
     | Suc l \<Rightarrow>
         let ept_entry = read_entry pt offset s in
         if ept_entry = 0 then Inl (Panic ''ept_update_identity_table not implemented'')
         else
           let sub_pt_phys = push_bit PAGESIZE_SHIFT (get_mfn ept_entry) in
           res_bind (KADDR (ucast sub_pt_phys) s) (\<lambda>sub_pt_virt.
             ept_update_identity_table sub_pt_virt l gfn p2m_type op_type s))"

declare ept_update_identity_table.simps [simp del]

text \<open>The loop of \<^verbatim>\<open>ept_create_table\<close> over the frames below 4GB.\<close>

function ept_create_loop :: "u32 \<Rightarrow> u32 \<Rightarrow> 'a vm_scheme \<Rightarrow> 'a vm_scheme res" where
  "ept_create_loop pml4 gfn s =
     (if gfn < GFN 0xFFFFFFFF then
        res_bind (ept_update_identity_table pml4 EPT_DEFAULT_WL gfn P2M_FULL_ACCESS P2M_UPDATE_ALL s)
          (\<lambda>(ok, s1).
             if \<not> ok then Inl (Panic ''In ept_create_table'')
             else ept_create_loop pml4 (gfn + EPT_EACHTABLE_ENTRIES) s1)
      else Inr s)"
  by pat_completeness auto
termination
proof (relation "measure (\<lambda>(_, gfn, _). 0x100000 - unat gfn)")
  fix gfn :: u32
  assume "gfn < GFN 0xFFFFFFFF"
  then have "unat gfn < 0xFFFFF" by (simp add: GFN_def word_less_nat_alt)
  moreover from this have "unat (gfn + 512) = unat gfn + 512" by (subst unat_add_small) simp_all
  ultimately show "((pml4, gfn + EPT_EACHTABLE_ENTRIES, s1), pml4, gfn, s)
      \<in> measure (\<lambda>(_, gfn, _). 0x100000 - unat gfn)" for pml4 :: u32 and s s1 :: "'a vm_scheme"
    by simp
qed simp

declare ept_create_loop.simps [simp del]

definition ept_create_table :: "ppn \<Rightarrow> 'a vm_scheme \<Rightarrow> 'a vm_scheme res" where
  "ept_create_table ept_pml4_page s =
     res_bind (page2kva ept_pml4_page s) (\<lambda>virt. ept_create_loop virt 0 s)"

definition ept_setup :: "hv \<Rightarrow> hv res" where
  "ept_setup s =
     res_bind (page_alloc s) (\<lambda>(r, s1).
       case r of
         Inl e \<Rightarrow> Inl (Assertion ''error==0'')
       | Inr ept_pml4_page \<Rightarrow>
           res_bind (page2kva ept_pml4_page s1) (\<lambda>virt.
             let s2 = mem_zero virt PAGESIZE s1;
                 c = set_asr (ucast (GFN (page2pa ept_pml4_page)))
                       (set_ept_wl (of_nat EPT_DEFAULT_WL) (set_ept_mt EPT_DEFAULT_MT (g_ept_ctl s2)))
             in ept_create_table ept_pml4_page (s2\<lparr>g_ept_ctl := c\<rparr>)))"

section \<open>Bit fields are cells\<close>

lemma get_set_field:
  assumes "i + n \<le> 64" and "j + m \<le> 64" and "i + n \<le> j \<or> j + m \<le> i \<or> i = j \<and> n = m"
  shows "get_field j m (set_field i n v w) = (if i = j \<and> n = m then v AND mask n else get_field j m w)"
  by (rule bit_word_eqI) (use assms in \<open>auto simp: get_field_def set_field_def bit_simps\<close>)

section \<open>The index of a frame at each level\<close>

lemma ept_mask_eq: "level \<le> 6 \<Longrightarrow> ept_mask level = mask ((level + 1) * 9)"
  by (simp add: ept_mask_def mask_eq_exp_minus_1 push_bit_eq_mult)

lemma unat_ept_offset:
  assumes "level \<le> 6"
  shows "unat (ept_offset level gfn) = unat gfn div 512 ^ level mod 512"
proof -
  have u: "unat (ucast gfn :: u64) = unat gfn" using order.strict_trans [OF unat_lt_32, of 18446744073709551616 gfn]
    by (subst unsigned_ucast_eq, subst take_bit_nat_eq_self) simp_all
  have "unat (ept_offset level gfn) = unat gfn mod 2 ^ ((level + 1) * 9) div 2 ^ (level * 9)"
    unfolding ept_offset_def EPT_TABLE_ORDER_def ept_mask_eq [OF assms] unat_drop unat_and_mask u ..
  also have "(2 :: nat) ^ ((level + 1) * 9) = 512 ^ level * 512"
    by (simp add: power_add power_mult mult.commute [of level])
  also have "(2 :: nat) ^ (level * 9) = 512 ^ level"
    by (simp add: power_mult mult.commute [of level])
  finally show ?thesis by (simp add: mod_mult2_eq)
qed

lemma digits_512:
  "(g :: nat) = h1 * 512 + r0 \<Longrightarrow> h1 = h2 * 512 + r1 \<Longrightarrow> h2 = h3 * 512 + r2 \<Longrightarrow>
     r0 + 512 * r1 + 262144 * r2 + 134217728 * h3 = g"
  by simp

text \<open>The index used at a level is the 9-bit digit of the frame number at that level, so it
  stays inside a table of 512 entries, and the four digits give the frame number back.\<close>

lemma ept_offset_digits:
  "unat (ept_offset 0 gfn) + 512 * unat (ept_offset 1 gfn) + 512 ^ 2 * unat (ept_offset 2 gfn)
     + 512 ^ 3 * unat (ept_offset 3 gfn) = unat gfn \<and>
   list_all (\<lambda>l. unat (ept_offset l gfn) < 512) [0, 1, 2, 3]"
proof -
  define g where "g = unat gfn"
  define h1 where "h1 = g div 512"
  define h2 where "h2 = h1 div 512"
  define h3 where "h3 = h2 div 512"
  have h: "g div 512 = h1" "g div 262144 = h2" "g div 134217728 = h3"
    by (simp_all add: h1_def h2_def h3_def div_mult2_eq [symmetric])
  have "g div 134217728 mod 512 = g div 134217728"
    using unat_lt_32 [of gfn] unfolding g_def by (intro mod_less) linarith
  then have "h3 mod 512 = h3" by (simp only: h)
  moreover have "g = h1 * 512 + g mod 512" "h1 = h2 * 512 + h1 mod 512" "h2 = h3 * 512 + h2 mod 512"
    by (simp_all only: h1_def h2_def h3_def div_mult_mod_eq)
  ultimately have "g mod 512 + 512 * (h1 mod 512) + 262144 * (h2 mod 512) + 134217728 * (h3 mod 512) = g"
    using digits_512 by metis
  then show ?thesis by (simp add: unat_ept_offset h flip: g_def)
qed

text \<open>The stubs make every walk stop, at the first table entry that is not there or at the last
  level, or before that at an entry that names memory the machine does not have.\<close>

lemma ept_fill_stops: "0 < n \<Longrightarrow> ept_fill n s = Inl (Panic ''ept_update_identity_table not implemented'')"
  by (cases n) simp_all

lemma ept_update_stops: "\<exists>e. ept_update_identity_table pt level gfn t ty s = Inl e"
proof (induction level arbitrary: pt s)
  case 0
  have "ept_fill (unat EPT_EACHTABLE_ENTRIES) s =
      Inl (Panic ''ept_update_identity_table not implemented'')"
    by (rule ept_fill_stops) simp
  then show ?case
    by (cases "gfn AND (EPT_EACHTABLE_ENTRIES - 1) = 0")
      (simp_all add: ept_update_identity_table.simps [of _ 0])
next
  case (Suc l)
  show ?case
  proof (cases "gfn AND (EPT_EACHTABLE_ENTRIES - 1) = 0 \<and> read_entry pt (ept_offset (Suc l) gfn) s \<noteq> 0")
    case True
    define pa :: u32 where
      "pa = ucast (push_bit PAGESIZE_SHIFT (get_mfn (read_entry pt (ept_offset (Suc l) gfn) s)))"
    show ?thesis
      using True Suc.IH
      by (cases "KADDR pa s") (simp_all add: ept_update_identity_table.simps [of _ "Suc l"] pa_def)
  qed (cases "gfn AND (EPT_EACHTABLE_ENTRIES - 1) = 0",
      simp_all add: ept_update_identity_table.simps [of _ "Suc l"])
qed

text \<open>\<^verbatim>\<open>ept_setup\<close> never returns in this version of the code: with no free page its
  assertion fails, and otherwise the walk for frame 0 ends in one of the stubs.\<close>

lemma ept_setup_stops: "\<exists>e. ept_setup s = Inl e"
proof -
  have loop: "\<exists>e. ept_create_loop pml4 0 u = Inl e" for pml4 and u :: hv
  proof -
    obtain e where "ept_update_identity_table pml4 EPT_DEFAULT_WL 0 P2M_FULL_ACCESS P2M_UPDATE_ALL u = Inl e"
      using ept_update_stops by blast
    then show ?thesis by (subst ept_create_loop.simps) (simp add: GFN_def)
  qed
  have "\<exists>e. ept_create_table p u = Inl e" for p and u :: hv
    unfolding ept_create_table_def using loop by (rule res_bind_stops)
  then show ?thesis
    unfolding ept_setup_def Let_def
    by (intro res_bind_stops) (auto split: sum.split intro!: res_bind_stops)
qed

end
