(* ===== verification/Vt_Init.thy ===== *)
theory Vt_Init
  imports Vt_Regs Vt_Ept
begin

text \<open>
  \<^verbatim>\<open>hvm/vt_init.c\<close>: the check for VMX, entering VMX operation, and the contents of the VMCS.
  The exercises left in the code are calls of \<^verbatim>\<open>panic\<close>; they are modelled where they
  stand, with the code behind them, so nothing after them is reached. The sequences of
  \<^verbatim>\<open>vmwrite\<close> are lists of field and value in the order of the code.
\<close>

section \<open>Checking for VMX\<close>

text \<open>
  The loop at the label \<^verbatim>\<open>msr_enable_loop\<close>: it ends when the feature-control register is
  locked. The result is the value the function returns from here, \<open>None\<close> to go on.
\<close>

function msr_enable_loop :: "hv \<Rightarrow> int option \<times> hv" where
  "msr_enable_loop s =
     (let tmp = asm_rdmsr64 MSR_IA32_FEATURE_CONTROL s in
      if tmp AND MSR_IA32_FEATURE_CONTROL_LOCK_BIT \<noteq> 0 then
        if tmp AND MSR_IA32_FEATURE_CONTROL_VMXON_BIT \<noteq> 0 then (None, s) else (Some (-1), s)
      else
        msr_enable_loop (asm_wrmsr64 MSR_IA32_FEATURE_CONTROL
          (tmp OR MSR_IA32_FEATURE_CONTROL_VMXON_BIT OR MSR_IA32_FEATURE_CONTROL_LOCK_BIT) s))"
  by pat_completeness auto
termination
  by (relation "measure (\<lambda>s. if asm_rdmsr64 MSR_IA32_FEATURE_CONTROL s
        AND MSR_IA32_FEATURE_CONTROL_LOCK_BIT \<noteq> 0 then 0 else 1)")
    (auto simp: msr.get_put bit.conj_disj_distrib2 or_eq_0_iff)

declare msr_enable_loop.simps [simp del]

text \<open>What the rest of \<^verbatim>\<open>has_vmx\<close> reports: secondary controls, EPT, unrestricted guest.\<close>

definition vmx_capabilities :: "hv \<Rightarrow> bool \<times> bool \<times> bool" where
  "vmx_capabilities s =
     (let (low, high) = asm_rdmsr32 MSR_IA32_VMX_PROCBASED_CTLS s in
      if high AND VMCS_PROC_BASED_VMEXEC_CTL_ACTIVESECCTL_BIT \<noteq> 0 then
        let (low, high) = asm_rdmsr32 MSR_IA32_VMX_PROCBASED_CTLS2 s in
        (True, high AND SECONDARY_EXEC_ENABLE_EPT \<noteq> 0, high AND SECONDARY_EXEC_UNRESTRICTED_GUEST \<noteq> 0)
      else (False, False, False))"

definition has_vmx_tail :: "hv \<Rightarrow> int \<times> hv" where
  "has_vmx_tail s =
     (case msr_enable_loop s of
        (Some r, s1) \<Rightarrow> (r, s1)
      | (None, s1) \<Rightarrow> let report = vmx_capabilities s1 in (1, s1))"

definition has_vmx :: "hv \<Rightarrow> (int \<times> hv) res" where
  "has_vmx s = res_bind (panic ''has_vmx not implemented!'' :: unit res) (\<lambda>_. Inr (has_vmx_tail s))"

section \<open>Entering VMX operation\<close>

definition apply_fixed_bits :: "hv \<Rightarrow> hv" where
  "apply_fixed_bits s =
     (let cr0_0 = asm_rdmsr MSR_IA32_VMX_CR0_FIXED0 s; cr0_1 = asm_rdmsr MSR_IA32_VMX_CR0_FIXED1 s;
          cr4_0 = asm_rdmsr MSR_IA32_VMX_CR4_FIXED0 s; cr4_1 = asm_rdmsr MSR_IA32_VMX_CR4_FIXED1 s
      in s\<lparr>cr0 := (cr0 s AND cr0_1) OR cr0_0, cr4 := (cr4 s AND cr4_1) OR cr4_0\<rparr>)"

definition vmx_on :: "hv \<Rightarrow> hv res" where
  "vmx_on s =
     (let s1 = apply_fixed_bits s in
      res_bind (panic ''vmx_on not implemented'' :: unit res) (\<lambda>_. Inr s1))"

section \<open>The control fields\<close>

text \<open>
  \<open>procbased_ctls\<close> and \<open>procbased_ctls2\<close> are never assigned by the code (the exercise is to do
  so), so their values are arguments.
\<close>

definition ctl_writes :: "u32 \<Rightarrow> u32 \<Rightarrow> hv \<Rightarrow> (u32 \<times> u32) list" where
  "ctl_writes procbased_ctls procbased_ctls2 s =
    (let (pinbased_ctls_or, pinbased_ctls_and) = asm_rdmsr32 MSR_IA32_VMX_PINBASED_CTLS s;
         (procbased_ctls_or, procbased_ctls_and) = asm_rdmsr32 MSR_IA32_VMX_PROCBASED_CTLS s;
         (procbased_ctls2_or, procbased_ctls2_and) = asm_rdmsr32 MSR_IA32_VMX_PROCBASED_CTLS2 s;
         (exit_ctls_or, exit_ctls_and) = asm_rdmsr32 MSR_IA32_VMX_EXIT_CTLS s;
         (entry_ctls_or, entry_ctls_and) = asm_rdmsr32 MSR_IA32_VMX_ENTRY_CTLS s;
         procbased_ctls_or = procbased_ctls_or AND
           NOT (VMCS_PROC_BASED_VMEXEC_CTL_CR3LOADEXIT_BIT OR VMCS_PROC_BASED_VMEXEC_CTL_CR3STOREXIT_BIT)
     in [(VMCS_ADDR_IOBMP_A, 0xFFFFFFFF),
      (VMCS_ADDR_IOBMP_A_HIGH, 0xFFFFFFFF),
      (VMCS_ADDR_IOBMP_B, 0xFFFFFFFF),
      (VMCS_ADDR_IOBMP_B_HIGH, 0xFFFFFFFF),
      (VMCS_VMEXIT_MSRSTORE_ADDR, 0),
      (VMCS_VMEXIT_MSRSTORE_ADDR_HIGH, 0),
      (VMCS_VMEXIT_MSRLOAD_ADDR, 0),
      (VMCS_VMEXIT_MSRLOAD_ADDR_HIGH, 0),
      (VMCS_VMENTRY_MSRLOAD_ADDR, 0),
      (VMCS_VMENTRY_MSRLOAD_ADDR_HIGH, 0),
      (VMCS_EXEC_VMCS_POINTER, 0),
      (VMCS_EXEC_VMCS_POINTER_HIGH, 0),
      (VMCS_TSC_OFFSET, 0),
      (VMCS_TSC_OFFSET_HIGH, 0),
      (VMCS_EPT_POINTER, ucast (g_ept_ctl s)),
      (VMCS_EPT_POINTER_HIGH, ucast (drop_bit 32 (g_ept_ctl s))),
      (VMCS_PIN_BASED_VMEXEC_CTL, pinbased_ctls_or AND pinbased_ctls_and),
      (VMCS_PROC_BASED_VMEXEC_CTL, (procbased_ctls OR procbased_ctls_or) AND procbased_ctls_and),
      (VMCS_SECONDARY_VM_EXEC_CONTROL, (procbased_ctls2 OR procbased_ctls2_or) AND procbased_ctls2_and),
      (VMCS_EXCEPTION_BMP, 0),
      (VMCS_PAGEFAULT_ERRCODE_MASK, 0),
      (VMCS_PAGEFAULT_ERRCODE_MATCH, 0xFFFFFFFF),
      (VMCS_CR3_TARGET_COUNT, 1),
      (VMCS_VMEXIT_CTL, exit_ctls_or AND exit_ctls_and),
      (VMCS_VMEXIT_MSR_STORE_COUNT, 0),
      (VMCS_VMEXIT_MSR_LOAD_COUNT, 0),
      (VMCS_VMENTRY_CTL, entry_ctls_or AND entry_ctls_and),
      (VMCS_VMENTRY_MSR_LOAD_COUNT, 0),
      (VMCS_VMENTRY_INTR_INFO_FIELD, 0),
      (VMCS_VMENTRY_EXCEPTION_ERRCODE, 0),
      (VMCS_VMENTRY_INSTRUCTION_LEN, 0),
      (VMCS_TPR_THRESHOLD, 0),
      (VMCS_CR0_GUESTHOST_MASK, 0),
      (VMCS_CR4_GUESTHOST_MASK, 0),
      (VMCS_CR0_READ_SHADOW, 0),
      (VMCS_CR4_READ_SHADOW, 0),
      (VMCS_CR3_TARGET_VALUE_0, 0),
      (VMCS_CR3_TARGET_VALUE_1, 0),
      (VMCS_CR3_TARGET_VALUE_2, 0),
      (VMCS_CR3_TARGET_VALUE_3, 0)])"

definition set_vmcs_ctl :: "u32 \<Rightarrow> u32 \<Rightarrow> hv \<Rightarrow> hv res" where
  "set_vmcs_ctl procbased_ctls procbased_ctls2 s =
     res_bind (panic ''set_vmcs_ctl not implemented'' :: unit res)
       (\<lambda>_. Inr (write_all asm_vmwrite (ctl_writes procbased_ctls procbased_ctls2 s) s))"

section \<open>The host state\<close>

definition host_writes :: "regs_in_vmcs \<Rightarrow> (u32 \<times> u32) list" where
  "host_writes r =
     [(VMCS_HOST_ES_SEL, ucast (sel (riv_es r))),
      (VMCS_HOST_CS_SEL, ucast (sel (riv_cs r))),
      (VMCS_HOST_SS_SEL, ucast (sel (riv_ss r))),
      (VMCS_HOST_DS_SEL, ucast (sel (riv_ds r))),
      (VMCS_HOST_FS_SEL, ucast (sel (riv_fs r))),
      (VMCS_HOST_GS_SEL, ucast (sel (riv_gs r))),
      (VMCS_HOST_TR_SEL, ucast (sel (riv_tr r))),
      (VMCS_HOST_CR0, riv_cr0 r),
      (VMCS_HOST_CR3, riv_cr3 r),
      (VMCS_HOST_CR4, riv_cr4 r),
      (VMCS_HOST_FS_BASE, base (riv_fs r)),
      (VMCS_HOST_GS_BASE, base (riv_gs r)),
      (VMCS_HOST_TR_BASE, base (riv_tr r)),
      (VMCS_HOST_GDTR_BASE, desc_base (riv_gdtr r)),
      (VMCS_HOST_IDTR_BASE, desc_base (riv_idtr r)),
      (VMCS_HOST_RSP, 0xDEADBEEF),
      (VMCS_HOST_RIP, 0xDEADBEEF)]"

definition set_vmcs_host_state :: "host_cpu \<Rightarrow> hv \<Rightarrow> hv" where
  "set_vmcs_host_state c s = write_all asm_vmwrite (host_writes (vt_get_current_regs_host c s)) s"

section \<open>The guest state\<close>

definition guest_writes :: "(u32 \<times> u32) list" where
  "guest_writes =
     [(VMCS_GUEST_ES_SEL, 0),
      (VMCS_GUEST_CS_SEL, 0),
      (VMCS_GUEST_SS_SEL, 0),
      (VMCS_GUEST_DS_SEL, 0),
      (VMCS_GUEST_FS_SEL, 0),
      (VMCS_GUEST_GS_SEL, 0),
      (VMCS_GUEST_LDTR_SEL, 0),
      (VMCS_GUEST_TR_SEL, 0),
      (VMCS_VMCS_LINK_POINTER, 0xFFFFFFFF),
      (VMCS_VMCS_LINK_POINTER_HIGH, 0xFFFFFFFF),
      (VMCS_GUEST_IA32_DEBUGCTL, 0),
      (VMCS_GUEST_IA32_DEBUGCTL_HIGH, 0),
      (VMCS_GUEST_ES_LIMIT, 0xFFFF),
      (VMCS_GUEST_CS_LIMIT, 0xFFFF),
      (VMCS_GUEST_SS_LIMIT, 0xFFFF),
      (VMCS_GUEST_DS_LIMIT, 0xFFFF),
      (VMCS_GUEST_FS_LIMIT, 0xFFFF),
      (VMCS_GUEST_GS_LIMIT, 0xFFFF),
      (VMCS_GUEST_LDTR_LIMIT, 0xFFFF),
      (VMCS_GUEST_TR_LIMIT, 0xFFFF),
      (VMCS_GUEST_GDTR_LIMIT, 0x30),
      (VMCS_GUEST_IDTR_LIMIT, 0x3ff),
      (VMCS_GUEST_ES_ACCESS_RIGHTS, 0x93),
      (VMCS_GUEST_CS_ACCESS_RIGHTS, 0x93),
      (VMCS_GUEST_SS_ACCESS_RIGHTS, 0x93),
      (VMCS_GUEST_DS_ACCESS_RIGHTS, 0x93),
      (VMCS_GUEST_FS_ACCESS_RIGHTS, 0x93),
      (VMCS_GUEST_GS_ACCESS_RIGHTS, 0x93),
      (VMCS_GUEST_LDTR_ACCESS_RIGHTS, 0x82),
      (VMCS_GUEST_TR_ACCESS_RIGHTS, 0x8b),
      (VMCS_GUEST_INTERRUPTIBILITY_STATE, 0),
      (VMCS_GUEST_ACTIVITY_STATE, 0),
      (VMCS_GUEST_CR0, CR0_NE_BIT),
      (VMCS_GUEST_CR3, 0),
      (VMCS_GUEST_CR4, CR4_VMXE_BIT),
      (VMCS_GUEST_ES_BASE, 0),
      (VMCS_GUEST_CS_BASE, 0),
      (VMCS_GUEST_SS_BASE, 0),
      (VMCS_GUEST_DS_BASE, 0),
      (VMCS_GUEST_FS_BASE, 0),
      (VMCS_GUEST_GS_BASE, 0),
      (VMCS_GUEST_LDTR_BASE, 0),
      (VMCS_GUEST_TR_BASE, 0),
      (VMCS_GUEST_GDTR_BASE, 0),
      (VMCS_GUEST_IDTR_BASE, 0),
      (VMCS_GUEST_DR7, 0),
      (VMCS_GUEST_RSP, 0),
      (VMCS_GUEST_RIP, 0x7c00),
      (VMCS_GUEST_RFLAGS, RFLAGS_ALWAYS1_BIT),
      (VMCS_GUEST_PENDING_DEBUG_EXCEPTIONS, 0)]"

definition set_vmcs_guest_state :: "hv \<Rightarrow> hv" where
  "set_vmcs_guest_state s = write_all asm_vmwrite guest_writes s"

section \<open>Putting it together\<close>

definition vmcs_setup :: "host_cpu \<Rightarrow> u32 \<Rightarrow> u32 \<Rightarrow> hv \<Rightarrow> hv res" where
  "vmcs_setup c procbased_ctls procbased_ctls2 s =
     res_bind (panic ''vmcs_setup not implemented'' :: unit res) (\<lambda>_.
     res_bind (set_vmcs_ctl procbased_ctls procbased_ctls2 s) (\<lambda>s1.
       Inr (set_vmcs_guest_state (set_vmcs_host_state c s1))))"

definition vt_init :: "host_cpu \<Rightarrow> u32 \<Rightarrow> u32 \<Rightarrow> hv \<Rightarrow> hv res" where
  "vt_init c procbased_ctls procbased_ctls2 s =
     res_bind (vmx_on s) (\<lambda>s1. res_bind (ept_setup s1) (vmcs_setup c procbased_ctls procbased_ctls2))"

section \<open>Properties\<close>

lemma guest_writes_distinct: "distinct (map fst guest_writes)"
  and host_writes_distinct: "distinct (map fst (host_writes r))"
  by (simp_all add: guest_writes_def host_writes_def)

text \<open>The guest fields the code leaves alone.\<close>

definition unset_guest_fields :: "u32 list" where
  "unset_guest_fields = [VMCS_GUEST_SMBASE, VMCS_GUEST_IA32_SYSENTER_CS,
     VMCS_GUEST_IA32_SYSENTER_ESP, VMCS_GUEST_IA32_SYSENTER_EIP]"

text \<open>After \<^verbatim>\<open>set_vmcs_guest_state\<close> every field it writes holds the value written (no
  later write overwrites an earlier one), every other field and the rest of the machine
  are unchanged; the fields written are all guest-state fields of the header except the SMM
  base and the three SYSENTER fields; and the guest starts in real mode at 0000:7c00.\<close>

lemma guest_state_reset:
  "asm_vmread (set_vmcs_guest_state s) f =
     (case map_of guest_writes f of None \<Rightarrow> asm_vmread s f | Some v \<Rightarrow> v) \<and>
   set_vmcs_guest_state s = s\<lparr>vmcs := asm_vmread (set_vmcs_guest_state s)\<rparr> \<and>
   set (map fst guest_writes) =
     set (guest_w16_fields @ guest_w64_fields @ guest_w32_fields @ guest_nat_fields)
       - set unset_guest_fields \<and>
   asm_vmread (set_vmcs_guest_state s) VMCS_GUEST_CS_BASE = 0 \<and>
   asm_vmread (set_vmcs_guest_state s) VMCS_GUEST_RIP = 0x7c00 \<and>
   asm_vmread (set_vmcs_guest_state s) VMCS_GUEST_CR0 AND 1 = 0"
proof -
  have rd: "asm_vmread (set_vmcs_guest_state s) f =
      (case map_of guest_writes f of None \<Rightarrow> asm_vmread s f | Some v \<Rightarrow> v)" for f
    unfolding set_vmcs_guest_state_def
    by (rule vmcs.write_all_distinct [OF _ _ guest_writes_distinct]) simp_all
  moreover have "set (map fst guest_writes) =
      set (guest_w16_fields @ guest_w64_fields @ guest_w32_fields @ guest_nat_fields)
        - set unset_guest_fields"
    by (simp add: guest_writes_def field_group_defs unset_guest_fields_def insert_Diff_if)
  moreover have "map_of guest_writes VMCS_GUEST_CS_BASE = Some 0"
    "map_of guest_writes VMCS_GUEST_RIP = Some 0x7c00"
    "map_of guest_writes VMCS_GUEST_CR0 = Some 0x20"
    by (simp_all add: guest_writes_def)
  ultimately show ?thesis
    using write_vmcs [of guest_writes s] by (simp add: set_vmcs_guest_state_def)
qed

text \<open>After \<^verbatim>\<open>set_vmcs_host_state\<close> the host fields hold the registers the processor
  reported: the seven selectors, the control registers, the bases of FS, GS and TR as found in
  the descriptor table, and the bases of the GDT and IDT. The stack pointer and the
  instruction pointer hold a marker (the entry code sets them on every entry), every other
  field keeps its value, and only the SYSENTER host fields are never written.\<close>

lemma host_state_current:
  fixes c :: host_cpu and s :: hv
  defines "s' \<equiv> set_vmcs_host_state c s"
  shows "map (asm_vmread s') host_w16_fields =
      map ucast [rd_es c, rd_cs c, rd_ss c, rd_ds c, rd_fs c, rd_gs c, rd_tr c] \<and>
    map (asm_vmread s') (take 3 host_nat_fields) = [cr0 s, cr3 s, cr4 s] \<and>
    map (asm_vmread s') (take 3 (drop 3 host_nat_fields)) =
      map (\<lambda>x. get_seg_base (fst (rd_gdtr c)) (rd_ldtr c) x s) [rd_fs c, rd_gs c, rd_tr c] \<and>
    map (asm_vmread s') (take 2 (drop 6 host_nat_fields)) = [fst (rd_gdtr c), fst (rd_idtr c)] \<and>
    map (asm_vmread s') (drop 10 host_nat_fields) = [0xDEADBEEF, 0xDEADBEEF] \<and>
    (if f \<in> set (host_w16_fields @ take 8 host_nat_fields @ drop 10 host_nat_fields) then True
     else asm_vmread s' f = asm_vmread s f) \<and>
    s' = s\<lparr>vmcs := asm_vmread s'\<rparr>"
proof -
  define r where "r = vt_get_current_regs_host c s"
  have rd: "asm_vmread s' f = (case map_of (host_writes r) f of None \<Rightarrow> asm_vmread s f | Some v \<Rightarrow> v)" for f
    unfolding s'_def set_vmcs_host_state_def r_def
    by (rule vmcs.write_all_distinct [OF _ _ host_writes_distinct]) simp_all
  have dom: "set (map fst (host_writes r)) =
      set (host_w16_fields @ take 8 host_nat_fields @ drop 10 host_nat_fields)"
    by (simp add: host_writes_def field_group_defs)
  have frame: "asm_vmread s' f = asm_vmread s f"
    if "f \<notin> set (host_w16_fields @ take 8 host_nat_fields @ drop 10 host_nat_fields)"
  proof -
    have "map_of (host_writes r) f = None"
      using that unfolding dom [symmetric] by (simp add: map_of_eq_None_iff)
    then show ?thesis by (simp add: rd)
  qed
  have s': "s' = s\<lparr>vmcs := asm_vmread s'\<rparr>"
    using write_vmcs [of "host_writes r" s] by (simp add: s'_def set_vmcs_host_state_def r_def)
  show ?thesis
    using frame s'
    by (simp add: rd host_writes_def field_group_defs r_def vt_get_current_regs_host_def host_sreg_def)
qed

text \<open>The loop of \<^verbatim>\<open>has_vmx\<close> that enables VMXON ends after at most one write: it leaves the
  register alone when it is locked, and otherwise sets both the lock bit and the VMXON bit;
  in every case the register ends up locked, and the check fails exactly when it was locked
  without VMXON.\<close>

lemma msr_enable_loop_spec:
  "msr_enable_loop s =
     (let v = asm_rdmsr64 MSR_IA32_FEATURE_CONTROL s in
      if v AND 1 = 0 then (None, asm_wrmsr64 MSR_IA32_FEATURE_CONTROL (v OR 5) s)
      else (if v AND 4 = 0 then Some (-1) else None, s)) \<and>
   asm_rdmsr64 MSR_IA32_FEATURE_CONTROL (snd (msr_enable_loop s)) AND 1 \<noteq> 0"
proof -
  define v where "v = asm_rdmsr64 MSR_IA32_FEATURE_CONTROL s"
  have or5: "v OR 4 OR 1 = v OR 5" by (simp add: or.assoc)
  have bits: "(v OR 5) AND 1 \<noteq> 0" "(v OR 5) AND 4 \<noteq> 0"
    by (simp_all add: bit.conj_disj_distrib2 or_eq_0_iff)
  have stop: "msr_enable_loop u = (if asm_rdmsr64 MSR_IA32_FEATURE_CONTROL u AND 4 = 0 then Some (-1) else None, u)"
    if "asm_rdmsr64 MSR_IA32_FEATURE_CONTROL u AND 1 \<noteq> 0" for u
    using that by (subst msr_enable_loop.simps) (simp add: Let_def)
  show ?thesis
  proof (cases "v AND 1 = 0")
    case True
    define s1 where "s1 = asm_wrmsr64 MSR_IA32_FEATURE_CONTROL (v OR 5) s"
    have rd: "asm_rdmsr64 MSR_IA32_FEATURE_CONTROL s1 = v OR 5"
      by (simp add: s1_def msr.get_put)
    have "msr_enable_loop s = msr_enable_loop s1"
      using True or5 by (subst msr_enable_loop.simps) (simp add: Let_def v_def s1_def)
    also have "\<dots> = (None, s1)" using stop [of s1] bits unfolding rd by simp
    finally show ?thesis using True bits rd by (simp add: v_def s1_def)
  next
    case False
    then show ?thesis using stop [of s] by (simp add: v_def)
  qed
qed

text \<open>The control registers \<^verbatim>\<open>vmx_on\<close> computes satisfy the fixed-bit constraints of VMX
  operation: every bit the processor requires to be 1 is 1 and every bit it requires to be 0
  is 0, provided no bit is required to be both.\<close>

lemma fixed_bits_applied:
  assumes "asm_rdmsr MSR_IA32_VMX_CR0_FIXED0 s AND NOT (asm_rdmsr MSR_IA32_VMX_CR0_FIXED1 s) = 0"
    and "asm_rdmsr MSR_IA32_VMX_CR4_FIXED0 s AND NOT (asm_rdmsr MSR_IA32_VMX_CR4_FIXED1 s) = 0"
  shows "asm_rdmsr MSR_IA32_VMX_CR0_FIXED0 s AND NOT (cr0 (apply_fixed_bits s)) = 0 \<and>
    cr0 (apply_fixed_bits s) AND NOT (asm_rdmsr MSR_IA32_VMX_CR0_FIXED1 s) = 0 \<and>
    asm_rdmsr MSR_IA32_VMX_CR4_FIXED0 s AND NOT (cr4 (apply_fixed_bits s)) = 0 \<and>
    cr4 (apply_fixed_bits s) AND NOT (asm_rdmsr MSR_IA32_VMX_CR4_FIXED1 s) = 0"
proof -
  have "f0 AND NOT ((x AND f1) OR f0) = 0 \<and> ((x AND f1) OR f0) AND NOT f1 = 0"
    if "f0 AND NOT f1 = 0" for x f0 f1 :: u32
    using that by (auto simp: bit_eq_iff bit_simps)
  then show ?thesis using assms by (simp add: apply_fixed_bits_def Let_def)
qed

lemma fixed_bits_applied_witness:
  "\<exists>s. asm_rdmsr MSR_IA32_VMX_CR0_FIXED0 s = 0x80000021 \<and>
     0x80000021 AND NOT (cr0 (apply_fixed_bits s)) = 0"
proof -
  define s where "s = blank_hv\<lparr>msr := (\<lambda>n. if n = 0x486 then 0x80000021 else if n = 0x487 then 0xFFFFFFFF
     else if n = 0x488 then 0x2000 else 0x27FF)\<rparr>"
  have rd: "asm_rdmsr MSR_IA32_VMX_CR0_FIXED0 s = 0x80000021" "asm_rdmsr MSR_IA32_VMX_CR0_FIXED1 s = 0xFFFFFFFF"
    "asm_rdmsr MSR_IA32_VMX_CR4_FIXED0 s = 0x2000" "asm_rdmsr MSR_IA32_VMX_CR4_FIXED1 s = 0x27FF"
    by (simp_all add: asm_rdmsr_def asm_rdmsr32_def s_def)
  show ?thesis using fixed_bits_applied [of s] rd by auto
qed

end
