(* ===== verification/Vt.thy ===== *)
theory Vt
  imports Vt_Init
begin

text \<open>
  \<^verbatim>\<open>hvm/vt.c\<close>: handling the exits of the guest, and the loop of \<^verbatim>\<open>vt_main\<close>. Running the
  guest is the argument \<open>launch\<close> (or \<open>resume\<close>): from a state it gives the return value of
  the assembly routine, 0 when the guest ran and exited, and the state at the exit. The
  \<^verbatim>\<open>cpuid\<close> instruction is the argument \<open>cpuid\<close>. The messages are not modelled. The loop ends
  only when the guest signals INIT, so it is a partial function, \<open>None\<close> when it runs forever.
\<close>

section \<open>Handlers\<close>

datatype vt_status = VT_VMENTRY_SUCCESS | VT_VMENTRY_FAILED | VT_VMEXIT

type_synonym cpuid_fun = "u32 \<Rightarrow> u32 \<times> u32 \<times> u32 \<times> u32"
type_synonym run_fun = "hv \<Rightarrow> int \<times> hv"

definition do_ept_violation :: "hv \<Rightarrow> hv res" where
  "do_ept_violation s = panic ''EPT_Violation''"

definition do_ept_misconfig :: "hv \<Rightarrow> hv res" where
  "do_ept_misconfig s = panic ''EPT_Misconfig''"

definition add_ip :: "hv \<Rightarrow> hv" where
  "add_ip s =
     (let ip = asm_vmread s VMCS_GUEST_RIP;
          len = asm_vmread s VMCS_VMEXIT_INSTRUCTION_LEN
      in asm_vmwrite VMCS_GUEST_RIP (ip + len) s)"

definition do_cpuid :: "cpuid_fun \<Rightarrow> hv \<Rightarrow> hv res" where
  "do_cpuid cpuid s =
     res_bind (vt_read_general_reg GENERAL_REG_RAX s) (\<lambda>la.
     let s0 = (if la = 0xFeedCafe then s else s);
         ia = la;
         (oa, ob, oc, od) = cpuid ia;
         oc = (if ia = CPUID_1 then oc AND NOT CPUID_1_ECX_VMX_BIT else oc)
     in res_bind (vt_write_general_reg GENERAL_REG_RAX oa s0) (\<lambda>s1.
        res_bind (vt_write_general_reg GENERAL_REG_RBX ob s1) (\<lambda>s2.
        res_bind (vt_write_general_reg GENERAL_REG_RCX oc s2) (\<lambda>s3.
        res_bind (vt_write_general_reg GENERAL_REG_RDX od s3) (\<lambda>s4.
          Inr (add_ip s4))))))"

definition vt_exit_reason :: "cpuid_fun \<Rightarrow> hv \<Rightarrow> (bool \<times> hv) res" where
  "vt_exit_reason cpuid s =
     (let exit_reason = asm_vmread s VMCS_EXIT_REASON in
      if exit_reason AND EXIT_REASON_VMENTRY_FAILURE_BIT \<noteq> 0 then
        panic ''VMEntry failure(EXIT_REASON, EXIT_QUALIFICATION): %lx, %lx''
      else
        let code = exit_reason AND EXIT_REASON_MASK in
        if code = EXIT_REASON_CPUID then res_bind (do_cpuid cpuid s) (\<lambda>s. Inr (True, s))
        else if code = EXIT_REASON_EPT_VIOLATION then
          res_bind (do_ept_violation s) (\<lambda>s. Inr (True, s))
        else if code = EXIT_REASON_EPT_MISCONFIG then
          res_bind (do_ept_misconfig s) (\<lambda>s. Inr (True, s))
        else if code = EXIT_REASON_INIT_SIGNAL then Inr (False, s)
        else panic ''Fatal error: handler not implemented. code:%ld, ip:%#lx'')"

section \<open>Running the guest\<close>

definition vt_vmlaunch :: "run_fun \<Rightarrow> hv \<Rightarrow> vt_status \<times> hv" where
  "vt_vmlaunch launch s =
     (let (r, s1) = launch s in if r \<noteq> 0 then (VT_VMENTRY_FAILED, s1) else (VT_VMEXIT, s1))"

definition vt_vmresume :: "run_fun \<Rightarrow> hv \<Rightarrow> vt_status \<times> hv" where
  "vt_vmresume resume s =
     (let (r, s1) = resume s in if r \<noteq> 0 then (VT_VMENTRY_FAILED, s1) else (VT_VMEXIT, s1))"

definition vt_first_run :: "run_fun \<Rightarrow> hv \<Rightarrow> hv res" where
  "vt_first_run launch s =
     (let (status, s1) = vt_vmlaunch launch s in
      if status \<noteq> VT_VMEXIT then
        if status = VT_VMENTRY_FAILED then panic ''Fatal error: VM launch failed. Error Code: %ld''
        else panic ''Fatal error: Strange status.''
      else Inr s1)"

definition vt_run :: "run_fun \<Rightarrow> hv \<Rightarrow> hv res" where
  "vt_run resume s =
     (let (status, s1) = vt_vmresume resume s in
      if status \<noteq> VT_VMEXIT then
        if status = VT_VMENTRY_FAILED then panic ''Fatal error: VM resume failed.''
        else panic ''Fatal error: Strange status.''
      else Inr s1)"

partial_function (option) vt_loop :: "run_fun \<Rightarrow> cpuid_fun \<Rightarrow> hv \<Rightarrow> hv res option" where
  "vt_loop resume cpuid s =
     (case vt_exit_reason cpuid s of
        Inl e \<Rightarrow> Some (Inl e)
      | Inr (again, s1) \<Rightarrow>
          if again then
            case vt_run resume s1 of
              Inl e \<Rightarrow> Some (Inl e)
            | Inr s2 \<Rightarrow> vt_loop resume cpuid s2
          else Some (Inr s1))"

definition vt_run_guest :: "run_fun \<Rightarrow> run_fun \<Rightarrow> cpuid_fun \<Rightarrow> hv \<Rightarrow> hv res option" where
  "vt_run_guest launch resume cpuid s =
     (case vt_first_run launch s of Inl e \<Rightarrow> Some (Inl e) | Inr s1 \<Rightarrow> vt_loop resume cpuid s1)"

definition vt_main ::
    "host_cpu \<Rightarrow> u32 \<Rightarrow> u32 \<Rightarrow> run_fun \<Rightarrow> run_fun \<Rightarrow> cpuid_fun \<Rightarrow> hv \<Rightarrow> hv res option" where
  "vt_main c procbased_ctls procbased_ctls2 launch resume cpuid s =
     (case vt_init c procbased_ctls procbased_ctls2 s of
        Inl e \<Rightarrow> Some (Inl e)
      | Inr s1 \<Rightarrow> vt_run_guest launch resume cpuid s1)"

section \<open>Handling \<^verbatim>\<open>cpuid\<close>\<close>

lemma do_cpuid_eq:
  assumes "cpuid (rax (vr s)) = (oa, ob, oc, od)"
  shows "do_cpuid cpuid s = Inr (add_ip (s\<lparr>vr := (vr s)
    \<lparr>rax := oa, rbx := ob, rcx := (if rax (vr s) = CPUID_1 then oc AND NOT CPUID_1_ECX_VMX_BIT else oc),
     rdx := od\<rparr>\<rparr>))"
  using assms by (simp add: do_cpuid_def Let_def)

text \<open>C15: \<^verbatim>\<open>do_cpuid\<close> answers with the four registers of the real instruction, except that leaf 1
  never shows VMX; it moves the guest's instruction pointer behind the instruction, and leaves
  every other register, every other VMCS field and the rest of the machine alone.\<close>

theorem do_cpuid_spec:
  "\<exists>s'. do_cpuid cpuid s = Inr s' \<and>
     (case cpuid (rax (vr s)) of (oa, ob, oc, od) \<Rightarrow>
        vr s' = (vr s)\<lparr>rax := oa, rbx := ob, rdx := od,
                  rcx := (if rax (vr s) = 1 then oc AND NOT 0x20 else oc)\<rparr>) \<and>
     vmcs s' = (vmcs s)(VMCS_GUEST_RIP :=
        asm_vmread s VMCS_GUEST_RIP + asm_vmread s VMCS_VMEXIT_INSTRUCTION_LEN) \<and>
     \<not> (rax (vr s) = 1 \<and> bit (rcx (vr s')) 5) \<and>
     s' = s\<lparr>vr := vr s', vmcs := vmcs s'\<rparr>"
proof -
  obtain oa ob oc od where c: "cpuid (rax (vr s)) = (oa, ob, oc, od)" by (metis prod.exhaust)
  have "\<not> bit (oc AND NOT 0x20) 5" by (simp add: bit_simps bit_numeral_rec)
  then show ?thesis
    using c by (simp add: do_cpuid_eq [where cpuid = cpuid, OF c] add_ip_def asm_vmwrite_def asm_vmread_def)
qed

section \<open>Exits\<close>

lemma vt_exit_reason_dispatch:
  "case vt_exit_reason cpuid s of
     Inr (again, s1) \<Rightarrow>
       asm_vmread s VMCS_EXIT_REASON AND 0x80000000 = 0 \<and>
       asm_vmread s VMCS_EXIT_REASON AND 0xFFFF = (if again then 10 else 3) \<and>
       (if again then do_cpuid cpuid s = Inr s1 else s1 = s)
   | Inl e \<Rightarrow> (\<exists>msg. e = Panic msg) \<and>
       (asm_vmread s VMCS_EXIT_REASON AND 0x80000000 = 0 \<longrightarrow>
        asm_vmread s VMCS_EXIT_REASON AND 0xFFFF \<notin> {3, 10})"
proof -
  obtain s1 where "do_cpuid cpuid s = Inr s1"
    using do_cpuid_eq [where cpuid = cpuid and s = s] by (metis prod.exhaust)
  then show ?thesis
    by (simp add: vt_exit_reason_def Let_def panic_def do_ept_violation_def do_ept_misconfig_def)
qed

text \<open>C16: The dispatch on the exit reason: the loop goes on exactly after a \<^verbatim>\<open>cpuid\<close> exit that
  was handled, it ends exactly at an INIT signal, without touching the state, and every other
  exit (a failed entry, the two EPT exits, an unknown reason) panics.\<close>

theorem vt_exit_reason_cases:
  "case vt_exit_reason cpuid s of
     Inr (again, s1) \<Rightarrow>
       asm_vmread s VMCS_EXIT_REASON AND 0x80000000 = 0 \<and>
       asm_vmread s VMCS_EXIT_REASON AND 0xFFFF = (if again then 10 else 3) \<and>
       (if again then do_cpuid cpuid s = Inr s1 else s1 = s)
   | Inl e \<Rightarrow> (\<exists>msg. e = Panic msg) \<and>
       (if asm_vmread s VMCS_EXIT_REASON AND 0x80000000 = 0
        then asm_vmread s VMCS_EXIT_REASON AND 0xFFFF \<notin> {3, 10} else True)"
  using vt_exit_reason_dispatch [where cpuid = cpuid and s = s]
  by (auto split: sum.splits)

section \<open>The loop\<close>

text \<open>One turn of the loop: an exit is handled and the guest runs to its next exit.\<close>

inductive vm_step :: "run_fun \<Rightarrow> cpuid_fun \<Rightarrow> hv \<Rightarrow> hv \<Rightarrow> bool" for resume cpuid where
  turn: "vt_exit_reason cpuid s = Inr (True, s1) \<Longrightarrow> vt_run resume s1 = Inr s2 \<Longrightarrow>
           vm_step resume cpuid s s2"

inductive_simps vm_step_iff: "vm_step resume cpuid s s2"

lemma vm_step_loop:
  "vm_step resume cpuid s s2 \<Longrightarrow> vt_loop resume cpuid s = vt_loop resume cpuid s2"
  by (subst vt_loop.simps) (auto simp: vm_step_iff)

lemma vm_steps_loop:
  "(vm_step resume cpuid)\<^sup>*\<^sup>* s t \<Longrightarrow> vt_loop resume cpuid s = vt_loop resume cpuid t"
  by (induction rule: rtranclp_induct) (auto dest: vm_step_loop)

text \<open>A state without a next turn: the loop stops there.\<close>

definition loop_result :: "run_fun \<Rightarrow> cpuid_fun \<Rightarrow> hv \<Rightarrow> hv res option" where
  "loop_result resume cpuid s =
     (case vt_exit_reason cpuid s of
        Inl e \<Rightarrow> Some (Inl e)
      | Inr (again, s1) \<Rightarrow>
          if again then (case vt_run resume s1 of Inl e \<Rightarrow> Some (Inl e) | Inr s2 \<Rightarrow> None)
          else Some (Inr s1))"

lemma loop_result_None: "loop_result resume cpuid s = None \<longleftrightarrow> (\<exists>s2. vm_step resume cpuid s s2)"
  by (auto simp: loop_result_def vm_step_iff split: sum.splits)

lemma loop_result_Some: "loop_result resume cpuid s = Some r \<Longrightarrow> vt_loop resume cpuid s = Some r"
  by (subst vt_loop.simps) (auto simp: loop_result_def split: sum.splits if_splits)

lemma vt_loop_stops:
  assumes "vt_loop resume cpuid s = Some r"
  shows "\<exists>t. (vm_step resume cpuid)\<^sup>*\<^sup>* s t \<and> loop_result resume cpuid t = Some r"
  using assms
proof (rule vt_loop.raw_induct [rotated])
  fix loop resume cpuid s r
  assume IH: "\<And>resume cpuid s r. loop resume cpuid s = Some r \<Longrightarrow>
      \<exists>t. (vm_step resume cpuid)\<^sup>*\<^sup>* s t \<and> loop_result resume cpuid t = Some r"
    and run: "(case vt_exit_reason cpuid s of
        Inl e \<Rightarrow> Some (Inl e)
      | Inr (again, s1) \<Rightarrow>
          if again then case vt_run resume s1 of Inl e \<Rightarrow> Some (Inl e) | Inr s2 \<Rightarrow> loop resume cpuid s2
          else Some (Inr s1)) = Some r"
  show "\<exists>t. (vm_step resume cpuid)\<^sup>*\<^sup>* s t \<and> loop_result resume cpuid t = Some r"
  proof (cases "loop_result resume cpuid s")
    case (Some r')
    then have "r' = r"
      using run by (auto simp: loop_result_def split: sum.splits if_splits)
    with Some show ?thesis by blast
  next
    case None
    then obtain s1 s2 where s2: "vt_exit_reason cpuid s = Inr (True, s1)" "vt_run resume s1 = Inr s2"
      by (auto simp: loop_result_None vm_step_iff)
    then have "loop resume cpuid s2 = Some r" using run by simp
    from IH [OF this] obtain t
      where "(vm_step resume cpuid)\<^sup>*\<^sup>* s2 t" "loop_result resume cpuid t = Some r" by blast
    with s2 show ?thesis by (meson converse_rtranclp_into_rtranclp turn)
  qed
qed

lemma loop_returns:
  "vt_loop resume cpuid s = Some r \<longleftrightarrow>
     (\<exists>t. (vm_step resume cpuid)\<^sup>*\<^sup>* s t \<and> loop_result resume cpuid t = Some r)"
  using vt_loop_stops vm_steps_loop loop_result_Some by metis

lemma loop_diverges:
  "vt_loop resume cpuid s = None \<longleftrightarrow> (\<forall>t. (vm_step resume cpuid)\<^sup>*\<^sup>* s t \<longrightarrow> (\<exists>u. vm_step resume cpuid t u))"
  using loop_returns [of resume cpuid s] loop_result_None [of resume cpuid] by (metis not_None_eq)

section \<open>What a guest makes of the loop\<close>

text \<open>
  The exits by their numbers in the processor's manual, and the state in which a \<^verbatim>\<open>cpuid\<close> exit leaves
  the machine: the four answers, the VMX bit of leaf 1 cleared, and the guest's instruction
  pointer (field 0x681E) behind the instruction, whose length is field 0x440C.
\<close>

definition exits_with :: "u32 \<Rightarrow> hv \<Rightarrow> bool" where
  "exits_with n s \<longleftrightarrow> \<not> bit (vmcs s 0x4402) 31 \<and> take_bit 16 (vmcs s 0x4402) = n"

definition answered :: "cpuid_fun \<Rightarrow> hv \<Rightarrow> hv" where
  "answered cpuid s =
     (case cpuid (rax (vr s)) of (a, b, c, d) \<Rightarrow>
        s\<lparr>vr := (vr s)\<lparr>rax := a, rbx := b, rcx := (if rax (vr s) = 1 then unset_bit 5 c else c), rdx := d\<rparr>,
          vmcs := (vmcs s)(0x681E := vmcs s 0x681E + vmcs s 0x440C)\<rparr>)"

text \<open>One turn of the guest: a \<^verbatim>\<open>cpuid\<close> exit that is answered, after which the guest could be resumed.\<close>

inductive cpuid_turn :: "run_fun \<Rightarrow> cpuid_fun \<Rightarrow> hv \<Rightarrow> hv \<Rightarrow> bool" for resume cpuid where
  turn: "exits_with 10 s \<Longrightarrow> resume (answered cpuid s) = (0, t) \<Longrightarrow> cpuid_turn resume cpuid s t"

inductive_simps cpuid_turn_iff: "cpuid_turn resume cpuid s t"

lemma failure_bit: "w AND EXIT_REASON_VMENTRY_FAILURE_BIT = 0 \<longleftrightarrow> \<not> bit w 31"
  using and_exp_eq_0_iff_not_bit [of w 31] by simp

lemma exits_with_iff:
  "exits_with n s \<longleftrightarrow> asm_vmread s VMCS_EXIT_REASON AND EXIT_REASON_VMENTRY_FAILURE_BIT = 0 \<and>
     asm_vmread s VMCS_EXIT_REASON AND EXIT_REASON_MASK = n"
  unfolding failure_bit by (simp add: exits_with_def asm_vmread_def take_bit_eq_mask mask_eq_exp_minus_1)

lemma answered_eq: "do_cpuid cpuid s = Inr (answered cpuid s)"
proof -
  obtain a b c d where q: "cpuid (rax (vr s)) = (a, b, c, d)" by (metis prod.exhaust)
  have "c AND NOT 0x20 = unset_bit 5 c" by (simp add: unset_bit_eq_and_not)
  then show ?thesis by (simp add: do_cpuid_eq [where cpuid = cpuid, OF q] answered_def q add_ip_def asm_vmwrite_def asm_vmread_def)
qed

lemma exit_cases:
  "vt_exit_reason cpuid s =
    (if bit (vmcs s 0x4402) 31 then Inl (Panic ''VMEntry failure(EXIT_REASON, EXIT_QUALIFICATION): %lx, %lx'')
     else if exits_with 10 s then Inr (True, answered cpuid s)
     else if exits_with 48 s then Inl (Panic ''EPT_Violation'')
     else if exits_with 49 s then Inl (Panic ''EPT_Misconfig'')
     else if exits_with 3 s then Inr (False, s)
     else Inl (Panic ''Fatal error: handler not implemented. code:%ld, ip:%#lx''))"
proof -
  have "bit (vmcs s 0x4402) 31 \<longleftrightarrow> asm_vmread s VMCS_EXIT_REASON AND EXIT_REASON_VMENTRY_FAILURE_BIT \<noteq> 0"
    unfolding failure_bit by (simp add: asm_vmread_def)
  then show ?thesis
    by (simp add: vt_exit_reason_def Let_def exits_with_iff answered_eq panic_def do_ept_violation_def do_ept_misconfig_def)
qed

lemma vt_first_run_eq:
  "vt_first_run launch s = (if fst (launch s) = 0 then Inr (snd (launch s))
     else Inl (Panic ''Fatal error: VM launch failed. Error Code: %ld''))"
  by (simp add: vt_first_run_def vt_vmlaunch_def panic_def case_prod_beta Let_def)

lemma vt_run_eq:
  "vt_run resume s = (if fst (resume s) = 0 then Inr (snd (resume s)) else Inl (Panic ''Fatal error: VM resume failed.''))"
  by (simp add: vt_run_def vt_vmresume_def panic_def case_prod_beta Let_def)

lemma vm_step_cpuid_turn: "vm_step resume cpuid = cpuid_turn resume cpuid"
proof (intro ext)
  fix s t
  have "vt_exit_reason cpuid s = Inr (True, u) \<longleftrightarrow> exits_with 10 s \<and> u = answered cpuid s" for u
    by (auto simp: exit_cases exits_with_def)
  then show "vm_step resume cpuid s t = cpuid_turn resume cpuid s t"
    by (auto simp: vm_step_iff cpuid_turn_iff vt_run_eq prod_eq_iff split: if_splits)
qed

lemma vt_run_guest_eq:
  "vt_run_guest launch resume cpuid s =
     (if fst (launch s) = 0 then vt_loop resume cpuid (snd (launch s))
      else Some (Inl (Panic ''Fatal error: VM launch failed. Error Code: %ld'')))"
  by (simp add: vt_run_guest_def vt_first_run_eq)

lemma guest_result:
  "vt_run_guest launch resume cpuid s = Some (Inr t) \<longleftrightarrow>
     (\<exists>s1. launch s = (0, s1) \<and> (\<exists>u. (cpuid_turn resume cpuid)\<^sup>*\<^sup>* s1 u \<and> loop_result resume cpuid u = Some (Inr t)))"
  "vt_run_guest launch resume cpuid s = Some (Inl e) \<longleftrightarrow>
     fst (launch s) \<noteq> 0 \<and> e = Panic ''Fatal error: VM launch failed. Error Code: %ld'' \<or>
     (\<exists>s1. launch s = (0, s1) \<and> (\<exists>u. (cpuid_turn resume cpuid)\<^sup>*\<^sup>* s1 u \<and> loop_result resume cpuid u = Some (Inl e)))"
  by (cases "launch s"; auto simp: vt_run_guest_eq loop_returns vm_step_cpuid_turn)+

text \<open>C27: The guest's run, from the launch on, comes to an end exactly when the guest signals INIT (exit
  reason 3) after some number of \<^verbatim>\<open>cpuid\<close> exits (exit reason 10), each of which was answered and
  followed by a resume that succeeded; and it ends in the state of that exit.\<close>

theorem guest_stops:
  "vt_run_guest launch resume cpuid s = Some (Inr t) \<longleftrightarrow>
     (\<exists>s1 n. launch s = (0, s1) \<and> (cpuid_turn resume cpuid ^^ n) s1 t \<and> exits_with 3 t)"
proof -
  have "loop_result resume cpuid u = Some (Inr t) \<longleftrightarrow> u = t \<and> exits_with 3 t" for u
    by (auto simp: loop_result_def exit_cases vt_run_eq exits_with_def)
  then show ?thesis by (auto simp: guest_result rtranclp_power)
qed

text \<open>C28: It goes on for ever exactly when the launch succeeds and every exit is a \<^verbatim>\<open>cpuid\<close> exit after
  whose answer the guest can be resumed.\<close>

theorem guest_runs_forever:
  "vt_run_guest launch resume cpuid s = None \<longleftrightarrow>
     (\<exists>f. launch s = (0, f 0) \<and> (\<forall>i. cpuid_turn resume cpuid (f i) (f (Suc i))))"
proof
  assume none: "vt_run_guest launch resume cpuid s = None"
  then obtain s1 where s1: "launch s = (0, s1)" "vt_loop resume cpuid s1 = None"
    by (cases "launch s") (auto simp: vt_run_guest_eq split: if_splits)
  define g where "g t = (SOME u. cpuid_turn resume cpuid t u)" for t
  have step: "cpuid_turn resume cpuid t (g t)" if "(cpuid_turn resume cpuid)\<^sup>*\<^sup>* s1 t" for t
    using that s1(2) unfolding g_def loop_diverges vm_step_cpuid_turn by (metis someI_ex)
  have "(cpuid_turn resume cpuid)\<^sup>*\<^sup>* s1 ((g ^^ i) s1)" for i
    by (induction i) (auto dest: step intro: rtranclp.rtrancl_into_rtrancl)
  with step have "cpuid_turn resume cpuid ((g ^^ i) s1) ((g ^^ Suc i) s1)" for i by simp
  with s1(1) show "\<exists>f. launch s = (0, f 0) \<and> (\<forall>i. cpuid_turn resume cpuid (f i) (f (Suc i)))"
    by (intro exI [of _ "\<lambda>i. (g ^^ i) s1"]) simp
next
  assume "\<exists>f. launch s = (0, f 0) \<and> (\<forall>i. cpuid_turn resume cpuid (f i) (f (Suc i)))"
  then obtain f where f: "launch s = (0, f 0)" "\<And>i. cpuid_turn resume cpuid (f i) (f (Suc i))" by blast
  have det: "cpuid_turn resume cpuid t u \<Longrightarrow> cpuid_turn resume cpuid t v \<Longrightarrow> u = v" for t u v
    by (auto simp: cpuid_turn_iff)
  have "(cpuid_turn resume cpuid)\<^sup>*\<^sup>* (f 0) t \<Longrightarrow> \<exists>i. t = f i" for t
    by (induction rule: rtranclp_induct) (use f(2) det in \<open>metis+\<close>)
  then have "vt_loop resume cpuid (f 0) = None"
    unfolding loop_diverges vm_step_cpuid_turn using f(2) by blast
  then show "vt_run_guest launch resume cpuid s = None" using f(1) by (simp add: vt_run_guest_eq)
qed

text \<open>The failure a state ends in, by the exit reason; \<^verbatim>\<open>cpuid\<close> and INIT are none, unless the resume after
  the answer fails.\<close>

definition guest_error :: "run_fun \<Rightarrow> cpuid_fun \<Rightarrow> hv \<Rightarrow> string" where
  "guest_error resume cpuid t =
     (if bit (vmcs t 0x4402) 31 then ''VMEntry failure(EXIT_REASON, EXIT_QUALIFICATION): %lx, %lx''
      else if exits_with 48 t then ''EPT_Violation''
      else if exits_with 49 t then ''EPT_Misconfig''
      else if exits_with 3 t then []
      else if exits_with 10 t then
        if fst (resume (answered cpuid t)) = 0 then [] else ''Fatal error: VM resume failed.''
      else ''Fatal error: handler not implemented. code:%ld, ip:%#lx'')"

text \<open>C29: Otherwise the run ends in a panic, with the message for what went wrong: the launch, or after
  some number of answered \<^verbatim>\<open>cpuid\<close> exits a failed entry (bit 31 of the exit reason), an EPT
  violation (48) or misconfiguration (49), a resume that failed, or an exit without a handler.\<close>

theorem guest_fails:
  "vt_run_guest launch resume cpuid s = Some (Inl e) \<longleftrightarrow>
     fst (launch s) \<noteq> 0 \<and> e = Panic ''Fatal error: VM launch failed. Error Code: %ld'' \<or>
     (\<exists>s1 n t. launch s = (0, s1) \<and> (cpuid_turn resume cpuid ^^ n) s1 t \<and>
        guest_error resume cpuid t \<noteq> [] \<and> e = Panic (guest_error resume cpuid t))"
proof -
  have "loop_result resume cpuid t = Some (Inl e) \<longleftrightarrow>
      guest_error resume cpuid t \<noteq> [] \<and> e = Panic (guest_error resume cpuid t)" for t
    by (auto simp: loop_result_def exit_cases vt_run_eq guest_error_def exits_with_def)
  then show ?thesis by (auto simp: guest_result rtranclp_power)
qed

text \<open>In this version of the code VMX is never entered: \<^verbatim>\<open>has_vmx\<close> and \<^verbatim>\<open>vt_main\<close> stop in
  the panics of the unfinished exercises, whatever the machine.\<close>

lemma vmx_stubs_panic:
  "has_vmx s = Inl (Panic ''has_vmx not implemented!'') \<and>
   vt_main c p1 p2 launch resume cpuid s = Some (Inl (Panic ''vmx_on not implemented''))"
  by (simp add: has_vmx_def vt_main_def vt_init_def vmx_on_def panic_def Let_def)

end
