(* ===== verification/Monitor.thy ===== *)
theory Monitor
  imports Cmd_Line Kdebug Trap Vt
begin

text \<open>
  \<^verbatim>\<open>kern/monitor.c\<close>: the commands of the kernel monitor, the lookup of a command in the table and
  the loop that reads and runs lines; and the panic routines of \<^verbatim>\<open>kern/init.c\<close>, which end in
  the monitor. The kernel's state is the console, the machine that runs guests and the byte
  memory with the line buffer, the stack and the constants. A result is \<open>None\<close> when the
  routine runs forever.
\<close>

section \<open>State and environment\<close>

record 'd kernel =
  kcon :: "'d console"
  khv :: hv
  kmem :: bytes

text \<open>
  What does not change while the monitor runs: the devices, the addresses the linker chose
  (string constants, the line buffer of \<^verbatim>\<open>readline\<close>, the symbols), the symbol table, the
  processor, and the register \<^verbatim>\<open>ebp\<close>.
\<close>

record 'd env =
  eio :: "'d io"
  elit :: "string \<Rightarrow> u32"
  line_buf :: u32
  hack :: bool
  sym_start :: u32
  sym_etext :: u32
  sym_edata :: u32
  sym_end :: u32
  tables :: symtab
  ecpu :: host_cpu
  ctls :: u32
  ctls2 :: u32
  elaunch :: run_fun
  eresume :: run_fun
  ecpuid :: cpuid_fun
  eebp :: u32

type_synonym frame_ptr = "(u32 \<times> Trapframe) option"

definition kprint :: "'d env \<Rightarrow> (string \<times> u32 list) list \<Rightarrow> 'd kernel \<Rightarrow> 'd kernel res" where
  "kprint e calls k =
     map_sum id (\<lambda>c. k\<lparr>kcon := c\<rparr>) (cprintf_all (cputchar (eio e)) (str_at (kmem k)) calls (kcon k))"

section \<open>The commands\<close>

type_synonym 'd command = "'d env \<Rightarrow> nat \<Rightarrow> u32 list \<Rightarrow> frame_ptr \<Rightarrow> 'd kernel \<Rightarrow> (int \<times> 'd kernel) res option"

definition command_texts :: "(string \<times> string) list" where
  "command_texts =
     [(''help'', ''Display this list of commands''),
      (''kerninfo'', ''Display information about the kernel''),
      (''backtrace'', ''Display back trace information of function''),
      (''exit'', ''Exit from trap monitor''),
      (''matrix'', ''Build a Matrix''),
      (''cpuid'', ''Instruction cpuid'')]"

definition returns :: "int \<Rightarrow> 'd kernel res \<Rightarrow> (int \<times> 'd kernel) res option" where
  "returns v r = Some (map_sum id (Pair v) r)"

definition mon_help :: "'d command" where
  "mon_help e argc argv tf k =
     returns 0 (kprint e (map (\<lambda>(name, desc). (line ''%s - %s'', [elit e name, elit e desc])) command_texts) k)"

definition mon_kerninfo :: "'d command" where
  "mon_kerninfo e argc argv tf k =
     returns 0 (kprint e
       [(line ''Special kernel symbols:'', []),
        (line ''  _start %08x (virt)  %08x (phys)'', [sym_start e, sym_start e - KERNBASE]),
        (line ''  etext  %08x (virt)  %08x (phys)'', [sym_etext e, sym_etext e - KERNBASE]),
        (line ''  edata  %08x (virt)  %08x (phys)'', [sym_edata e, sym_edata e - KERNBASE]),
        (line ''  end    %08x (virt)  %08x (phys)'', [sym_end e, sym_end e - KERNBASE]),
        (line ''Kernel executable memory footprint: %dKB'',
         [word_of_int (sint (sym_end e - sym_start e + 1023) sdiv 1024)])] k)"

definition frame_calls :: "'d env \<Rightarrow> bytes \<Rightarrow> u32 \<Rightarrow> u32 \<Rightarrow> u32 \<Rightarrow> Eipdebuginfo \<Rightarrow> (string \<times> u32 list) list" where
  "frame_calls e m index ebp eip info =
     [(line ''%d: ebp %08x  eip %08x  args %08x %08x %08x %08x'',
       [index, ebp, eip, load32 m (ebp + 8), load32 m (ebp + 12), load32 m (ebp + 16), load32 m (ebp + 20)]),
      (''%s:%d: '', [eip_file info, word_of_int (eip_line info)])] @
     map (\<lambda>i. (''%c'', [scast (m (eip_fn_name info + of_nat i))])) [0..<nat (eip_fn_namelen info)] @
     [(''+%x '', [eip - eip_fn_addr info]),
      (line ''(%d arg)'', [word_of_int (eip_fn_narg info)])]"

partial_function (option) backtrace_loop :: "'d env \<Rightarrow> u32 \<Rightarrow> u32 \<Rightarrow> 'd kernel \<Rightarrow> 'd kernel res option" where
  "backtrace_loop e index ebp k =
     (if ebp = 0 then Some (Inr k)
      else
        (let eip = load32 (kmem k) (ebp + 4)
         in case debuginfo_eip ((tables e)\<lparr>strings := kmem k\<rparr>) eip of
              None \<Rightarrow> None
            | Some (Inl x) \<Rightarrow> Some (Inl x)
            | Some (Inr (_, info)) \<Rightarrow>
                (case kprint e (frame_calls e (kmem k) index ebp eip info) k of
                   Inl x \<Rightarrow> Some (Inl x)
                 | Inr k \<Rightarrow> backtrace_loop e (index + 1) (load32 (kmem k) ebp) k)))"

definition mon_backtrace :: "'d command" where
  "mon_backtrace e argc argv tf k =
     (case kprint e [(line ''Stack backtrace:'', [])] k of
        Inl x \<Rightarrow> Some (Inl x)
      | Inr k \<Rightarrow> map_option (map_sum id (Pair 0)) (backtrace_loop e 0 (eebp e) k))"

definition mon_exit :: "'d command" where
  "mon_exit e argc argv tf k =
     Some (Inr (case tf of
                  None \<Rightarrow> 0
                | Some (_, frm) \<Rightarrow> if tf_trapno frm = T_BRKPT then - 1 else 0, k))"

definition mon_matrix :: "'d command" where
  "mon_matrix e argc argv tf k =
     map_option (map_sum id (\<lambda>h. (0, k\<lparr>khv := h\<rparr>)))
       (vt_main (ecpu e) (ctls e) (ctls2 e) (elaunch e) (eresume e) (ecpuid e) (khv k))"

definition mon_cpuid :: "'d command" where
  "mon_cpuid e argc argv tf k =
     (let ia = 0xFeedCafe; (oa, ob, oc, od) = ecpuid e ia
      in returns 0 (kprint e [(line ''%#x'', [oa])] k))"

definition commands :: "(string \<times> 'd command) list" where
  "commands = zip (map fst command_texts)
     [mon_help, mon_kerninfo, mon_backtrace, mon_exit, mon_matrix, mon_cpuid]"

section \<open>The interpreter\<close>

text \<open>The search of the table, from some entry on.\<close>

fun lookup_command ::
    "(string \<times> 'd command) list \<Rightarrow> 'd env \<Rightarrow> nat \<Rightarrow> u32 list \<Rightarrow> frame_ptr \<Rightarrow> 'd kernel
      \<Rightarrow> (int \<times> 'd kernel) res option" where
  "lookup_command [] e argc argv tf k =
     returns 0 (kprint e [(line ''Unknown command '' @ [CHR 0x27] @ ''%s'' @ [CHR 0x27], [argv ! 0])] k)"
| "lookup_command ((name, func) # cs) e argc argv tf k =
     (case strcmp (kmem k) (argv ! 0) (elit e name) of
        None \<Rightarrow> None
      | Some r \<Rightarrow> if r = 0 then func e argc argv tf k else lookup_command cs e argc argv tf k)"

definition runcmd :: "'d env \<Rightarrow> u32 \<Rightarrow> frame_ptr \<Rightarrow> 'd kernel \<Rightarrow> (int \<times> 'd kernel) res option" where
  "runcmd e b tf k =
     (case parse_args (kmem k) b [] of
        None \<Rightarrow> None
      | Some (m, None) \<Rightarrow>
          returns 0 (kprint e [(line ''Too many arguments (max %d)'', [of_nat MAXARGS])] (k\<lparr>kmem := m\<rparr>))
      | Some (m, Some args) \<Rightarrow>
          if args = [] then Some (Inr (0, k\<lparr>kmem := m\<rparr>))
          else lookup_command commands e (length args) (args @ [0]) tf (k\<lparr>kmem := m\<rparr>))"

definition kreadline :: "'d env \<Rightarrow> u32 \<Rightarrow> 'd kernel \<Rightarrow> (u32 \<times> 'd kernel) res option" where
  "kreadline e prompt k =
     map_option (map_sum id (\<lambda>(a, m, c). (a, k\<lparr>kcon := c, kmem := m\<rparr>)))
       (readline (getchar (eio e)) (cputchar (eio e)) (hack e) (line_buf e) prompt (kmem k) (kcon k))"

partial_function (option) monitor_loop :: "'d env \<Rightarrow> frame_ptr \<Rightarrow> 'd kernel \<Rightarrow> 'd kernel res option" where
  "monitor_loop e tf k =
     (case kreadline e (elit e ''K> '') k of
        None \<Rightarrow> None
      | Some (Inl x) \<Rightarrow> Some (Inl x)
      | Some (Inr (b, k)) \<Rightarrow>
          if b \<noteq> 0 then
            (case runcmd e b tf k of
               None \<Rightarrow> None
             | Some (Inl x) \<Rightarrow> Some (Inl x)
             | Some (Inr (r, k)) \<Rightarrow> if r < 0 then Some (Inr k) else monitor_loop e tf k)
          else monitor_loop e tf k)"

definition monitor :: "'d env \<Rightarrow> frame_ptr \<Rightarrow> 'd kernel \<Rightarrow> 'd kernel res option" where
  "monitor e tf k =
     (case res_bind (kprint e
              [(line ''Welcome to the JOS kernel monitor!'', []),
               (line (''Type '' @ [CHR 0x27] @ ''help'' @ [CHR 0x27] @ '' for a list of commands.''), [])] k)
            (\<lambda>k. case tf of
                None \<Rightarrow> Inr k
              | Some (tfp, frm) \<Rightarrow>
                  map_sum id (\<lambda>c. k\<lparr>kcon := c\<rparr>)
                    (print_trapframe (cputchar (eio e)) (str_at (kmem k)) (elit e) tfp frm (kcon k))) of
        Inl x \<Rightarrow> Some (Inl x)
      | Inr k \<Rightarrow> monitor_loop e tf k)"

section \<open>Panics\<close>

partial_function (option) monitor_forever :: "'d env \<Rightarrow> 'd kernel \<Rightarrow> 'd kernel res option" where
  "monitor_forever e k =
     (case monitor e None k of
        None \<Rightarrow> None
      | Some (Inl x) \<Rightarrow> Some (Inl x)
      | Some (Inr k) \<Rightarrow> monitor_forever e k)"

definition report :: "'d env \<Rightarrow> string \<Rightarrow> string \<Rightarrow> u32 \<Rightarrow> string \<Rightarrow> u32 list \<Rightarrow> 'd kernel \<Rightarrow> 'd kernel res" where
  "report e what file lin fmt va k =
     kprint e [(what @ '' at %s:%d: '', [elit e file, lin]), (fmt, va), (line [], [])] k"

text \<open>\<open>panicstr\<close> tells whether an earlier panic is being handled.\<close>

definition panic_handler ::
    "'d env \<Rightarrow> bool \<Rightarrow> string \<Rightarrow> u32 \<Rightarrow> string \<Rightarrow> u32 list \<Rightarrow> 'd kernel \<Rightarrow> 'd kernel res option" where
  "panic_handler e panicstr file lin fmt va k =
     (if panicstr then monitor_forever e k
      else case report e ''kernel panic'' file lin fmt va k of
             Inl x \<Rightarrow> Some (Inl x)
           | Inr k \<Rightarrow> monitor_forever e k)"

definition warn :: "'d env \<Rightarrow> string \<Rightarrow> u32 \<Rightarrow> string \<Rightarrow> u32 list \<Rightarrow> 'd kernel \<Rightarrow> 'd kernel res" where
  "warn e file lin fmt va k = report e ''kernel warning'' file lin fmt va k"

section \<open>Dispatch\<close>

definition literal :: "string \<Rightarrow> u8 list" where
  "literal s = map of_char s"

text \<open>The names of the commands are in memory, away from the \<open>n\<close> bytes at \<open>b\<close>.\<close>

definition names_apart :: "'d env \<Rightarrow> bytes \<Rightarrow> u32 \<Rightarrow> nat \<Rightarrow> bool" where
  "names_apart e m b n \<longleftrightarrow>
     list_all (\<lambda>name. cstr m (elit e name) (literal name) \<and>
       list_all (\<lambda>j. n \<le> unat (elit e name + of_nat j - b)) [0..<Suc (length name)]) (map fst command_texts)"

definition find_command :: "u8 list \<Rightarrow> 'd command option" where
  "find_command w = map_of (map (\<lambda>(name, f). (literal name, f)) commands) w"

lemma lookup_command_eq:
  assumes "cstr (kmem k) (argv ! 0) w"
  shows "list_all (\<lambda>name. cstr (kmem k) (elit e name) (literal name)) (map fst cs) \<Longrightarrow>
    lookup_command cs e argc argv tf k =
      (case map_of (map (\<lambda>(name, f). (literal name, f)) cs) w of
         Some f \<Rightarrow> f e argc argv tf k
       | None \<Rightarrow> lookup_command [] e argc argv tf k)"
proof (induction cs)
  case (Cons c cs)
  obtain name f where c: "c = (name, f)" by (cases c)
  obtain r where "strcmp (kmem k) (argv ! 0) (elit e name) = Some r" "r = 0 \<longleftrightarrow> w = literal name"
    using strcmp_cstr [OF assms] Cons.prems c by fastforce
  then show ?case using Cons c by auto
qed simp

text \<open>C20: runcmd splits the line into its words and runs the command of that name with them: argc
  is the number of words, argv[k] the address of the k-th of them as a string of its own and
  argv[argc] is null. An empty line does nothing, 16 words are too many, and an unknown name is
  reported. Nothing outside the line is written.\<close>

theorem runcmd_dispatch:
  fixes e :: "'d env"
  assumes line: "cstr (kmem k) b l" "length l < 2 ^ 32" and names: "names_apart e (kmem k) b (length l)"
  shows "\<exists>m args. same_outside (kmem k) m b (length l) \<and>
    (length (words l) \<le> 15 \<longrightarrow> list_all2 (cstr m) args (words l)) \<and>
    runcmd e b tf k =
      (if 15 < length (words l) then
         returns 0 (kprint e [(''Too many arguments (max %d)'' @ [CHR 0x0A], [16])] (k\<lparr>kmem := m\<rparr>))
       else if words l = [] then Some (Inr (0, k\<lparr>kmem := m\<rparr>))
       else case find_command (hd (words l)) of
              Some f \<Rightarrow> f e (length (words l)) (args @ [0]) tf (k\<lparr>kmem := m\<rparr>)
            | None \<Rightarrow> lookup_command [] e (length (words l)) (args @ [0]) tf (k\<lparr>kmem := m\<rparr>))"
proof -
  obtain m args where p:
      "parse_args (kmem k) b [] = Some (m, if length (words l) \<le> 15 then Some args else None)"
      "same_outside (kmem k) m b (length l)"
      "length (words l) \<le> 15 \<longrightarrow> list_all2 (cstr m) args (words l)"
    using parse_args_spec [OF line, of "[]"] by auto
  have "cstr m (elit e name) (literal name)" if "name \<in> set (map fst command_texts)" for name
  proof -
    have "cstr (kmem k) (elit e name) (literal name)"
      "\<forall>j \<le> length (literal name). length l \<le> unat (elit e name + of_nat j - b)"
      using names that by (auto simp: names_apart_def list_all_iff literal_def less_Suc_eq_le simp del: upt_Suc)
    then show ?thesis
      using same_outside_at [OF p(2)] cstr_cong [of "literal name" m "elit e name" "kmem k"] by blast
  qed
  moreover have "map fst (commands :: (string \<times> 'd command) list) = map fst command_texts"
    by (simp add: commands_def command_texts_def)
  ultimately have names': "list_all (\<lambda>name. cstr m (elit e name) (literal name)) (map fst (commands :: (string \<times> 'd command) list))"
    by (simp only: list_all_iff) blast
  have run: "runcmd e b tf k =
      (case find_command (hd (words l)) of
         Some f \<Rightarrow> f e (length (words l)) (args @ [0]) tf (k\<lparr>kmem := m\<rparr>)
       | None \<Rightarrow> lookup_command [] e (length (words l)) (args @ [0]) tf (k\<lparr>kmem := m\<rparr>))"
    if few: "length (words l) \<le> 15" and some: "words l \<noteq> []"
  proof -
    have a: "list_all2 (cstr m) args (words l)" using p(3) few by simp
    then have "length args = length (words l)" by (rule list_all2_lengthD)
    moreover from this a some have "args \<noteq> []" "cstr m ((args @ [0]) ! 0) (hd (words l))"
      by (cases args; cases "words l"; auto)+
    ultimately show ?thesis
      using p(1) few lookup_command_eq [of "k\<lparr>kmem := m\<rparr>" "args @ [0]" _ e commands] names'
      by (simp add: runcmd_def find_command_def)
  qed
  show ?thesis
    using p run by (intro exI [of _ m] exI [of _ args]) (auto simp: runcmd_def line_def)
qed

text \<open>An environment for concrete runs: the names of the commands are at 0x2000, the constants of
  the code one after the other.\<close>

definition name_block :: "u8 list" where
  "name_block = concat (map (\<lambda>(name, _). literal name @ [0]) command_texts)"

definition line_memory :: "string \<Rightarrow> bytes" where
  "line_memory l a =
     (if unat (a - 0x1000) < length l then literal l ! unat (a - 0x1000)
      else if unat (a - 0x2000) < length name_block then name_block ! unat (a - 0x2000)
      else 0)"

definition sample_env :: "unit env" where
  "sample_env = \<lparr>eio = quiet_io,
     elit = \<lambda>s. (case map_of [(''help'', 0x2000), (''kerninfo'', 0x2005), (''backtrace'', 0x200E),
       (''exit'', 0x2018), (''matrix'', 0x201D), (''cpuid'', 0x2024)] s of None \<Rightarrow> 0x3000 | Some a \<Rightarrow> a),
     line_buf = 0x1000, hack = False, sym_start = 0xF0100000, sym_etext = 0xF0110000,
     sym_edata = 0xF0120000, sym_end = 0xF0130000, 
     tables = \<lparr>stabs = \<lambda>_. \<lparr>n_strx = 0, n_type = 0, n_other = 0, n_desc = 0, n_value = 0\<rparr>, stab_count = 0,
       stabstr = 0, stabstr_end = 0, strings = \<lambda>_. 0, lit_unknown = 0x3000\<rparr>,
     ecpu = \<lparr>rd_es = 0, rd_cs = 0, rd_ss = 0, rd_ds = 0, rd_fs = 0, rd_gs = 0, rd_ldtr = 0, rd_tr = 0,
       rd_gdtr = (0, 0), rd_idtr = (0, 0), rd_dr7 = 0, rd_rflags = 0, do_lsl = id, do_lar = id\<rparr>,
      ctls = 0, ctls2 = 0,
     elaunch = \<lambda>h. (0, h), eresume = \<lambda>h. (0, h), ecpuid = \<lambda>_. (0, 0, 0, 0), eebp = 0\<rparr>"

definition line_kernel :: "string \<Rightarrow> unit kernel" where
  "line_kernel l = \<lparr>kcon = blank_console, khv = blank_hv, kmem = line_memory l\<rparr>"

lemma runcmd_dispatch_witness:
  "\<exists>k. runcmd sample_env 0x1000 (Some (0x5000, sample_frame\<lparr>tf_trapno := 3\<rparr>)) (line_kernel '' exit  now'')
     = Some (Inr (-1, k))"
proof -
  let ?l = "literal '' exit  now''" and ?k = "line_kernel '' exit  now''"
  note mem = line_memory_def literal_def name_block_def command_texts_def
  have "cstr (kmem ?k) 0x1000 ?l" by (simp add: line_kernel_def mem)
  moreover have "names_apart sample_env (kmem ?k) 0x1000 (length ?l)"
    by (simp add: names_apart_def line_kernel_def mem sample_env_def upt_rec)
  moreover have w: "words ?l = [literal ''exit'', literal ''now'']"
    by (simp add: words.simps literal_def white_def WHITESPACE_def)
  moreover have "find_command (literal ''exit'') = Some (mon_exit :: unit command)"
    by (simp add: find_command_def commands_def command_texts_def literal_def)
  moreover have "length ?l < 2 ^ 32" by (simp add: literal_def)
  ultimately show ?thesis
    using runcmd_dispatch [of ?k "0x1000" ?l sample_env "Some (0x5000, sample_frame\<lparr>tf_trapno := 3\<rparr>)"]
    by (auto simp: mon_exit_def)
qed

section \<open>Panics do not return\<close>

lemma monitor_forever_no_return:
  assumes "monitor_forever e k = Some r"
  shows "\<exists>x. r = Inl x"
  using _ assms
  by (rule monitor_forever.raw_induct [where P = "\<lambda>e k r. \<exists>x. r = Inl x"])
    (auto split: option.splits sum.splits)

text \<open>\<^verbatim>\<open>_panic\<close> does not return: it stays in the monitor, whether it is the first panic or
  one while another is handled.\<close>

lemma panic_never_returns:
  "\<not> (\<exists>k'. panic_handler e panicstr file lin fmt va k = Some (Inr k'))"
  by (auto simp: panic_handler_def split: sum.splits dest: monitor_forever_no_return)

end
