(* ===== verification/Pmap_Boot.thy ===== *)
theory Pmap_Boot
  imports Pmap_Page Console
begin

text \<open>
  The boot-time half of \<^verbatim>\<open>kern/pmap.c\<close>, with \<^verbatim>\<open>kern/kclock.c\<close>: detecting memory through the
  clock chip, the allocator \<^verbatim>\<open>boot_alloc\<close>, the page tables of the kernel and the list of free
  pages. The addresses the linker chose are the arguments \<open>endv\<close> (the symbol \<^verbatim>\<open>end\<close>) and
  \<open>bootstack\<close>. The messages and the reload of the segment registers are not modelled; the array
  \<^verbatim>\<open>pages[]\<close> is the component \<open>pages\<close> of the state, \<open>pages_at\<close> its address.
\<close>

section \<open>The clock chip\<close>

definition IO_RTC :: u32 where [simp]: "IO_RTC = 0x70"
definition MC_NVRAM_START :: u32 where [simp]: "MC_NVRAM_START = 0xe"
definition NVRAM_BASELO :: u32 where [simp]: "NVRAM_BASELO = MC_NVRAM_START + 7"
definition NVRAM_EXTLO :: u32 where [simp]: "NVRAM_EXTLO = MC_NVRAM_START + 9"

definition mc146818_read :: "'d io \<Rightarrow> u32 \<Rightarrow> 'd \<Rightarrow> u32 \<times> 'd" where
  "mc146818_read io r d =
     (let d = outb io IO_RTC (ucast r) d; (v, d) = inb io (IO_RTC + 1) d in (ucast v, d))"

definition mc146818_write :: "'d io \<Rightarrow> u32 \<Rightarrow> u32 \<Rightarrow> 'd \<Rightarrow> 'd" where
  "mc146818_write io r datum d = outb io (IO_RTC + 1) (ucast datum) (outb io IO_RTC (ucast r) d)"

definition nvram_read :: "'d io \<Rightarrow> u32 \<Rightarrow> 'd \<Rightarrow> u32 \<times> 'd" where
  "nvram_read io r d =
     (let (lo, d) = mc146818_read io r d; (hi, d) = mc146818_read io (r + 1) d
      in (lo OR push_bit 8 hi, d))"

definition i386_mem_detect :: "'d io \<Rightarrow> 'd \<Rightarrow> 'a vm_scheme \<Rightarrow> 'd \<times> 'a vm_scheme" where
  "i386_mem_detect io d s =
     (let (b, d) = nvram_read io NVRAM_BASELO d;
          s = s\<lparr>n_base_pages := b * 1024 div PGSIZE\<rparr>;
          (x, d) = nvram_read io NVRAM_EXTLO d;
          n_extended_pages = x * 1024 div PGSIZE
      in (d, s\<lparr>npages := if n_extended_pages \<noteq> 0 then EXTPHYSMEM div PGSIZE + n_extended_pages
                        else n_base_pages s\<rparr>))"

section \<open>Boot-time allocation and mapping\<close>

definition boot_alloc :: "u32 \<Rightarrow> u32 \<Rightarrow> 'a vm_scheme \<Rightarrow> u32 \<times> 'a vm_scheme" where
  "boot_alloc endv n s =
     (let s = (if nextfree s = 0 then s\<lparr>nextfree := ROUNDUP endv PGSIZE\<rparr> else s);
          s = s\<lparr>nextfree := ROUNDUP (nextfree s) PGSIZE\<rparr>;
          v = nextfree s
      in (v, s\<lparr>nextfree := nextfree s + n\<rparr>))"

definition boot_pgdir_walk :: "u32 \<Rightarrow> u32 \<Rightarrow> u32 \<Rightarrow> 'a vm_scheme \<Rightarrow> (u32 \<times> 'a vm_scheme) res" where
  "boot_pgdir_walk endv la create s =
     (let pdep = kern_pgdir s + 4 * PDX la;
          entry = (\<lambda>s. res_bind (KADDR (PTE_ADDR (mem s pdep)) s) (\<lambda>pte. Inr (pte + 4 * PTX la, s)))
      in if mem s pdep AND PTE_P = 0 then
           if create = 0 then Inr (0, s)
           else
             (let (pte, s) = boot_alloc endv PGSIZE s
              in if pte = 0 then Inr (0, s)
                 else res_bind (PADDR pte) (\<lambda>pa. entry (store pdep (PTE_ADDR pa OR PTE_P OR create) s)))
         else entry s)"

text \<open>A loop over the pages of a segment: \<^verbatim>\<open>for (; c; i += PGSIZE)\<close>.\<close>

partial_function (option) for_pages :: "(u32 \<Rightarrow> bool) \<Rightarrow> (u32 \<Rightarrow> 's \<Rightarrow> 's res) \<Rightarrow> u32 \<Rightarrow> 's \<Rightarrow> 's res option" where
  "for_pages c body i s =
     (if c i then
        (case body i s of
           Inl e \<Rightarrow> Some (Inl e)
         | Inr s \<Rightarrow> for_pages c body (i + PGSIZE) s)
      else Some (Inr s))"

definition boot_map_page :: "u32 \<Rightarrow> u32 \<Rightarrow> u32 \<Rightarrow> u32 \<Rightarrow> u32 \<Rightarrow> 'a vm_scheme \<Rightarrow> 'a vm_scheme res" where
  "boot_map_page endv la pa perm i s =
     res_bind (boot_pgdir_walk endv (la + i) (PTE_P OR perm) s) (\<lambda>(pte, s).
       if pte = 0 then Inl (Fault ''null pte'')
       else Inr (store pte (pa + i OR PTE_P OR perm) s))"

definition boot_map_segment ::
    "u32 \<Rightarrow> u32 \<Rightarrow> u32 \<Rightarrow> u32 \<Rightarrow> u32 \<Rightarrow> 'a vm_scheme \<Rightarrow> 'a vm_scheme res option" where
  "boot_map_segment endv la sz pa perm s =
     for_pages (\<lambda>i. i < sz) (boot_map_page endv la pa perm) 0 s"

section \<open>The check of the boot mappings\<close>

definition check_segment :: "(u32 \<Rightarrow> bool) \<Rightarrow> u32 \<Rightarrow> u32 \<Rightarrow> string \<Rightarrow> 'a vm_scheme \<Rightarrow> 'a vm_scheme res option" where
  "check_segment c la pa msg s =
     for_pages c
       (\<lambda>i s. res_bind (check_va2pa (kern_pgdir s) (la + i) s)
         (\<lambda>a. res_bind (check (a = pa + i) msg) (\<lambda>_. Inr s))) 0 s"

definition check_pde :: "'a vm_scheme \<Rightarrow> u32 \<Rightarrow> unit res" where
  "check_pde s i =
     (let e = mem s (kern_pgdir s + 4 * i)
      in if i = PDX VPT \<or> i = PDX (KSTACKTOP - 1) then check (e \<noteq> 0) ''kern_pgdir[i]''
         else if i \<ge> PDX KERNBASE then check (e \<noteq> 0) ''kern_pgdir[i]''
         else check (e = 0) ''kern_pgdir[i] == 0'')"

primrec check_pdes :: "'a vm_scheme \<Rightarrow> nat list \<Rightarrow> unit res" where
  "check_pdes s [] = Inr ()"
| "check_pdes s (i # is) = res_bind (check_pde s (of_nat i)) (\<lambda>_. check_pdes s is)"

definition boot_mem_check :: "u32 \<Rightarrow> 'a vm_scheme \<Rightarrow> 'a vm_scheme res option" where
  "boot_mem_check bootstack s =
     (case check_segment (\<lambda>i. KERNBASE + i \<noteq> 0) KERNBASE 0 ''check_va2pa(kern_pgdir, KERNBASE + i) == i'' s of
        None \<Rightarrow> None
      | Some (Inl e) \<Rightarrow> Some (Inl e)
      | Some (Inr s) \<Rightarrow>
          (case PADDR bootstack of
             Inl e \<Rightarrow> Some (Inl e)
           | Inr pa \<Rightarrow>
               (case check_segment (\<lambda>i. i < KSTKSIZE) (KSTACKTOP - KSTKSIZE) pa
                       ''check_va2pa(kern_pgdir, KSTACKTOP - KSTKSIZE + i) == PADDR(bootstack) + i'' s of
                  None \<Rightarrow> None
                | Some (Inl e) \<Rightarrow> Some (Inl e)
                | Some (Inr s) \<Rightarrow> Some (res_bind (check_pdes s [0..<unat NPDENTRIES]) (\<lambda>_. Inr s)))))"

section \<open>Setting up virtual memory\<close>

definition CR0_PE :: u32 where [simp]: "CR0_PE = 0x00000001"
definition CR0_PG :: u32 where [simp]: "CR0_PG = 0x80000000"

text \<open>\<^verbatim>\<open>sizeof(struct Page)\<close>: the two links and the count, padded.\<close>

definition sizeof_Page :: u32 where [simp]: "sizeof_Page = 12"

definition boot_pgdir_init :: "u32 \<Rightarrow> 'a vm_scheme \<Rightarrow> 'a vm_scheme res" where
  "boot_pgdir_init endv s =
     (let (v, s) = boot_alloc endv PGSIZE s;
          s = mem_zero v PGSIZE (s\<lparr>kern_pgdir := v\<rparr>)
      in res_bind (PADDR (kern_pgdir s)) (\<lambda>pa.
           Inr (store (kern_pgdir s + 4 * PDX VPT) (pa OR PTE_W OR PTE_P) s)))"

definition boot_pages_init :: "u32 \<Rightarrow> 'a vm_scheme \<Rightarrow> 'a vm_scheme" where
  "boot_pages_init endv s =
     (let (v, s) = boot_alloc endv (npages s * sizeof_Page) s
      in s\<lparr>pages_at := v, pages := \<lambda>_. null_page\<rparr>)"

definition boot_paging_on :: "'a vm_scheme \<Rightarrow> 'a vm_scheme res" where
  "boot_paging_on s =
     (let s = store (kern_pgdir s) (mem s (kern_pgdir s + 4 * PDX KERNBASE)) s
      in res_bind (PADDR (kern_pgdir s)) (\<lambda>pa.
           let s = s\<lparr>cr3 := pa\<rparr>;
               s = s\<lparr>cr0 := cr0 s OR CR0_PE OR CR0_PG\<rparr>;
               s = store (kern_pgdir s) 0 s
           in Inr (s\<lparr>cr3 := pa\<rparr>)))"

definition boot_mem_init :: "u32 \<Rightarrow> u32 \<Rightarrow> 'd io \<Rightarrow> 'd \<Rightarrow> 'a vm_scheme \<Rightarrow> ('d \<times> 'a vm_scheme) res option" where
  "boot_mem_init endv bootstack io d s =
     (let (d, s) = i386_mem_detect io d s
      in case boot_pgdir_init endv s of
           Inl e \<Rightarrow> Some (Inl e)
         | Inr s \<Rightarrow>
      (case PADDR bootstack of
           Inl e \<Rightarrow> Some (Inl e)
         | Inr stack \<Rightarrow>
      (case boot_map_segment endv (KSTACKTOP - KSTKSIZE) KSTKSIZE stack PTE_W s of
           None \<Rightarrow> None
         | Some (Inl e) \<Rightarrow> Some (Inl e)
         | Some (Inr s) \<Rightarrow>
      (case boot_map_segment endv KERNBASE (0xffffffff - KERNBASE) 0 PTE_W s of
           None \<Rightarrow> None
         | Some (Inl e) \<Rightarrow> Some (Inl e)
         | Some (Inr s) \<Rightarrow>
      (case boot_mem_check bootstack (boot_pages_init endv s) of
           None \<Rightarrow> None
         | Some (Inl e) \<Rightarrow> Some (Inl e)
         | Some (Inr s) \<Rightarrow> Some (map_sum id (Pair d) (boot_paging_on s)))))))"

section \<open>The free list\<close>

text \<open>One page: whether it is skipped, and the loop body.\<close>

definition page_reserved :: "u32 \<Rightarrow> u32 \<Rightarrow> 'a vm_scheme \<Rightarrow> (bool \<times> 'a vm_scheme) res" where
  "page_reserved endv i s =
     (if i = 0 then Inr (True, s)
      else if i \<ge> PGNUM IOPHYSMEM \<and> i < PGNUM EXTPHYSMEM then Inr (True, s)
      else res_bind (PADDR KERNBASE) (\<lambda>k.
        if i \<ge> PGNUM k then
          (let (v, s) = boot_alloc endv 0 s
           in res_bind (PADDR v) (\<lambda>pa. Inr (i < PGNUM pa, s)))
        else Inr (False, s)))"

definition page_init_page :: "u32 \<Rightarrow> u32 \<Rightarrow> 'a vm_scheme \<Rightarrow> 'a vm_scheme res" where
  "page_init_page endv i s =
     res_bind (set_ref i 0 s) (\<lambda>s.
     res_bind (page_reserved endv i s) (\<lambda>(reserved, s).
       Inr (if reserved then s else LIST_INSERT_HEAD i s)))"

function page_init_loop :: "u32 \<Rightarrow> u32 \<Rightarrow> u32 \<Rightarrow> 'a vm_scheme \<Rightarrow> 'a vm_scheme res" where
  "page_init_loop endv n i s =
     (if i < n then res_bind (page_init_page endv i s) (page_init_loop endv n (i + 1)) else Inr s)"
  by pat_completeness auto
termination
proof (relation "measure (\<lambda>(_, n, i, _). unat n - unat i)")
  fix endv n i :: u32 and s s' :: "'a vm_scheme"
  assume lt: "i < n"
  then have "unat (i + 1) = unat i + 1"
    using unat_lt_32 [of n] unfolding word_less_nat_alt by (subst unat_add_small) (simp_all del: unat_lt_32)
  then show "((endv, n, i + 1, s'), (endv, n, i, s)) \<in> measure (\<lambda>(_, n, i, _). unat n - unat i)"
    using lt by (simp add: word_less_nat_alt)
qed simp

declare page_init_loop.simps [simp del]

definition page_init :: "u32 \<Rightarrow> 'a vm_scheme \<Rightarrow> 'a vm_scheme res" where
  "page_init endv s = page_init_loop endv (npages s) 0 (LIST_INIT s)"

section \<open>The loop over pages\<close>

lemma for_pages_run:
  assumes body: "\<And>k s. k < n \<Longrightarrow> P k s \<Longrightarrow>
      c (of_nat (4096 * k)) \<and> (\<exists>s'. body (of_nat (4096 * k)) s = Inr s' \<and> P (Suc k) s')"
    and stop: "\<not> c (of_nat (4096 * n))"
  shows "j \<le> n \<Longrightarrow> P j s \<Longrightarrow> \<exists>s'. for_pages c body (of_nat (4096 * j)) s = Some (Inr s') \<and> P n s'"
proof (induction "n - j" arbitrary: j s)
  case 0
  then show ?case using stop by (subst for_pages.simps) simp
next
  case (Suc x)
  then have "j < n" by simp
  from body [OF this Suc.prems(2)] obtain s' where
      s': "c (of_nat (4096 * j))" "body (of_nat (4096 * j)) s = Inr s'" "P (Suc j) s'"
    by blast
  have "for_pages c body (of_nat (4096 * j)) s = for_pages c body (of_nat (4096 * Suc j)) s'"
    using s' by (subst for_pages.simps) (simp add: algebra_simps)
  then show ?case using Suc.hyps(1) [of "Suc j" s'] Suc.hyps(2) \<open>j < n\<close> s'(3) by simp
qed

section \<open>Kernel page tables under construction\<close>

text \<open>
  The directory is the frame \<open>d\<close> and the next page to hand out is \<open>f\<close>: the tables of all
  directory entries but the one of the directory itself are distinct pages between the two.
\<close>

definition SELF :: nat where [simp]: "SELF = 959"

definition boot_ok :: "'a vm_scheme \<Rightarrow> nat \<Rightarrow> nat \<Rightarrow> bool" where
  "boot_ok s d f \<longleftrightarrow>
     kern_pgdir s = kva d \<and> nextfree s = kva f \<and> d < f \<and> f \<le> unat (npages s) \<and> unat (npages s) < 65536 \<and>
     (\<forall>i < 1024. i \<noteq> SELF \<longrightarrow> pde s d i \<noteq> 0 \<longrightarrow>
        present (pde s d i) \<and> d < fr (pde s d i) \<and> fr (pde s d i) < f) \<and>
     (\<forall>i < 1024. \<forall>k < 1024. i \<noteq> SELF \<longrightarrow> k \<noteq> SELF \<longrightarrow> pde s d i \<noteq> 0 \<longrightarrow> pde s d k \<noteq> 0 \<longrightarrow>
        fr (pde s d i) = fr (pde s d k) \<longrightarrow> i = k)"

lemma kva_page2pa_minus: "f < 65536 \<Longrightarrow> kva f - KERNBASE = page2pa (of_nat f)"
  using kva_page2pa [of "of_nat f"] by (simp add: unat_of_nat) (metis add_diff_cancel_right')

lemma PADDR_kva: "f < 65536 \<Longrightarrow> PADDR (kva f) = Inr (page2pa (of_nat f))"
  using unat_cell [of f 0] kva_page2pa_minus [of f] by (simp add: PADDR_def word_less_nat_alt)

lemma ROUNDUP_kva: "f < 65535 \<Longrightarrow> ROUNDUP (kva f) 4096 = kva f"
  by (simp add: word_unat_eq_iff unat_ROUNDUP unat_cell)

lemma kva_Suc: "kva f + 4096 = kva (Suc f)"
  by (simp add: cell_def)

lemma boot_alloc_kva:
  assumes "nextfree s = kva f" and "f < 65535"
  shows "boot_alloc endv n s = (kva f, s\<lparr>nextfree := kva f + n\<rparr>)"
  using assms cell_nonzero [of f 0] by (simp add: boot_alloc_def ROUNDUP_kva Let_def)

definition new_pde :: "nat \<Rightarrow> u32" where
  "new_pde f = page2pa (of_nat f) OR PTE_P OR PTE_W"

lemma new_pde:
  assumes "f < 65536"
  shows "fr (new_pde f) = f" "present (new_pde f)" "new_pde f \<noteq> 0"
proof -
  have e: "new_pde f = page2pa (of_nat f) OR 3" by (simp add: new_pde_def)
  show "fr (new_pde f) = f" unfolding e using assms by (subst fr_or_perm) (simp_all add: unat_of_nat)
  show "present (new_pde f)" unfolding e by (rule present_or) simp
  then show "new_pde f \<noteq> 0" by (auto simp: present_def)
qed

lemma boot_okD:
  assumes "boot_ok s d f"
  shows "kern_pgdir s = kva d" "nextfree s = kva f" "d < f" "f \<le> unat (npages s)" "unat (npages s) < 65536"
    "d < 65536" "f < 65536"
    "i < 1024 \<Longrightarrow> i \<noteq> SELF \<Longrightarrow> pde s d i \<noteq> 0 \<Longrightarrow> present (pde s d i)"
    "i < 1024 \<Longrightarrow> i \<noteq> SELF \<Longrightarrow> pde s d i \<noteq> 0 \<Longrightarrow> d < fr (pde s d i)"
    "i < 1024 \<Longrightarrow> i \<noteq> SELF \<Longrightarrow> pde s d i \<noteq> 0 \<Longrightarrow> fr (pde s d i) < f"
    "i < 1024 \<Longrightarrow> i \<noteq> SELF \<Longrightarrow> pde s d i \<noteq> 0 \<Longrightarrow> fr (pde s d i) < 65536"
    "i < 1024 \<Longrightarrow> k < 1024 \<Longrightarrow> i \<noteq> SELF \<Longrightarrow> k \<noteq> SELF \<Longrightarrow> pde s d i \<noteq> 0 \<Longrightarrow> pde s d k \<noteq> 0 \<Longrightarrow>
        fr (pde s d i) = fr (pde s d k) \<Longrightarrow> i = k"
proof -
  note a = assms [unfolded boot_ok_def]
  show b: "kern_pgdir s = kva d" "nextfree s = kva f" "d < f" "f \<le> unat (npages s)" "unat (npages s) < 65536"
    using a by blast+
  from b(3-5) show "d < 65536" "f < 65536" by linarith+
  show "i < 1024 \<Longrightarrow> i \<noteq> SELF \<Longrightarrow> pde s d i \<noteq> 0 \<Longrightarrow> present (pde s d i)"
    "i < 1024 \<Longrightarrow> i \<noteq> SELF \<Longrightarrow> pde s d i \<noteq> 0 \<Longrightarrow> d < fr (pde s d i)"
    "i < 1024 \<Longrightarrow> i \<noteq> SELF \<Longrightarrow> pde s d i \<noteq> 0 \<Longrightarrow> fr (pde s d i) < f"
    "i < 1024 \<Longrightarrow> k < 1024 \<Longrightarrow> i \<noteq> SELF \<Longrightarrow> k \<noteq> SELF \<Longrightarrow> pde s d i \<noteq> 0 \<Longrightarrow> pde s d k \<noteq> 0 \<Longrightarrow>
        fr (pde s d i) = fr (pde s d k) \<Longrightarrow> i = k"
    using a by blast+
  with b(4,5) show "i < 1024 \<Longrightarrow> i \<noteq> SELF \<Longrightarrow> pde s d i \<noteq> 0 \<Longrightarrow> fr (pde s d i) < 65536"
    by (meson le_less_trans less_le_trans less_imp_le)
qed

lemma boot_walk_present:
  assumes ok: "boot_ok s d f" and i: "pdi la \<noteq> SELF" and p: "pde s d (pdi la) \<noteq> 0"
  shows "boot_pgdir_walk endv la c s = Inr (cell (fr (pde s d (pdi la))) (pti la), s)"
proof -
  note D = boot_okD [OF ok]
  have m: "mem s (kva d + 4 * PDX la) = pde s d (pdi la)" using D(6) by (simp add: pdep_cell pde_def)
  have "present (pde s d (pdi la))" using D(8) [OF unat_PDX_lt i p] .
  moreover have "fr (pde s d (pdi la)) < unat (npages s)"
    using D(10) [OF unat_PDX_lt i p] D(4) by linarith
  ultimately show ?thesis
    using D(1,5) D(11) [OF unat_PDX_lt i p]
    by (simp add: boot_pgdir_walk_def m present_def KADDR_frame ptep_cell Let_def)
qed

definition new_table :: "nat \<Rightarrow> nat \<Rightarrow> nat \<Rightarrow> 'a vm_scheme \<Rightarrow> 'a vm_scheme" where
  "new_table d i f s = store (cell d i) (new_pde f) (s\<lparr>nextfree := kva (Suc f)\<rparr>)"

lemma boot_walk_absent:
  assumes ok: "boot_ok s d f" and p: "pde s d (pdi la) = 0" and room: "f < unat (npages s)"
  shows "boot_pgdir_walk endv la (PTE_P OR PTE_W) s = Inr (cell f (pti la), new_table d (pdi la) f s)"
proof -
  note D = boot_okD [OF ok]
  have m: "mem s (cell d (pdi la)) = 0" using p by (simp add: pde_def)
  have addr: "PTE_ADDR (page2pa (of_nat f)) = page2pa (of_nat f)"
    using D(7) by (simp add: word_unat_eq_iff unat_PTE_ADDR unat_page2pa unat_of_nat)
  have f: "f < 65535" using room D(5) by linarith
  have alloc: "boot_alloc endv PGSIZE s = (kva f, s\<lparr>nextfree := kva (Suc f)\<rparr>)"
    using boot_alloc_kva [OF D(2) f] by (simp add: kva_Suc)
  have k: "KADDR (PTE_ADDR (new_pde f)) (store a w (s\<lparr>nextfree := x\<rparr>)) = Inr (kva f)" for a w x
    using KADDR_frame [of "new_pde f" "store a w (s\<lparr>nextfree := x\<rparr>)"] room D(5,7) by (simp add: new_pde)
  have nz: "kva f \<noteq> 0" "(PTE_P OR PTE_W) \<noteq> 0" using cell_nonzero [of f 0] D(7) by simp_all
  show ?thesis
    using nz D(1,6,7) k
    by (simp add: boot_pgdir_walk_def m alloc PADDR_kva addr new_table_def pdep_cell ptep_cell Let_def
        del: PTE_P_def PTE_W_def PGSIZE_def flip: new_pde_def)
qed

lemma pde_new_table:
  assumes "d < 65536" and "i < 1024" and "k < 1024"
  shows "pde (new_table d i f s) d k = (if k = i then new_pde f else pde s d k)"
  using assms by (simp add: pde_def new_table_def cell_eq_iff)

lemma new_table_ok:
  assumes ok: "boot_ok s d f" and i: "i < 1024" "i \<noteq> SELF" and p: "pde s d i = 0" and room: "f < unat (npages s)"
  shows "boot_ok (new_table d i f s) d (Suc f)"
proof -
  note D = boot_okD [OF ok]
  note pde = pde_new_table [OF D(6) i(1)]
  have simps: "kern_pgdir (new_table d i f s) = kva d" "nextfree (new_table d i f s) = kva (Suc f)"
    "npages (new_table d i f s) = npages s"
    using D(1) by (simp_all add: new_table_def)
  have fr: "fr (new_pde f) = f" "present (new_pde f)" using new_pde D(7) by blast+
  have below: "k < 1024 \<Longrightarrow> k \<noteq> SELF \<Longrightarrow> pde s d k \<noteq> 0 \<Longrightarrow> fr (pde s d k) < Suc f \<and> fr (pde s d k) \<noteq> f" for k
    using D(10) [of k] by simp
  show ?thesis
    unfolding boot_ok_def simps
  proof (intro conjI allI impI)
    fix k assume k: "k < 1024" "k \<noteq> SELF" "pde (new_table d i f s) d k \<noteq> 0"
    show "present (pde (new_table d i f s) d k)" "d < fr (pde (new_table d i f s) d k)"
      "fr (pde (new_table d i f s) d k) < Suc f"
      using k fr D(3) D(8,9) [of k] below [of k] by (simp_all add: pde split: if_splits)
    fix k' assume k': "k' < 1024" "k' \<noteq> SELF" "pde (new_table d i f s) d k' \<noteq> 0"
      "fr (pde (new_table d i f s) d k) = fr (pde (new_table d i f s) d k')"
    show "k = k'"
      using k k' fr(1) below [of k] below [of k'] D(12) [of k k'] by (auto simp: pde split: if_splits)
  qed (use D(3,5) room in simp_all)
qed

lemma mem_new_table:
  "d < 65536 \<Longrightarrow> i < 1024 \<Longrightarrow> n < 65536 \<Longrightarrow> j < 1024 \<Longrightarrow> n \<noteq> d \<Longrightarrow>
    mem (new_table d i f s) (cell n j) = mem s (cell n j)"
  by (simp add: new_table_def cell_eq_iff)

section \<open>Mapping one page\<close>

text \<open>\<open>map_step\<close>: the table of the directory entry \<open>i\<close> exists afterwards and its entry \<open>j\<close> is
  \<open>w\<close>; a table was made if there was none, and nothing else has changed.\<close>

definition map_step :: "nat \<Rightarrow> nat \<Rightarrow> nat \<Rightarrow> u32 \<Rightarrow> 'a vm_scheme \<Rightarrow> 'a vm_scheme \<Rightarrow> bool" where
  "map_step d i j w s s' \<longleftrightarrow>
     pde s' d i \<noteq> 0 \<and> pte s' d i j = w \<and>
     (pde s d i \<noteq> 0 \<longrightarrow> pde s' d i = pde s d i) \<and>
     (\<forall>k < 1024. k \<noteq> i \<longrightarrow> pde s' d k = pde s d k) \<and>
     (\<forall>k < 1024. \<forall>l < 1024. k \<noteq> SELF \<longrightarrow> pde s d k \<noteq> 0 \<longrightarrow> (k, l) \<noteq> (i, j) \<longrightarrow> pte s' d k l = pte s d k l) \<and>
     npages s' = npages s"

lemma store_pte_step:
  assumes ok: "boot_ok s d f" and i: "i < 1024" "i \<noteq> SELF" and j: "j < 1024" and p: "pde s d i \<noteq> 0"
  shows "boot_ok (store (cell (fr (pde s d i)) j) w s) d f"
    and "map_step d i j w s (store (cell (fr (pde s d i)) j) w s)"
proof -
  note D = boot_okD [OF ok]
  let ?s = "store (cell (fr (pde s d i)) j) w s"
  have t: "fr (pde s d i) < 65536" "fr (pde s d i) \<noteq> d"
    using D(9,11) [OF i p] by simp_all
  have pde: "pde ?s d k = pde s d k" if "k < 1024" for k
    using t D(6) that j by (simp add: pde_def cell_eq_iff)
  show "boot_ok ?s d f"
    using ok by (simp add: boot_ok_def pde)
  have other: "fr (pde s d k) \<noteq> fr (pde s d i)" if "k < 1024" "k \<noteq> SELF" "pde s d k \<noteq> 0" "k \<noteq> i" for k
    using D(12) [OF that(1) i(1) that(2) i(2) that(3) p] that(4) by blast
  have pte: "pte ?s d k l = (if (k, l) = (i, j) then w else pte s d k l)"
    if "k < 1024" "l < 1024" "k \<noteq> SELF" "pde s d k \<noteq> 0" for k l
    using that t(1) other [of k] j D(11) [of k]
    by (simp add: pte_def pde cell_eq_iff) metis
  show "map_step d i j w s ?s"
    unfolding map_step_def
    using p pde pte i j by auto
qed

lemma boot_map_page_step:
  assumes ok: "boot_ok s d f" and i: "pdi (la + i) \<noteq> SELF"
    and room: "pde s d (pdi (la + i)) = 0 \<Longrightarrow> f < unat (npages s)"
  shows "\<exists>s'. boot_map_page endv la pa PTE_W i s = Inr s' \<and>
    boot_ok s' d (if pde s d (pdi (la + i)) = 0 then Suc f else f) \<and>
    map_step d (pdi (la + i)) (pti (la + i)) (pa + i OR PTE_P OR PTE_W) s s'"
proof (cases "pde s d (pdi (la + i)) = 0")
  case False
  let ?s = "store (cell (fr (pde s d (pdi (la + i)))) (pti (la + i))) (pa + i OR PTE_P OR PTE_W) s"
  have "boot_map_page endv la pa PTE_W i s = Inr ?s"
    using boot_walk_present [OF ok i False] boot_okD(11) [OF ok unat_PDX_lt i False] unat_PTX_lt [of "la + i"]
    by (simp add: boot_map_page_def cell_nonzero)
  then show ?thesis
    using store_pte_step [OF ok unat_PDX_lt i unat_PTX_lt False] False by (intro exI [of _ ?s]) simp
next
  case True
  note D = boot_okD [OF ok]
  let ?t = "new_table d (pdi (la + i)) f s"
  have ok': "boot_ok ?t d (Suc f)"
    by (rule new_table_ok [OF ok unat_PDX_lt i True room [OF True]])
  have p: "pde ?t d k = (if k = pdi (la + i) then new_pde f else pde s d k)" if "k < 1024" for k
    using pde_new_table [OF D(6) unat_PDX_lt that] .
  have p': "pde ?t d (pdi (la + i)) \<noteq> 0" "fr (pde ?t d (pdi (la + i))) = f"
    using p [OF unat_PDX_lt] new_pde D(7) by simp_all
  let ?s = "store (cell f (pti (la + i))) (pa + i OR PTE_P OR PTE_W) ?t"
  have run: "boot_map_page endv la pa PTE_W i s = Inr ?s"
    using boot_walk_absent [OF ok True room [OF True], of endv] D(7) unat_PTX_lt [of "la + i"]
    by (simp add: boot_map_page_def cell_nonzero)
  note S = store_pte_step [OF ok' unat_PDX_lt i unat_PTX_lt [of "la + i"] p'(1), of "pa + i OR PTE_P OR PTE_W", unfolded p'(2)]
  have old: "pte ?t d k l = pte s d k l" if "k < 1024" "l < 1024" "k \<noteq> SELF" "pde s d k \<noteq> 0" for k l
    using that p [of k] True D(6) D(9,11) [of k] mem_new_table [OF D(6) unat_PDX_lt [of "la + i"], of "fr (pde s d k)" l]
    by (auto simp: pte_def)
  have "map_step d (pdi (la + i)) (pti (la + i)) (pa + i OR PTE_P OR PTE_W) s ?s"
    unfolding map_step_def
  proof (intro conjI allI impI)
    fix k l assume kl: "k < 1024" "l < 1024" "k \<noteq> SELF" "pde s d k \<noteq> 0" "(k, l) \<noteq> (pdi (la + i), pti (la + i))"
    moreover have "pde ?t d k \<noteq> 0" using kl p [of k] True by auto
    ultimately show "pte ?s d k l = pte s d k l"
      using S(2) old [of k l] unfolding map_step_def by metis
  next
    fix k assume "k < 1024" "k \<noteq> pdi (la + i)"
    then show "pde ?s d k = pde s d k" using S(2) p [of k] unfolding map_step_def by metis
  qed (use S(2) True in \<open>simp_all add: map_step_def new_table_def\<close>)
  then show ?thesis using run S(1) True by (intro exI [of _ ?s]) simp
qed

end
