(* ===== verification/Boot_Map.thy ===== *)
theory Boot_Map
  imports Pmap_Boot
begin

text \<open>
  What \<^verbatim>\<open>boot_map_segment\<close> does to the tables of the kernel, by the loop rule of
  \<open>for_pages\<close>, and the walk of the boot check over what it built. A segment is named by its
  first virtual page \<open>v\<close> and its number of pages \<open>n\<close>.
\<close>

section \<open>Virtual pages\<close>

definition slots :: "nat \<Rightarrow> nat \<Rightarrow> nat set" where
  "slots v k = (\<lambda>j. (v + j) div 1024) ` {..<k}"

lemma slots_0 [simp]: "slots v 0 = {}"
  by (simp add: slots_def)

lemma slots_Suc: "slots v (Suc k) = insert ((v + k) div 1024) (slots v k)"
  by (simp add: slots_def lessThan_Suc)

lemma finite_slots [simp]: "finite (slots v k)"
  by (simp add: slots_def)

lemma slots_mono: "j \<le> k \<Longrightarrow> slots v j \<subseteq> slots v k"
  by (auto simp: slots_def)

lemma page_addr:
  assumes "v + k < 1048576"
  shows "pdi (of_nat (4096 * v) + of_nat (4096 * k)) = (v + k) div 1024"
    and "pti (of_nat (4096 * v) + of_nat (4096 * k)) = (v + k) mod 1024"
proof -
  have "(of_nat (4096 * v) + of_nat (4096 * k) :: u32) = of_nat (4096 * (v + k))" by simp
  moreover have "unat (of_nat (4096 * (v + k)) :: u32) = 4096 * (v + k)"
    using assms by (intro unat_of_nat_small) simp
  ultimately have u: "unat (of_nat (4096 * v) + of_nat (4096 * k) :: u32) = 4096 * (v + k)" by simp
  have "4096 * (v + k) div 4194304 = (v + k) div 1024" by (simp add: div_mult2_eq [of _ 4096 1024, simplified])
  then show "pdi (of_nat (4096 * v) + of_nat (4096 * k)) = (v + k) div 1024"
    by (simp only: unat_PDX u)
  show "pti (of_nat (4096 * v) + of_nat (4096 * k)) = (v + k) mod 1024"
    by (simp only: unat_PTX u) simp
qed

section \<open>Mapping a segment\<close>

text \<open>\<open>seg_mapped v k pa d s s'\<close>: from \<open>s\<close> to \<open>s'\<close> the first \<open>k\<close> pages from \<open>v\<close> on are mapped to \<open>pa\<close>
  and the pages behind, and nothing else has changed.\<close>

definition seg_mapped :: "nat \<Rightarrow> nat \<Rightarrow> u32 \<Rightarrow> nat \<Rightarrow> 'a vm_scheme \<Rightarrow> 'a vm_scheme \<Rightarrow> bool" where
  "seg_mapped v k pa d s s' \<longleftrightarrow>
     npages s' = npages s \<and>
     (\<forall>i < 1024. i \<notin> slots v k \<or> pde s d i \<noteq> 0 \<longrightarrow> pde s' d i = pde s d i) \<and>
     (\<forall>i \<in> slots v k. pde s' d i \<noteq> 0) \<and>
     (\<forall>j < k. pte s' d ((v + j) div 1024) ((v + j) mod 1024) = pa + of_nat (4096 * j) OR PTE_P OR PTE_W) \<and>
     (\<forall>i < 1024. \<forall>l < 1024. i \<noteq> SELF \<longrightarrow> pde s d i \<noteq> 0 \<longrightarrow> 1024 * i + l \<notin> {v..<v + k} \<longrightarrow>
        pte s' d i l = pte s d i l)"

lemma seg_mappedD:
  assumes "seg_mapped v k pa d s s'"
  shows "npages s' = npages s"
    and "i < 1024 \<Longrightarrow> i \<notin> slots v k \<Longrightarrow> pde s' d i = pde s d i"
    and "i \<in> slots v k \<Longrightarrow> pde s' d i \<noteq> 0"
    and "j < k \<Longrightarrow> pte s' d ((v + j) div 1024) ((v + j) mod 1024) = pa + of_nat (4096 * j) OR PTE_P OR PTE_W"
    and "i < 1024 \<Longrightarrow> l < 1024 \<Longrightarrow> i \<noteq> SELF \<Longrightarrow> pde s d i \<noteq> 0 \<Longrightarrow> 1024 * i + l \<notin> {v..<v + k} \<Longrightarrow>
        pte s' d i l = pte s d i l"
  using assms unfolding seg_mapped_def by blast+

lemma seg_mapped_0: "seg_mapped v 0 pa d s s"
  by (simp add: seg_mapped_def)

lemma seg_mapped_Suc:
  assumes m: "seg_mapped v k pa d s s1" and v: "v + k < 1048576" and self: "SELF \<notin> slots v (Suc k)"
    and st: "map_step d ((v + k) div 1024) ((v + k) mod 1024) (pa + of_nat (4096 * k) OR PTE_P OR PTE_W) s1 s2"
  shows "seg_mapped v (Suc k) pa d s s2"
proof -
  let ?i = "(v + k) div 1024" and ?l = "(v + k) mod 1024"
  have i: "?i < 1024" using v by (simp add: less_mult_imp_div_less)
  have sl: "(v + j) div 1024 \<in> slots v k" "(v + j) div 1024 < 1024" if "j < k" for j
    using that v by (auto simp: slots_def less_mult_imp_div_less)
  have neq: "((v + j) div 1024, (v + j) mod 1024) \<noteq> (?i, ?l)" if "j < k" for j
  proof
    assume "((v + j) div 1024, (v + j) mod 1024) = (?i, ?l)"
    then have "v + j = v + k" by (metis Pair_inject div_mult_mod_eq)
    then show False using that by simp
  qed
  have pde: "\<And>j. j < 1024 \<Longrightarrow> j \<noteq> ?i \<or> pde s1 d j \<noteq> 0 \<Longrightarrow> pde s2 d j = pde s1 d j"
    using st unfolding map_step_def by blast
  have pte: "\<And>j l. j < 1024 \<Longrightarrow> l < 1024 \<Longrightarrow> j \<noteq> SELF \<Longrightarrow> pde s1 d j \<noteq> 0 \<Longrightarrow> (j, l) \<noteq> (?i, ?l) \<Longrightarrow>
      pte s2 d j l = pte s1 d j l"
    using st unfolding map_step_def by blast
  show ?thesis
    unfolding seg_mapped_def
  proof (intro conjI allI impI ballI)
    show "npages s2 = npages s" using m st by (simp add: seg_mapped_def map_step_def)
  next
    fix j assume "j < 1024" "j \<notin> slots v (Suc k) \<or> pde s d j \<noteq> 0"
    then show "pde s2 d j = pde s d j"
      using m pde [of j] unfolding seg_mapped_def slots_Suc by (metis insert_iff)
  next
    fix j assume j: "j \<in> slots v (Suc k)"
    show "pde s2 d j \<noteq> 0"
    proof (cases "j = ?i")
      case False
      with j have "j \<in> slots v k" by (simp add: slots_Suc)
      moreover from this have "j < 1024" using v by (auto simp: slots_def less_mult_imp_div_less)
      ultimately show ?thesis using pde [of j] m unfolding seg_mapped_def by metis
    qed (use st in \<open>simp add: map_step_def\<close>)
  next
    fix j assume j: "j < Suc k"
    show "pte s2 d ((v + j) div 1024) ((v + j) mod 1024) = pa + of_nat (4096 * j) OR PTE_P OR PTE_W"
    proof (cases "j = k")
      case False
      with j have j: "j < k" by simp
      have "(v + j) div 1024 \<noteq> SELF" using sl(1) [OF j] self by (auto simp: slots_Suc)
      moreover have "pde s1 d ((v + j) div 1024) \<noteq> 0" using m sl(1) [OF j] unfolding seg_mapped_def by blast
      ultimately have "pte s2 d ((v + j) div 1024) ((v + j) mod 1024) = pte s1 d ((v + j) div 1024) ((v + j) mod 1024)"
        using pte [OF sl(2) [OF j] _ _ _ neq [OF j]] by simp
      then show ?thesis using m j unfolding seg_mapped_def by metis
    qed (use st in \<open>simp add: map_step_def\<close>)
  next
    fix j l assume a: "j < 1024" "l < 1024" "j \<noteq> SELF" "pde s d j \<noteq> 0" "1024 * j + l \<notin> {v..<v + Suc k}"
    then have "(j, l) \<noteq> (?i, ?l)" by (auto simp: mult_div_mod_eq)
    moreover have "pde s1 d j \<noteq> 0" using m a(1,4) unfolding seg_mapped_def by metis
    moreover have "1024 * j + l \<notin> {v..<v + k}" using a(5) by auto
    then have "pte s1 d j l = pte s d j l" using m a(1-4) unfolding seg_mapped_def by blast
    ultimately show "pte s2 d j l = pte s d j l" using pte [of j l] a by simp
  qed
qed

lemma boot_map_segment_ok:
  assumes ok: "boot_ok s d f" and v: "v + n \<le> 1048576" and self: "SELF \<notin> slots v n"
    and room: "f + card (slots v n) < unat (npages s)"
    and sz: "\<And>k. k < n \<Longrightarrow> of_nat (4096 * k) < sz" "\<not> of_nat (4096 * n) < sz"
  shows "\<exists>s' f'. boot_map_segment endv (of_nat (4096 * v)) sz pa PTE_W s = Some (Inr s') \<and>
    boot_ok s' d f' \<and> f' \<le> f + card (slots v n) \<and> seg_mapped v n pa d s s'"
proof -
  define P where "P k s1 \<longleftrightarrow> (\<exists>f1. boot_ok s1 d f1 \<and> f1 \<le> f + card (slots v k) \<and> seg_mapped v k pa d s s1)" for k s1
  have step: "\<exists>s2. boot_map_page endv (of_nat (4096 * v)) pa PTE_W (of_nat (4096 * k)) s1 = Inr s2 \<and> P (Suc k) s2"
    if k: "k < n" and P: "P k s1" for k s1
  proof -
    let ?la = "of_nat (4096 * v) + of_nat (4096 * k) :: u32"
    from P obtain f1 where f1: "boot_ok s1 d f1" "f1 \<le> f + card (slots v k)" "seg_mapped v k pa d s s1"
      by (auto simp: P_def)
    have vk: "v + k < 1048576" using v k by simp
    note addr = page_addr [OF vk]
    have sub: "slots v (Suc k) \<subseteq> slots v n" using k by (intro slots_mono) simp
    have "(v + k) div 1024 \<in> slots v n" using sub unfolding slots_Suc by blast
    then have i: "pdi ?la \<noteq> SELF" using self addr(1) by metis
    have new: "card (slots v (Suc k)) = Suc (card (slots v k))" if "pde s1 d (pdi ?la) = 0"
    proof -
      have "\<forall>i \<in> slots v k. pde s1 d i \<noteq> 0" using seg_mappedD(3) [OF f1(3)] by blast
      then have "(v + k) div 1024 \<notin> slots v k" using that addr(1) by metis
      then show ?thesis by (simp add: slots_Suc)
    qed
    have le: "card (slots v (Suc k)) \<le> card (slots v n)" by (rule card_mono [OF finite_slots sub])
    have np: "npages s1 = npages s" using f1(3) by (simp add: seg_mapped_def)
    have "f1 < unat (npages s1)" if "pde s1 d (pdi ?la) = 0"
      using new [OF that] le f1(2) room np by simp
    from boot_map_page_step [OF f1(1) i this] obtain s2 where
        s2: "boot_map_page endv (of_nat (4096 * v)) pa PTE_W (of_nat (4096 * k)) s1 = Inr s2"
          "boot_ok s2 d (if pde s1 d (pdi ?la) = 0 then Suc f1 else f1)"
          "map_step d (pdi ?la) (pti ?la) (pa + of_nat (4096 * k) OR PTE_P OR PTE_W) s1 s2"
      by blast
    have "seg_mapped v (Suc k) pa d s s2"
      using seg_mapped_Suc [OF f1(3) vk _ s2(3) [unfolded addr]] sub self by blast
    moreover have "(if pde s1 d (pdi ?la) = 0 then Suc f1 else f1) \<le> f + card (slots v (Suc k))"
      using new f1(2) card_mono [OF finite_slots slots_mono [of k "Suc k" v]] by simp
    ultimately show ?thesis using s2(1,2) unfolding P_def by blast
  qed
  have "P 0 s" unfolding P_def using ok by (intro exI [of _ f]) (simp add: seg_mapped_0)
  from for_pages_run [where P = P and c = "\<lambda>i. i < sz" and n = n and j = 0, OF _ sz(2) _ this,
      of "boot_map_page endv (of_nat (4096 * v)) pa PTE_W"] step sz(1)
  show ?thesis unfolding boot_map_segment_def P_def by auto
qed

end
