(* ===== verification/Boot_Mem.thy ===== *)
theory Boot_Mem
  imports Boot_Map Pmap_Insert
begin

text \<open>
  \<^verbatim>\<open>boot_mem_init\<close> from one end to the other: the memory the clock chip reports, the
  directory, the two segments, the array \<^verbatim>\<open>pages[]\<close>, the check and the switch to paging.
\<close>

section \<open>Detecting memory\<close>

lemma nvram_read_small: "unat (fst (nvram_read io r d)) < 65536"
proof -
  have lo: "unat (ucast v :: u32) < 2 ^ 16" for v :: u8
  proof -
    have "unat (ucast v :: u32) = unat v" by transfer simp
    then show ?thesis using unat_lt_8 [of v] by (simp del: unat_lt_8)
  qed
  have hi: "unat (push_bit 8 (ucast v :: u32)) < 2 ^ 16" for v :: u8
  proof -
    have "unat (ucast v :: u32) = unat v" by transfer simp
    moreover from this have "unat (push_bit 8 (ucast v :: u32)) = 256 * unat v"
      using unat_lt_8 [of v] by (simp add: push_bit_eq_mult unat_word_ariths del: unat_lt_8)
    ultimately show ?thesis using unat_lt_8 [of v] by (simp del: unat_lt_8)
  qed
  show ?thesis
    using unat_or_lt [OF lo hi] by (simp add: nvram_read_def mc146818_read_def case_prod_beta Let_def)
qed

lemma kilobytes_to_pages:
  assumes "unat (w :: u32) < 65536"
  shows "unat (w * 1024 div 4096) = unat w div 4"
proof -
  have "unat (w * 1024) = unat w * 1024" using assms by (subst unat_mult_small) auto
  then have "unat (w * 1024 div 4096) = unat w * 1024 div 4096" by (simp add: unat_div_distrib)
  also have "\<dots> = unat w div 4" by simp
  finally show ?thesis .
qed

lemma i386_mem_detect_eq:
  obtains d' b n where "i386_mem_detect io d s = (d', s\<lparr>n_base_pages := b, npages := n\<rparr>)"
    and "unat n \<le> 16639" and "unat b \<le> 16383"
proof -
  obtain b d1 where b: "nvram_read io NVRAM_BASELO d = (b, d1)" by (cases "nvram_read io NVRAM_BASELO d")
  obtain x d2 where x: "nvram_read io NVRAM_EXTLO d1 = (x, d2)" by (cases "nvram_read io NVRAM_EXTLO d1")
  have lt: "unat b < 65536" "unat x < 65536"
    using nvram_read_small [of io NVRAM_BASELO d] nvram_read_small [of io NVRAM_EXTLO d1] b x by simp_all
  let ?b = "b * 1024 div 4096" and ?x = "x * 1024 div 4096"
  have p: "unat ?b \<le> 16383" "unat ?x \<le> 16383"
    using lt by (simp_all add: kilobytes_to_pages)
  have "unat (EXTPHYSMEM div PGSIZE + ?x) = 256 + unat ?x"
    using p by (subst unat_add_small) simp_all
  then have "unat (if ?x \<noteq> 0 then EXTPHYSMEM div PGSIZE + ?x else ?b) \<le> 16639" using p by auto
  moreover have "i386_mem_detect io d s =
      (d2, s\<lparr>n_base_pages := ?b, npages := if ?x \<noteq> 0 then EXTPHYSMEM div PGSIZE + ?x else ?b\<rparr>)"
    using b x by (simp add: i386_mem_detect_def)
  ultimately show thesis using that p(1) by blast
qed

section \<open>The directory\<close>

text \<open>The first page behind the kernel.\<close>

definition frame_up :: "u32 \<Rightarrow> nat" where
  "frame_up a = (unat a - 0xF0000000 + 4095) div 4096"

lemma ROUNDUP_frame:
  assumes "KERNBASE \<le> a" and "frame_up a < 65536"
  shows "ROUNDUP a PGSIZE = kva (frame_up a)"
proof -
  define x where "x = unat a - 0xF0000000"
  have x: "unat a = 0xF0000000 + x" using assms(1) by (simp add: word_le_nat_alt x_def)
  have "x + 4095 < 65536 * 4096"
    using assms(2) unfolding frame_up_def x_def [symmetric] by (simp add: div_less_iff_less_mult)
  then have "unat (ROUNDUP a PGSIZE) = (unat a + 4095) div 4096 * 4096"
    using x by (subst unat_ROUNDUP) simp_all
  also have "unat a + 4095 = (x + 4095) + 983040 * 4096" using x by simp
  also have "((x + 4095) + 983040 * 4096) div 4096 * 4096 = 0xF0000000 + 4096 * ((x + 4095) div 4096)"
    by (subst div_mult_self1) simp_all
  also have "\<dots> = unat (kva (frame_up a))"
    using assms(2) by (simp add: unat_cell frame_up_def x_def)
  finally show ?thesis by (simp add: word_unat_eq_iff)
qed

definition self_pde :: "nat \<Rightarrow> u32" where
  "self_pde e = page2pa (of_nat e) OR PTE_W OR PTE_P"

lemma self_pde: "e < 65536 \<Longrightarrow> self_pde e \<noteq> 0 \<and> fr (self_pde e) = e"
proof
  assume e: "e < 65536"
  have eq: "self_pde e = page2pa (of_nat e) OR 3" by (simp add: self_pde_def)
  show "fr (self_pde e) = e" unfolding eq using e by (subst fr_or_perm) (simp_all add: unat_of_nat)
  have "present (self_pde e)" unfolding eq by (rule present_or) simp
  then show "self_pde e \<noteq> 0" by (auto simp: present_def)
qed

lemma boot_pgdir_init_ok:
  assumes first: "nextfree s = 0" and e: "KERNBASE \<le> endv" "frame_up endv = e" "e < unat (npages s)"
    and np: "unat (npages s) < 65536"
  shows "\<exists>s'. boot_pgdir_init endv s = Inr s' \<and> boot_ok s' e (Suc e) \<and> npages s' = npages s \<and>
    (\<forall>i < 1024. pde s' e i = (if i = SELF then self_pde e else 0))"
proof -
  have lt: "e < 65535" "e < 65536" using e np by linarith+
  have up: "ROUNDUP endv 4096 = kva e" using ROUNDUP_frame [OF e(1)] e(2) lt by simp
  have alloc: "boot_alloc endv 4096 s = (kva e, s\<lparr>nextfree := kva (Suc e)\<rparr>)"
    using first ROUNDUP_kva [OF lt(1)] by (simp add: boot_alloc_def up Let_def kva_Suc)
  let ?z = "mem_zero (kva e) 4096 (s\<lparr>nextfree := kva (Suc e), kern_pgdir := kva e\<rparr>)"
  let ?s = "store (cell e 959) (self_pde e) ?z"
  have "kva e + 4 * PDX VPT = cell e 959"
    using pdep_cell [OF lt(2), of VPT] by (simp add: unat_PDX)
  then have run: "boot_pgdir_init endv s = Inr ?s"
    by (simp add: boot_pgdir_init_def alloc Let_def PADDR_kva [OF lt(2)] self_pde_def
        del: PTE_W_def PTE_P_def VPT_def)
  have pde: "pde ?s e i = (if i = SELF then self_pde e else 0)" if "i < 1024" for i
    using that lt by (simp add: pde_def cell_eq_iff mem_zero_cell)
  have "boot_ok ?s e (Suc e)"
    unfolding boot_ok_def using e np by (auto simp: pde)
  then show ?thesis using run pde by (intro exI [of _ ?s]) simp
qed

section \<open>The two segments\<close>

lemma card_slots:
  "slots 982008 8 \<subseteq> {958}" "card (slots 982008 8) \<le> 1"
  "slots 983040 65536 \<subseteq> {960..<1024}" "card (slots 983040 65536) \<le> 64"
proof -
  show s: "slots 982008 8 \<subseteq> {958}" "slots 983040 65536 \<subseteq> {960..<1024}"
    by (auto simp: slots_def)
  show "card (slots 982008 8) \<le> 1" "card (slots 983040 65536) \<le> 64"
    using card_mono [OF _ s(1)] card_mono [OF _ s(2)] by simp_all
qed

text \<open>After both segments: the frames \<open>e\<close> (the directory) up to \<open>f\<close> are taken.\<close>

definition kernel_mapped :: "nat \<Rightarrow> nat \<Rightarrow> u32 \<Rightarrow> 'a vm_scheme \<Rightarrow> bool" where
  "kernel_mapped e f stack s \<longleftrightarrow>
     kern_pgdir s = kva e \<and> e < f \<and> f < unat (npages s) \<and> unat (npages s) < 65536 \<and>
     (\<forall>i < 1024. if i = SELF then pde s e i = self_pde e
        else if i \<in> insert 958 {960..<1024}
          then present (pde s e i) \<and> e < fr (pde s e i) \<and> fr (pde s e i) < f
        else pde s e i = 0) \<and>
     (\<forall>j < 8. pte s e ((982008 + j) div 1024) ((982008 + j) mod 1024) = stack + of_nat (4096 * j) OR PTE_P OR PTE_W) \<and>
     (\<forall>j < 65536. pte s e ((983040 + j) div 1024) ((983040 + j) mod 1024) = of_nat (4096 * j) OR PTE_P OR PTE_W)"

lemma slot_div: "l < 1024 \<Longrightarrow> (1024 * i + l) div 1024 = i \<and> (1024 * i + l) mod 1024 = (l :: nat)"
  by simp

lemma boot_segments_ok:
  assumes ok: "boot_ok s e (Suc e)" and pde: "\<forall>i < 1024. pde s e i = (if i = SELF then self_pde e else 0)"
    and room: "e + 66 < unat (npages s)"
  shows "\<exists>s1 s2 f. boot_map_segment endv (KSTACKTOP - KSTKSIZE) KSTKSIZE stack PTE_W s = Some (Inr s1) \<and>
    boot_map_segment endv KERNBASE (0xffffffff - KERNBASE) 0 PTE_W s1 = Some (Inr s2) \<and>
    nextfree s2 = kva f \<and> f \<le> e + 66 \<and> npages s2 = npages s \<and> kernel_mapped e f stack s2"
proof -
  have la: "KSTACKTOP - KSTKSIZE = of_nat (4096 * 982008)" "KERNBASE = of_nat (4096 * 983040)"
    by simp_all
  have "\<exists>s1 f1. boot_map_segment endv (of_nat (4096 * 982008)) KSTKSIZE stack PTE_W s = Some (Inr s1) \<and>
      boot_ok s1 e f1 \<and> f1 \<le> Suc e + card (slots 982008 8) \<and> seg_mapped 982008 8 stack e s s1"
    using card_slots(1,2) room
    by (intro boot_map_segment_ok [OF ok]) (auto simp: word_less_nat_alt unat_word_ariths unat_of_nat)
  then obtain s1 f1 where s1: "boot_map_segment endv (of_nat (4096 * 982008)) KSTKSIZE stack PTE_W s = Some (Inr s1)"
    "boot_ok s1 e f1" "f1 \<le> Suc e + 1" "seg_mapped 982008 8 stack e s s1"
    using card_slots(2) by fastforce
  have np1: "npages s1 = npages s" using s1(4) by (simp add: seg_mapped_def)
  have "\<exists>s2 f2. boot_map_segment endv (of_nat (4096 * 983040)) (0xffffffff - KERNBASE) 0 PTE_W s1 = Some (Inr s2) \<and>
      boot_ok s2 e f2 \<and> f2 \<le> f1 + card (slots 983040 65536) \<and> seg_mapped 983040 65536 0 e s1 s2"
    using card_slots(3,4) room s1(3) np1
    by (intro boot_map_segment_ok [OF s1(2)]) (auto simp: word_less_nat_alt unat_word_ariths unat_of_nat)
  then obtain s2 f2 where s2: "boot_map_segment endv (of_nat (4096 * 983040)) (0xffffffff - KERNBASE) 0 PTE_W s1 = Some (Inr s2)"
    "boot_ok s2 e f2" "f2 \<le> f1 + 64" "seg_mapped 983040 65536 0 e s1 s2"
    using card_slots(4) by fastforce
  note M1 = seg_mappedD [OF s1(4)] and M2 = seg_mappedD [OF s2(4)]
  have np2: "npages s2 = npages s" using M2(1) np1 by simp
  note O = boot_okD [OF s2(2)]
  have pde1: "pde s1 e i = (if i = SELF then self_pde e else 0)" if "i < 1024" "i \<noteq> 958" for i
  proof -
    have "i \<notin> slots 982008 8" using that(2) card_slots(1) by blast
    then show ?thesis using M1(2) [OF that(1)] pde that(1) by simp
  qed
  have in1: "958 \<in> slots 982008 8" "958 < (1024 :: nat)" by (auto simp: slots_def intro!: image_eqI [of _ _ 0])
  have nz1: "pde s1 e 958 \<noteq> 0" using M1(3) [OF in1(1)] .
  have in2: "i \<in> slots 983040 65536" if "960 \<le> i" "i < 1024" for i
    using that by (auto simp: slots_def intro!: image_eqI [of _ _ "1024 * (i - 960)"])
  have same2: "pde s2 e i = pde s1 e i" if "i < 1024" "\<not> 960 \<le> i" for i
  proof -
    have "i \<notin> slots 983040 65536" using that(2) card_slots(3) by fastforce
    then show ?thesis using M2(2) [OF that(1)] by simp
  qed
  have nz2: "pde s2 e i \<noteq> 0" if "960 \<le> i" "i < 1024" for i
    using M2(3) [OF in2 [OF that]] .
  have km: "kernel_mapped e f2 stack s2"
    unfolding kernel_mapped_def
  proof (intro conjI allI impI)
    fix i assume i: "i < (1024 :: nat)"
    show "if i = SELF then pde s2 e i = self_pde e
        else if i \<in> insert 958 {960..<1024}
          then present (pde s2 e i) \<and> e < fr (pde s2 e i) \<and> fr (pde s2 e i) < f2
        else pde s2 e i = 0"
      using i pde1 [OF i] same2 [OF i] nz1 nz2 [of i] O(8-10) [OF i] by auto
  next
    fix j assume j: "j < (8 :: nat)"
    then have d: "(982008 + j) div 1024 = 958" "(982008 + j) mod 1024 = 1016 + j"
      using slot_div [of "1016 + j" 958] by simp_all
    have "pte s2 e 958 (1016 + j) = pte s1 e 958 (1016 + j)"
      using M2(5) [of 958 "1016 + j"] nz1 j by simp
    moreover have "pte s1 e ((982008 + j) div 1024) ((982008 + j) mod 1024) = stack + of_nat (4096 * j) OR PTE_P OR PTE_W"
      using M1(4) [OF j] .
    ultimately show "pte s2 e ((982008 + j) div 1024) ((982008 + j) mod 1024) = stack + of_nat (4096 * j) OR PTE_P OR PTE_W"
      unfolding d by simp
  next
    fix j assume j: "j < (65536 :: nat)"
    then show "pte s2 e ((983040 + j) div 1024) ((983040 + j) mod 1024) = of_nat (4096 * j) OR PTE_P OR PTE_W"
      using M2(4) [of j] by simp
  qed (use O(1-3,5) s1(3) s2(3) room np2 in simp_all)
  show ?thesis
    using s1(1) s2(1) O(2) s1(3) s2(3) np2 km unfolding la
    by (intro exI [of _ s1] exI [of _ s2] exI [of _ f2]) simp
qed

section \<open>The check passes\<close>

lemma present_entry: "present (w OR PTE_P OR PTE_W)"
  by (rule present_or) simp

lemma PTE_ADDR_entry:
  assumes "4096 dvd unat w"
  shows "PTE_ADDR (w OR PTE_P OR PTE_W) = w"
proof -
  have "w AND 3 = 0" using and_low_eq_0 [of 12 w 3] assms by simp
  then have u: "unat (w OR 3) = unat w + 3" by (simp add: unat_or_disjoint)
  have "(unat w + 3) div 4096 * 4096 = unat w" using assms by auto
  then show ?thesis by (simp add: word_unat_eq_iff unat_PTE_ADDR u)
qed

lemma aligned_add:
  assumes "4096 dvd unat (w :: u32)"
  shows "4096 dvd unat (w + of_nat (4096 * j))"
proof -
  have "(4096 :: nat) dvd 4294967296" by simp
  moreover have "unat (of_nat (4096 * j) :: u32) = 4096 * j mod 4294967296" by (simp only: unat_of_nat) simp
  ultimately have "4096 dvd unat (of_nat (4096 * j) :: u32)" by (simp add: dvd_mod_iff)
  then show ?thesis
    using assms \<open>4096 dvd 4294967296\<close> by (simp add: unat_word_ariths dvd_mod_iff)
qed

lemma kernel_va2pa:
  assumes km: "kernel_mapped e f stack s" and i: "(v + j) div 1024 \<in> insert 958 {960..<1024}" "v + j < 1048576"
    and p: "pte s e ((v + j) div 1024) ((v + j) mod 1024) = w OR PTE_P OR PTE_W" and w: "4096 dvd unat w"
  shows "check_va2pa (kva e) (of_nat (4096 * v) + of_nat (4096 * j)) s = Inr w"
proof -
  let ?i = "(v + j) div 1024"
  have lt: "?i < 1024" using i(2) by (simp add: less_mult_imp_div_less)
  have b: "e < f" "f < unat (npages s)" "unat (npages s) < 65536" using km unfolding kernel_mapped_def by blast+
  have "?i \<noteq> SELF" using i(1) by auto
  then have "present (pde s e ?i) \<and> e < fr (pde s e ?i) \<and> fr (pde s e ?i) < f"
    using km lt i(1) unfolding kernel_mapped_def by metis
  then show ?thesis
    using check_va2pa_entry [of e s "of_nat (4096 * v) + of_nat (4096 * j)"] b
    by (simp only: page_addr [OF i(2)] p present_entry PTE_ADDR_entry [OF w]) simp
qed

lemma kernel_va2pa_all:
  assumes "kernel_mapped e f stack s" and "4096 dvd unat stack"
  shows "j < 65536 \<Longrightarrow> check_va2pa (kva e) (KERNBASE + of_nat (4096 * j)) s = Inr (of_nat (4096 * j))"
    and "j < 8 \<Longrightarrow> check_va2pa (kva e) (KSTACKTOP - KSTKSIZE + of_nat (4096 * j)) s =
          Inr (stack + of_nat (4096 * j))"
proof -
  have la: "KSTACKTOP - KSTKSIZE = of_nat (4096 * 982008)" "KERNBASE = of_nat (4096 * 983040)"
    by simp_all
  show "check_va2pa (kva e) (KERNBASE + of_nat (4096 * j)) s = Inr (of_nat (4096 * j))" if "j < 65536"
    unfolding la
  proof (rule kernel_va2pa [OF assms(1)])
    show "pte s e ((983040 + j) div 1024) ((983040 + j) mod 1024) = of_nat (4096 * j) OR PTE_P OR PTE_W"
      using assms(1) that unfolding kernel_mapped_def by blast
    show "4096 dvd unat (of_nat (4096 * j) :: u32)" using aligned_add [of 0 j] by simp
  qed (use that in auto)
  show "check_va2pa (kva e) (KSTACKTOP - KSTKSIZE + of_nat (4096 * j)) s = Inr (stack + of_nat (4096 * j))" if "j < 8"
    unfolding la
  proof (rule kernel_va2pa [OF assms(1)])
    show "pte s e ((982008 + j) div 1024) ((982008 + j) mod 1024) = stack + of_nat (4096 * j) OR PTE_P OR PTE_W"
      using assms(1) that unfolding kernel_mapped_def by blast
    show "4096 dvd unat (stack + of_nat (4096 * j))" by (rule aligned_add [OF assms(2)])
  qed (use that in auto)
qed

lemma check_segment_ok:
  assumes "\<And>k. k < n \<Longrightarrow> c (of_nat (4096 * k)) \<and>
      check_va2pa (kern_pgdir s) (la + of_nat (4096 * k)) s = Inr (pa + of_nat (4096 * k))"
    and "\<not> c (of_nat (4096 * n))"
  shows "check_segment c la pa msg s = Some (Inr s)"
proof -
  have "\<exists>s'. check_segment c la pa msg s = Some (Inr s') \<and> s' = s"
    unfolding check_segment_def
    using for_pages_run [where P = "\<lambda>_ t. t = s" and c = c and n = n and j = 0 and s = s, OF _ assms(2)] assms(1)
    by simp
  then show ?thesis by simp
qed

lemma check_pdes_ok: "(\<And>i. i \<in> set is \<Longrightarrow> check_pde s (of_nat i) = Inr ()) \<Longrightarrow> check_pdes s is = Inr ()"
  by (induction "is") auto

lemma kernel_pdes:
  assumes "kernel_mapped e f stack s" and "i < 1024"
  shows "check_pde s (of_nat i) = Inr ()"
proof -
  have km: "kern_pgdir s = kva e" "e < 65536"
    using assms(1) unfolding kernel_mapped_def by (blast, linarith)
  have u: "unat (of_nat i :: u32) = i" using assms(2) by (intro unat_of_nat_small) simp
  then have m: "mem s (kern_pgdir s + 4 * of_nat i) = pde s e i"
    using cell_index [of e "of_nat i"] km assms(2) by (simp add: pde_def)
  have vals: "PDX VPT = 959" "PDX (KSTACKTOP - 1) = 958" "PDX KERNBASE = 960"
    by (simp_all add: word_unat_eq_iff unat_PDX)
  have "pde s e i \<noteq> 0 \<longleftrightarrow> i = 959 \<or> i = 958 \<or> 960 \<le> i"
    using assms self_pde [OF km(2)] unfolding kernel_mapped_def by (auto split: if_splits simp: present_def)
  then show ?thesis
    by (simp only: check_pde_def m vals Let_def) (auto simp: word_unat_eq_iff word_le_nat_alt u)
qed

lemma boot_mem_check_ok:
  assumes km: "kernel_mapped e f pa s" and stack: "PADDR bootstack = Inr pa" "4096 dvd unat pa"
  shows "boot_mem_check bootstack s = Some (Inr s)"
proof -
  have k: "kern_pgdir s = kva e" using km by (simp add: kernel_mapped_def)
  note va = kernel_va2pa_all [OF km stack(2)]
  have "check_segment (\<lambda>i. KERNBASE + i \<noteq> 0) KERNBASE 0 msg s = Some (Inr s)" for msg
  proof (rule check_segment_ok [where n = 65536])
    fix i :: nat assume i: "i < 65536"
    have "unat (KERNBASE + of_nat (4096 * i)) = 0xF0000000 + 4096 * i"
      using i unat_cell [of i 0] by (simp add: cell_def)
    then have "KERNBASE + of_nat (4096 * i) \<noteq> 0" using unat_0 by (metis add_is_0 zero_neq_numeral)
    then show "KERNBASE + of_nat (4096 * i) \<noteq> 0 \<and>
        check_va2pa (kern_pgdir s) (KERNBASE + of_nat (4096 * i)) s = Inr (0 + of_nat (4096 * i))"
      using va(1) [OF i] k by simp
  qed simp
  moreover have "check_segment (\<lambda>i. i < KSTKSIZE) (KSTACKTOP - KSTKSIZE) pa msg s = Some (Inr s)" for msg
  proof (rule check_segment_ok [where n = 8])
    fix i :: nat assume i: "i < 8"
    have "unat (of_nat (4096 * i) :: u32) = 4096 * i" using i by (intro unat_of_nat_small) simp
    then have "of_nat (4096 * i) < KSTKSIZE" using i by (simp only: word_less_nat_alt) simp
    then show "of_nat (4096 * i) < KSTKSIZE \<and>
        check_va2pa (kern_pgdir s) (KSTACKTOP - KSTKSIZE + of_nat (4096 * i)) s = Inr (pa + of_nat (4096 * i))"
      using va(2) [OF i] k by simp
  qed simp
  moreover have "check_pdes s [0..<unat NPDENTRIES] = Inr ()"
    using kernel_pdes [OF km] by (intro check_pdes_ok) simp
  ultimately show ?thesis by (simp only: boot_mem_check_def stack) simp
qed

end
