(* ===== verification/Pmap_Props.thy ===== *)
theory Pmap_Props
  imports Page_Pool
begin

text \<open>
  The contract of the page table operations of \<^verbatim>\<open>kern/pmap.c\<close>. All of them speak of a state
  that satisfies \<open>pmap_inv\<close>: the directory is the frame \<open>pn\<close>, the free pages are \<open>xs\<close>, and
  every reference count is the number of entries that name the page.
\<close>

section \<open>The allocator\<close>

text \<open>C23: \<^verbatim>\<open>page_alloc\<close> called \<open>n\<close> times returns distinct pages of the machine, as many as were
  free up to \<open>n\<close>, and giving them back with \<^verbatim>\<open>page_free\<close> in the same order leaves every page
  that was free on the list again.\<close>

theorem page_alloc_free_pool:
  assumes "avail_pages s xs"
  shows "\<exists>s1 s2. take_n page_alloc n s = Inr (take n xs, s1) \<and>
    put_all page_free (take n xs) s1 = Inr s2 \<and> avail_pages s2 (rev (take n xs) @ drop n xs)"
  by (rule page_pool.take_put [OF assms])

lemma small_machine_avail:
  "distinct xs \<Longrightarrow> \<forall>x \<in> set xs. x \<noteq> 0 \<and> x < 16 \<Longrightarrow> avail_pages (small_machine xs) xs"
  by (drule (1) small_machine_inv(1)) (simp add: pmap_inv_def pages_ok_def list_ok_def avail_pages_def)

lemma page_alloc_free_pool_witness:
  "\<exists>s1 s2. take_n page_alloc 2 (small_machine [4, 9, 3]) = Inr ([4, 9], s1) \<and>
     put_all page_free [4, 9] s1 = Inr s2 \<and> avail_pages s2 [9, 4, 3]"
proof -
  have "avail_pages (small_machine [4, 9, 3]) [4, 9, 3]" by (rule small_machine_avail) simp_all
  from page_alloc_free_pool [OF this, of 2] show ?thesis
    by (simp del: take_n.simps put_all.simps)
qed

section \<open>Inserting a mapping\<close>

text \<open>C1: \<^verbatim>\<open>page_insert\<close> returns 0, maps \<open>va\<close> to the page with the permissions asked for, keeps
  the mapping of every address of another page (but for those looked up through the
  directory's own entry), and invalidates the TLB entry exactly when something was mapped.\<close>

theorem page_insert_maps:
  assumes "pmap_inv s pn xs None" and "pdi va < UPDX"
    and "pde s pn (pdi va) = 0 \<longrightarrow> xs \<noteq> []"
    and "p < npages s" and "p \<notin> set xs" and "unat p \<notin> kernel_frames s pn"
    and "pp_ref (pages s p) \<noteq> 0xFFFF" and "unat perm < 4096"
  shows "\<exists>s'. page_insert (kva pn) p va perm s = Inr (Inr (), s') \<and>
    check_va2pa (kva pn) va s' = Inr (page2pa p) \<and>
    pte s' pn (pdi va) (pti va) = page2pa p OR PTE_P OR perm \<and>
    (\<forall>va'. PGNUM va' \<noteq> PGNUM va \<and> outside s pn va' \<longrightarrow>
       check_va2pa (kva pn) va' s' = check_va2pa (kva pn) va' s) \<and>
    tlb s' = (if check_va2pa (kva pn) va s = Inr (NOT 0) then tlb s else va # tlb s)"
proof -
  obtain s' where s': "page_insert (kva pn) p va perm s = Inr (Inr (), s')"
    "pmap_inv s' pn (released s p (mapped s pn va) (after_table s pn va xs)) None"
    "pte s' pn (pdi va) (pti va) = page2pa p OR PTE_P OR perm" "mapped s' pn va = Some p"
    "\<And>va'. PGNUM va' \<noteq> PGNUM va \<Longrightarrow> outside s pn va' \<Longrightarrow>
       check_va2pa (kva pn) va' s' = check_va2pa (kva pn) va' s"
    "tlb s' = (if mapped s pn va = None then tlb s else va # tlb s)"
    by (rule page_insert_ok [OF assms(1,2) _ assms(4-8)]) (use assms(3) in blast)+
  have ok: "pages_ok s pn xs"
    "pages_ok s' pn (released s p (mapped s pn va) (after_table s pn va xs))"
    using assms(1) s'(2) by (simp_all add: pmap_inv_def)
  show ?thesis
    using s' mapped_check(1) [OF ok(1) assms(2)] mapped_check(2) [OF ok(2) assms(2) s'(4)] by auto
qed

lemma page_insert_maps_witness:
  "\<exists>s'. page_insert (kva 0) 5 0x1000 PTE_W (small_machine [4, 9]) = Inr (Inr (), s') \<and>
    check_va2pa (kva 0) 0x1000 s' = Inr 0x5000 \<and> pte s' 0 0 1 = 0x5003"
  using page_insert_maps [of "small_machine [4, 9]" 0 "[4, 9]" "0x1000" 5 PTE_W]
  by (simp add: small_machine_inv unat_PDX unat_PTX UPDX_def page2pa_def page2ppn_def) blast

text \<open>C2: \<^verbatim>\<open>page_insert\<close> keeps the invariant, and its effect on the reference counts is exact: the
  page gains one reference, the page mapped at \<open>va\<close> before loses one (and goes to the free
  list when it was the last, never when it is the page being inserted), the page taken for a
  new table has one.\<close>

theorem page_insert_counts:
  assumes "pmap_inv s pn xs None" and "pdi va < UPDX"
    and "pde s pn (pdi va) = 0 \<longrightarrow> xs \<noteq> []"
    and "p < npages s" and "p \<notin> set xs" and "unat p \<notin> kernel_frames s pn"
    and "pp_ref (pages s p) \<noteq> 0xFFFF" and "unat perm < 4096"
  shows "\<exists>s'. page_insert (kva pn) p va perm s = Inr (Inr (), s') \<and>
    pmap_inv s' pn (released s p (mapped s pn va) (after_table s pn va xs)) None \<and>
    (\<forall>q < npages s. unat (pp_ref (pages s' q)) + (if mapped s pn va = Some q then 1 else 0) =
       unat (pp_ref (pages s q)) + (if q = p then 1 else 0)
       + (if pde s pn (pdi va) = 0 \<and> q = hd xs then 1 else 0))"
  by (rule page_insert_ok [OF assms(1,2) _ assms(4-8)]) (use assms(3) in blast)+

lemma page_insert_counts_witness:
  "\<exists>s'. page_insert (kva 0) 5 0x1000 PTE_W (small_machine [4, 9]) = Inr (Inr (), s') \<and>
    pmap_inv s' 0 [9] None \<and> unat (pp_ref (pages s' 5)) = 1 \<and> unat (pp_ref (pages s' 4)) = 1"
  using page_insert_counts [of "small_machine [4, 9]" 0 "[4, 9]" "0x1000" 5 PTE_W]
  by (force simp: small_machine_inv unat_PDX unat_PTX UPDX_def mapped_def released_def
      after_table_def)

text \<open>C25: When a table is needed and no page is free, \<^verbatim>\<open>page_insert\<close> returns
  \<^verbatim>\<open>-E_NO_MEM\<close> and leaves memory, reference counts and free list as they were.\<close>

theorem page_insert_out_of_memory:
  assumes "pmap_inv s pn [] held" and "pde s pn (pdi va) = 0"
  shows "page_insert (kva pn) p va perm s = Inr (Inl E_NO_MEM, s)"
  using assms by (intro page_insert_no_memory) (simp_all add: pmap_inv_def)

lemma page_insert_out_of_memory_witness:
  "page_insert (kva 0) 5 0x1000 PTE_W (small_machine []) = Inr (Inl E_NO_MEM, small_machine [])"
  by (rule page_insert_out_of_memory [where held = None]) (simp_all add: small_machine_inv)

section \<open>Removing a mapping\<close>

text \<open>C5: \<^verbatim>\<open>page_remove\<close> of a mapped address unmaps it, takes exactly one reference from the
  page, frees the page when that was the last one, invalidates the TLB entry, keeps every
  other mapping and the invariant.\<close>

theorem page_remove_unmaps:
  assumes "pmap_inv s pn xs held" and "pdi va < UPDX"
    and "check_va2pa (kva pn) va s = Inr pa" and "pa \<noteq> NOT 0"
  shows "\<exists>s'. page_remove (kva pn) va s = Inr s' \<and>
    pmap_inv s' pn (if pp_ref (pages s (PGNUM pa)) = 1 then PGNUM pa # xs else xs) held \<and>
    check_va2pa (kva pn) va s' = Inr (NOT 0) \<and>
    (\<forall>va'. PGNUM va' \<noteq> PGNUM va \<longrightarrow>
       check_va2pa (kva pn) va' s' = check_va2pa (kva pn) va' s) \<and>
    (\<forall>q. pp_ref (pages s' q) =
       (if q = PGNUM pa then pp_ref (pages s q) - 1 else pp_ref (pages s q))) \<and>
    tlb s' = va # tlb s"
  by (rule page_remove_maps [OF assms]) blast

text \<open>The machine in which page 5 is mapped at 0x1000.\<close>

lemma mapped_machine:
  obtains s where "page_insert (kva 0) 5 0x1000 PTE_W (small_machine [4, 9]) = Inr (Inr (), s)"
    and "pmap_inv s 0 [9] None" and "check_va2pa (kva 0) 0x1000 s = Inr 0x5000"
    and "pp_ref (pages s 5) = 1" and "pp_ref (pages s 0) = 0" and "npages s = 16"
    and "check_va2pa (kva 0) 0 s = Inr (NOT 0)" and "pde s 0 0 \<noteq> 0" and "pte s 0 0 0 = 0"
proof -
  note init = small_machine_inv [of "[4, 9]", simplified]
  have inv: "pmap_inv (small_machine [4, 9]) 0 [4, 9] None" by (rule init(1))
  have va: "pdi 0x1000 = 0" "pti 0x1000 = 1" "pdi 0 = 0" "pti 0 = 0" "PGNUM 0 \<noteq> PGNUM 0x1000"
    by (simp_all add: unat_PDX unat_PTX PGNUM_def)
  obtain s' where s': "page_insert (kva 0) 5 0x1000 PTE_W (small_machine [4, 9]) = Inr (Inr (), s')"
    "pmap_inv s' 0 (released (small_machine [4, 9]) 5 (mapped (small_machine [4, 9]) 0 0x1000)
        (after_table (small_machine [4, 9]) 0 0x1000 [4, 9])) None"
    "mapped s' 0 0x1000 = Some 5"
    "\<And>va'. PGNUM va' \<noteq> PGNUM 0x1000 \<Longrightarrow> outside (small_machine [4, 9]) 0 va' \<Longrightarrow>
       check_va2pa (kva 0) va' s' = check_va2pa (kva 0) va' (small_machine [4, 9])"
    "npages s' = npages (small_machine [4, 9])"
    "\<And>k. k < 1024 \<Longrightarrow> pde s' 0 k = (if k = pdi 0x1000 \<and> pde (small_machine [4, 9]) 0 k = 0
       then page2pa (hd [4, 9]) OR 7 else pde (small_machine [4, 9]) 0 k)"
    "\<And>q. q < npages (small_machine [4, 9]) \<Longrightarrow>
       unat (pp_ref (pages s' q)) + (if mapped (small_machine [4, 9]) 0 0x1000 = Some q then 1 else 0) =
       unat (pp_ref (pages (small_machine [4, 9]) q)) + (if q = 5 then 1 else 0)
       + (if pde (small_machine [4, 9]) 0 (pdi 0x1000) = 0 \<and> q = hd [4, 9] then 1 else 0)"
    by (rule page_insert_ok [OF inv, of "0x1000" 5 PTE_W])
      (use va init in \<open>simp_all add: UPDX_def\<close>)
  have none: "mapped (small_machine [4, 9]) 0 0x1000 = None" by (simp add: mapped_def init)
  have inv': "pmap_inv s' 0 [9] None"
    using s'(2) by (simp add: none released_def after_table_def init)
  then have ok: "pages_ok s' 0 [9]" by (simp add: pmap_inv_def)
  have "check_va2pa (kva 0) 0x1000 s' = Inr (page2pa 5)"
    by (rule mapped_check(2) [OF ok _ s'(3)]) (simp add: va UPDX_def)
  moreover have "check_va2pa (kva 0) 0 (small_machine [4, 9]) = Inr (NOT 0)"
    by (rule check_va2pa_absent) (simp_all add: va init)
  then have zero: "check_va2pa (kva 0) 0 s' = Inr (NOT 0)"
    using s'(4) [of 0] va by (simp add: outside_def UPDX_def)
  moreover have "pde s' 0 0 \<noteq> 0" using s'(3) va by (auto simp: mapped_def split: if_splits)
  moreover from this have "pte s' 0 0 0 = 0"
    using zero mapped_check(1) [OF ok, of 0] va by (simp add: mapped_def UPDX_def split: if_splits)
  moreover have "unat (pp_ref (pages s' 5)) = 1" "unat (pp_ref (pages s' 0)) = 0"
    using s'(7) [of 5] s'(7) [of 0] by (simp_all add: none init va)
  then have "pp_ref (pages s' 5) = 1" "pp_ref (pages s' 0) = 0"
    by (simp_all add: word_unat_eq_iff)
  ultimately show ?thesis
    using that [of s'] s'(1,5) inv' by (simp add: init page2pa_def page2ppn_def)
qed

lemma page_remove_unmaps_witness:
  "\<exists>s s'. page_insert (kva 0) 5 0x1000 PTE_W (small_machine [4, 9]) = Inr (Inr (), s) \<and>
     page_remove (kva 0) 0x1000 s = Inr s' \<and> pmap_inv s' 0 [5, 9] None \<and>
     check_va2pa (kva 0) 0x1000 s' = Inr (NOT 0)"
proof -
  obtain s where s: "page_insert (kva 0) 5 0x1000 PTE_W (small_machine [4, 9]) = Inr (Inr (), s)"
    "pmap_inv s 0 [9] None" "check_va2pa (kva 0) 0x1000 s = Inr 0x5000" "pp_ref (pages s 5) = 1"
    by (rule mapped_machine)
  have "PGNUM 0x5000 = 5" by (simp add: PGNUM_def)
  then show ?thesis
    using page_remove_unmaps [OF s(2) _ s(3)] s(1,4) by (auto simp: unat_PDX UPDX_def)
qed

text \<open>\<^verbatim>\<open>page_remove\<close> does nothing when no table covers the address.\<close>

lemma page_remove_no_table:
  assumes "pn < 65536" and "pde s pn (pdi va) = 0"
  shows "page_remove (kva pn) va s = Inr s"
  by (simp add: page_remove_def page_lookup_def pgdir_walk_absent [OF assms])

lemma page_remove_no_table_witness:
  "page_remove (kva 0) 0x1000 (small_machine [4, 9]) = Inr (small_machine [4, 9])"
  by (rule page_remove_no_table) (simp_all add: small_machine_inv)

text \<open>C24: \<^verbatim>\<open>page_lookup\<close> does not look at the entry it finds: for an address that is not mapped
  but whose table exists it returns \<^verbatim>\<open>&pages[0]\<close>, and \<^verbatim>\<open>page_remove\<close> takes a reference from
  page 0, whose count of 0 wraps to 0xFFFF. The documented result is null and no effect.\<close>

theorem page_remove_unmapped_page0:
  assumes "pmap_inv s pn xs held" and "pdi va < UPDX" and "pde s pn (pdi va) \<noteq> 0"
    and "pte s pn (pdi va) (pti va) = 0" and "pp_ref (pages s 0) = 0"
  shows "page_lookup (kva pn) va False s = Inr (Some 0, None, s) \<and>
    (\<exists>s'. page_remove (kva pn) va s = Inr s' \<and> pp_ref (pages s' 0) = 0xFFFF)"
proof -
  have ok: "pages_ok s pn xs" using assms(1) by (simp add: pmap_inv_def)
  note D = pages_okD [OF ok]
  let ?c = "cell (fr (pde s pn (pdi va))) (pti va)"
  have c: "?c \<noteq> 0" using D(8) [OF assms(2,3)] unat_PTX_lt by (rule cell_nonzero)
  have "page_lookup (kva pn) va w s = Inr (Some 0, if w then Some ?c else None, s)" for w
    using pgdir_walk_present [OF D(3) D(1) assms(3) D(7) [OF assms(2,3)]] c assms(4)
    by (simp add: page_lookup_def pte_def PGNUM_def PTE_ADDR_def)
  moreover have "0 < npages s" using D(2) by (simp add: word_less_nat_alt)
  ultimately show ?thesis
    using assms(5) by (simp add: page_remove_def page_decref_def set_ref_def tlb_invalidate_def)
qed

lemma page_remove_unmapped_page0_witness:
  "\<exists>s s'. page_insert (kva 0) 5 0x1000 PTE_W (small_machine [4, 9]) = Inr (Inr (), s) \<and>
     page_remove (kva 0) 0 s = Inr s' \<and> pp_ref (pages s' 0) = 0xFFFF"
proof -
  obtain s where s: "page_insert (kva 0) 5 0x1000 PTE_W (small_machine [4, 9]) = Inr (Inr (), s)"
    "pmap_inv s 0 [9] None" "pp_ref (pages s 0) = 0" "pde s 0 0 \<noteq> 0" "pte s 0 0 0 = 0"
    by (rule mapped_machine)
  then show ?thesis
    using page_remove_unmapped_page0 [OF s(2), of 0] by (auto simp: unat_PDX unat_PTX UPDX_def)
qed

end
