(* ===== verification/Pmap_Check.thy ===== *)
theory Pmap_Check
  imports Pmap_Props
begin

text \<open>
  \<^verbatim>\<open>page_check\<close> of \<^verbatim>\<open>kern/pmap.c\<close>, the self-test of the page table code, in the four
  phases its comments mark. An assertion that fails is \<open>Inl (Assertion _)\<close>. The final
  \<^verbatim>\<open>cprintf\<close> is left out. The pointers \<^verbatim>\<open>pp0\<close> to \<^verbatim>\<open>pp2\<close> are page numbers, so the
  assertions that they are not null are part of the result type of \<open>page_alloc\<close>.
\<close>

section \<open>The assertions\<close>

definition assert_alloc :: "string \<Rightarrow> 'a vm_scheme \<Rightarrow> (ppn \<times> 'a vm_scheme) res" where
  "assert_alloc msg s = res_bind (page_alloc s) (\<lambda>(r, s1).
     case r of Inl e \<Rightarrow> Inl (Assertion msg) | Inr pp \<Rightarrow> Inr (pp, s1))"

definition assert_no_page :: "'a vm_scheme \<Rightarrow> 'a vm_scheme res" where
  "assert_no_page s = res_bind (page_alloc s) (\<lambda>(r, s1).
     res_bind (check (r = Inl E_NO_MEM) ''page_alloc(&pp) == -E_NO_MEM'') (\<lambda>_. Inr s1))"

definition assert_insert :: "bool \<Rightarrow> ppn \<Rightarrow> u32 \<Rightarrow> 'a vm_scheme \<Rightarrow> 'a vm_scheme res" where
  "assert_insert ok pp va s = res_bind (page_insert (kern_pgdir s) pp va 0 s) (\<lambda>(r, s1).
     res_bind (check ((case r of Inl e \<Rightarrow> False | Inr _ \<Rightarrow> True) = ok) ''page_insert'') (\<lambda>_. Inr s1))"

definition assert_va2pa :: "u32 \<Rightarrow> u32 \<Rightarrow> 'a vm_scheme \<Rightarrow> 'a vm_scheme res" where
  "assert_va2pa va pa s = res_bind (check_va2pa (kern_pgdir s) va s) (\<lambda>x.
     res_bind (check (x = pa) ''check_va2pa'') (\<lambda>_. Inr s))"

definition assert_ref :: "ppn \<Rightarrow> u16 \<Rightarrow> 'a vm_scheme \<Rightarrow> 'a vm_scheme res" where
  "assert_ref pp n s = res_bind (check (pp_ref (pages s pp) = n) ''pp->pp_ref'') (\<lambda>_. Inr s)"

definition assert_table :: "ppn \<Rightarrow> 'a vm_scheme \<Rightarrow> 'a vm_scheme res" where
  "assert_table pp s = res_bind
     (check (PTE_ADDR (mem s (kern_pgdir s)) = page2pa pp) ''PTE_ADDR(kern_pgdir[0]) == page2pa(pp0)'')
     (\<lambda>_. Inr s)"

text \<open>Running steps in sequence.\<close>

fun steps :: "('s \<Rightarrow> 's res) list \<Rightarrow> 's \<Rightarrow> 's res" where
  "steps [] s = Inr s"
| "steps (f # fs) s = res_bind (f s) (steps fs)"

section \<open>The phases\<close>

definition page_check_take ::
    "'a vm_scheme \<Rightarrow> ((ppn \<times> ppn \<times> ppn \<times> ppn option) \<times> 'a vm_scheme) res" where
  "page_check_take s =
     res_bind (assert_alloc ''page_alloc(&pp0) == 0'' s) (\<lambda>(pp0, s).
     res_bind (assert_alloc ''page_alloc(&pp1) == 0'' s) (\<lambda>(pp1, s).
     res_bind (assert_alloc ''page_alloc(&pp2) == 0'' s) (\<lambda>(pp2, s).
     res_bind (check (pp1 \<noteq> pp0) ''pp1 && pp1 != pp0'') (\<lambda>_.
     res_bind (check (pp2 \<noteq> pp1 \<and> pp2 \<noteq> pp0) ''pp2 && pp2 != pp1 && pp2 != pp0'') (\<lambda>_.
       Inr ((pp0, pp1, pp2, lh_first s), LIST_INIT s))))))"

definition page_check_insert :: "ppn \<Rightarrow> ppn \<Rightarrow> ppn \<Rightarrow> 'a vm_scheme \<Rightarrow> 'a vm_scheme res" where
  "page_check_insert pp0 pp1 pp2 = steps
     [assert_no_page,
      (\<lambda>s. res_bind (page_lookup (kern_pgdir s) 0 True s) (\<lambda>(r, _, s).
         res_bind (check (r = None) ''page_lookup(kern_pgdir, 0, &ptep) == NULL'') (\<lambda>_. Inr s))),
      assert_insert False pp1 0,
      page_free pp0,
      assert_insert True pp1 0,
      assert_table pp0,
      assert_va2pa 0 (page2pa pp1),
      assert_ref pp1 1,
      assert_ref pp0 1,
      assert_insert True pp2 PGSIZE,
      assert_va2pa PGSIZE (page2pa pp2),
      assert_ref pp2 1,
      assert_no_page]"

definition page_check_replace :: "ppn \<Rightarrow> ppn \<Rightarrow> ppn \<Rightarrow> 'a vm_scheme \<Rightarrow> 'a vm_scheme res" where
  "page_check_replace pp0 pp1 pp2 = steps
     [assert_insert True pp2 PGSIZE,
      assert_va2pa PGSIZE (page2pa pp2),
      assert_ref pp2 1,
      assert_no_page,
      assert_insert False pp0 PTSIZE,
      assert_insert True pp1 PGSIZE,
      assert_va2pa 0 (page2pa pp1),
      assert_va2pa PGSIZE (page2pa pp1),
      assert_ref pp1 2,
      assert_ref pp2 0,
      (\<lambda>s. res_bind (assert_alloc ''page_alloc(&pp) == 0'' s) (\<lambda>(pp, s).
         res_bind (check (pp = pp2) ''pp == pp2'') (\<lambda>_. Inr s)))]"

definition page_check_remove :: "ppn \<Rightarrow> ppn \<Rightarrow> ppn \<Rightarrow> 'a vm_scheme \<Rightarrow> 'a vm_scheme res" where
  "page_check_remove pp0 pp1 pp2 = steps
     [(\<lambda>s. page_remove (kern_pgdir s) 0 s),
      assert_va2pa 0 (NOT 0),
      assert_va2pa PGSIZE (page2pa pp1),
      assert_ref pp1 1,
      assert_ref pp2 0,
      (\<lambda>s. page_remove (kern_pgdir s) PGSIZE s),
      assert_va2pa 0 (NOT 0),
      assert_va2pa PGSIZE (NOT 0),
      assert_ref pp1 0,
      assert_ref pp2 0,
      (\<lambda>s. res_bind (assert_alloc ''page_alloc(&pp) == 0'' s) (\<lambda>(pp, s).
         res_bind (check (pp = pp1) ''pp == pp1'') (\<lambda>_. Inr s))),
      assert_no_page]"

definition page_check_restore ::
    "ppn \<Rightarrow> ppn \<Rightarrow> ppn \<Rightarrow> ppn option \<Rightarrow> 'a vm_scheme \<Rightarrow> 'a vm_scheme res" where
  "page_check_restore pp0 pp1 pp2 fl = steps
     [assert_table pp0,
      (\<lambda>s. Inr (store (kern_pgdir s) 0 s)),
      assert_ref pp0 1,
      set_ref pp0 0,
      (\<lambda>s. Inr (s\<lparr>lh_first := fl\<rparr>)),
      page_free pp0,
      page_free pp1,
      page_free pp2]"

definition page_check :: "'a vm_scheme \<Rightarrow> 'a vm_scheme res" where
  "page_check s = res_bind (page_check_take s) (\<lambda>((pp0, pp1, pp2, fl), s1).
     steps [page_check_insert pp0 pp1 pp2, page_check_replace pp0 pp1 pp2,
            page_check_remove pp0 pp1 pp2, page_check_restore pp0 pp1 pp2 fl] s1)"

section \<open>The state between two steps\<close>

text \<open>
  \<open>probe\<close>: the three pages \<open>P\<close> are outside the kernel's frames, entry 0 of the directory is \<open>t\<close>
  and entry 1 is empty, \<open>m0\<close> and \<open>m1\<close> are mapped at 0 and \<open>PGSIZE\<close>, the free list is \<open>ys\<close>,
  and the counts of the pages are given by \<open>r\<close>.
\<close>

definition probe :: "'a vm_scheme \<Rightarrow> nat \<Rightarrow> ppn set \<Rightarrow> ppn list \<Rightarrow> u32 \<Rightarrow> ppn option \<Rightarrow> ppn option \<Rightarrow>
    (ppn \<Rightarrow> nat) \<Rightarrow> bool" where
  "probe s pn P ys t m0 m1 r \<longleftrightarrow>
     pmap_inv s pn ys None \<and> kern_pgdir s = kva pn \<and>
     (\<forall>p \<in> P. p < npages s \<and> unat p \<notin> kernel_frames s pn \<and> unat (pp_ref (pages s p)) = r p) \<and>
     pde s pn 0 = t \<and> pde s pn 1 = 0 \<and> mapped s pn 0 = m0 \<and> mapped s pn PGSIZE = m1"

lemma probeD:
  assumes "probe s pn P ys t m0 m1 r"
  shows "pmap_inv s pn ys None" "kern_pgdir s = kva pn" "pde s pn 0 = t" "pde s pn 1 = 0"
    "mapped s pn 0 = m0" "mapped s pn 4096 = m1" "pages_ok s pn ys"
    and "p \<in> P \<Longrightarrow> p < npages s" "p \<in> P \<Longrightarrow> unat p \<notin> kernel_frames s pn"
    and "p \<in> P \<Longrightarrow> unat (pp_ref (pages s p)) = r p"
  using assms by (simp_all add: probe_def pmap_inv_def)

lemma probe_vas:
  "pdi 0 = 0" "pti 0 = 0" "pdi 4096 = 0" "pti 4096 = 1" "pdi 4194304 = 1"
  "PGNUM 0 = 0" "PGNUM 4096 = 1" "0 < UPDX" "1 < UPDX"
  by (simp_all add: unat_PDX unat_PTX PGNUM_def UPDX_def)

lemma kernel_frames_cong:
  assumes "\<And>k. UPDX \<le> k \<Longrightarrow> k < 1024 \<Longrightarrow> pde s' pn k = pde s pn k"
  shows "kernel_frames s' pn = kernel_frames s pn"
  using assms by (auto simp: kernel_frames_def)

lemma page2pa_inj: "unat p < 65536 \<Longrightarrow> unat q < 65536 \<Longrightarrow> page2pa p = page2pa q \<Longrightarrow> p = q"
  by (metis fr_page2pa word_unat_eq_iff)

lemma mapped_eqI:
  assumes inv: "pmap_inv s pn xs held" "pmap_inv s' pn ys held'" and va: "pdi va < UPDX"
    and eq: "check_va2pa (kva pn) va s' = check_va2pa (kva pn) va s"
  shows "mapped s' pn va = mapped s pn va"
proof -
  have ok: "pages_ok s pn xs" "pages_ok s' pn ys" using inv by (simp_all add: pmap_inv_def)
  note M = mapped_check [OF ok(1) va] mapped_check [OF ok(2) va]
  have none: "mapped s' pn va = None \<longleftrightarrow> mapped s pn va = None" by (simp only: M eq)
  show ?thesis
  proof (cases "mapped s pn va")
    case (Some q)
    with none obtain q' where q': "mapped s' pn va = Some q'" by auto
    have "unat q < 65536" "unat q' < 65536"
      using mapped_counted(1) [OF inv(1) va Some] mapped_counted(1) [OF inv(2) va q']
        pages_okD(1) [OF ok(1)] pages_okD(1) [OF ok(2)] by (auto simp: word_less_nat_alt)
    moreover have "page2pa q' = page2pa q"
      using M(2) [OF Some] M(4) [OF q'] eq by simp
    ultimately show ?thesis using page2pa_inj Some q' by simp
  qed (use none in simp)
qed

text \<open>One insertion at 0 or \<open>PGSIZE\<close>.\<close>

definition count_after :: "ppn \<Rightarrow> ppn option \<Rightarrow> ppn list \<Rightarrow> u32 \<Rightarrow> (ppn \<Rightarrow> nat) \<Rightarrow> ppn \<Rightarrow> nat" where
  "count_after p old ys t r q = r q + (if q = p then 1 else 0)
     + (if t = 0 \<and> q = hd ys then 1 else 0) - (if old = Some q then 1 else 0)"

definition list_after :: "ppn \<Rightarrow> ppn option \<Rightarrow> ppn list \<Rightarrow> (ppn \<Rightarrow> nat) \<Rightarrow> ppn list" where
  "list_after p old zs r =
     (case old of None \<Rightarrow> zs | Some q \<Rightarrow> if q \<noteq> p \<and> r q = 1 then q # zs else zs)"

lemma insert_probe:
  assumes pr: "probe s pn P ys t m0 m1 r" and p: "p \<in> P" "p \<notin> set ys" "r p < 65535"
    and va: "va = 0 \<or> va = 4096" and t: "t = 0 \<Longrightarrow> ys \<noteq> []"
    and old: "old = (if va = 0 then m0 else m1)" "\<And>q. old = Some q \<Longrightarrow> q \<in> P"
  obtains s' where "page_insert (kern_pgdir s) p va 0 s = Inr (Inr (), s')"
    and "probe s' pn P (list_after p old (if t = 0 then tl ys else ys) r)
           (if t = 0 then page2pa (hd ys) OR 7 else t)
           (if va = 0 then Some p else m0) (if va = 0 then m1 else Some p) (count_after p old ys t r)"
proof -
  note D = probeD [OF pr]
  have vu: "pdi va = 0" "pdi va < UPDX" using va by (auto simp: probe_vas)
  have m: "mapped s pn va = old" using va old D(5,6) by auto
  have ne: "pp_ref (pages s p) \<noteq> 0xFFFF"
    using D(10) [OF p(1)] p(3) by (auto simp: word_unat_eq_iff)
  obtain s' where s': "page_insert (kva pn) p va 0 s = Inr (Inr (), s')"
    "pmap_inv s' pn (released s p (mapped s pn va) (after_table s pn va ys)) None"
    "mapped s' pn va = Some p"
    "\<And>va'. PGNUM va' \<noteq> PGNUM va \<Longrightarrow> outside s pn va' \<Longrightarrow>
       check_va2pa (kva pn) va' s' = check_va2pa (kva pn) va' s"
    "npages s' = npages s"
    "\<And>k. k < 1024 \<Longrightarrow> pde s' pn k =
       (if k = pdi va \<and> pde s pn k = 0 then page2pa (hd ys) OR 7 else pde s pn k)"
    "\<And>q. q < npages s \<Longrightarrow>
       unat (pp_ref (pages s' q)) + (if mapped s pn va = Some q then 1 else 0) =
       unat (pp_ref (pages s q)) + (if q = p then 1 else 0)
       + (if pde s pn (pdi va) = 0 \<and> q = hd ys then 1 else 0)"
    by (rule page_insert_ok [OF D(1) vu(2) _ D(8) [OF p(1)] p(2) D(9) [OF p(1)] ne])
      (use t D(3) vu(1) in auto)
  have rel: "released s p (mapped s pn va) (after_table s pn va ys) =
      list_after p old (if t = 0 then tl ys else ys) r"
    using D(10) old(2) D(3) vu(1)
    by (auto simp: m released_def list_after_def after_table_def word_unat_eq_iff split: option.split)
  have kf: "kernel_frames s' pn = kernel_frames s pn"
    using s'(6) vu by (intro kernel_frames_cong) auto
  have fr: "mapped s' pn va' = mapped s pn va'" if "PGNUM va' \<noteq> PGNUM va" "pdi va' < UPDX" for va'
    using s'(4) that by (intro mapped_eqI [OF D(1) s'(2)]) (auto simp: outside_def)
  have maps: "mapped s' pn 0 = (if va = 0 then Some p else m0)"
    "mapped s' pn 4096 = (if va = 0 then m1 else Some p)"
    using va s'(3) fr [of 0] fr [of 4096] D(5,6) by (auto simp: probe_vas)
  have cnt: "unat (pp_ref (pages s' q)) = count_after p old ys t r q" if "q \<in> P" for q
    using s'(7) [OF D(8) [OF that]] D(3) D(10) [OF that] vu(1) by (simp add: m count_after_def)
  have pds: "pde s' pn 0 = (if t = 0 then page2pa (hd ys) OR 7 else t)" "pde s' pn 1 = 0"
    using s'(6) [of 0] s'(6) [of 1] D(3,4) vu(1) by simp_all
  have "probe s' pn P (list_after p old (if t = 0 then tl ys else ys) r)
      (if t = 0 then page2pa (hd ys) OR 7 else t)
      (if va = 0 then Some p else m0) (if va = 0 then m1 else Some p) (count_after p old ys t r)"
    using s'(2,5) page_insert_pgdir [OF s'(1)] D(2) cnt pds maps D(8,9)
    unfolding probe_def rel kf by simp
  then show ?thesis using that s'(1) D(2) by simp
qed

lemma remove_probe:
  assumes pr: "probe s pn P ys t m0 m1 r" and va: "va = 0 \<or> va = 4096"
    and old: "(if va = 0 then m0 else m1) = Some q" "q \<in> P"
  obtains s' where "page_remove (kern_pgdir s) va s = Inr s'"
    and "probe s' pn P (if r q = 1 then q # ys else ys) t
           (if va = 0 then None else m0) (if va = 0 then m1 else None) (r(q := r q - 1))"
proof -
  note D = probeD [OF pr]
  have vu: "pdi va = 0" "pdi va < UPDX" using va by (auto simp: probe_vas)
  have m: "mapped s pn va = Some q" using va old D(5,6) by auto
  note M = mapped_check [OF D(7) vu(2)] m
  have q: "unat q < 65536" "PGNUM (page2pa q) = q"
    using D(8) [OF old(2)] pages_okD(1) [OF D(7)] by (auto simp: word_less_nat_alt intro!: PGNUM_eqI fr_page2pa)
  obtain s' where s': "page_remove (kva pn) va s = Inr s'"
    "pmap_inv s' pn (if pp_ref (pages s (PGNUM (page2pa q))) = 1 then PGNUM (page2pa q) # ys else ys) None"
    "check_va2pa (kva pn) va s' = Inr (NOT 0)"
    "\<And>va'. PGNUM va' \<noteq> PGNUM va \<Longrightarrow> check_va2pa (kva pn) va' s' = check_va2pa (kva pn) va' s"
    "\<And>k. k < 1024 \<Longrightarrow> pde s' pn k = pde s pn k" "npages s' = npages s"
    "\<And>x. pp_ref (pages s' x) =
       (if x = PGNUM (page2pa q) then pp_ref (pages s x) - 1 else pp_ref (pages s x))"
    by (rule page_remove_maps [OF D(1) vu(2) M(2) [OF m]]) (use M in auto)
  note s' = s' [unfolded q(2)]
  have inv': "pmap_inv s' pn (if r q = 1 then q # ys else ys) None"
    using s'(2) D(10) [OF old(2)] by (simp add: word_unat_eq_iff)
  then have ok': "pages_ok s' pn (if r q = 1 then q # ys else ys)" by (simp add: pmap_inv_def)
  have kf: "kernel_frames s' pn = kernel_frames s pn"
    using s'(5) by (intro kernel_frames_cong) auto
  have none: "mapped s' pn va = None" using mapped_check(1) [OF ok' vu(2)] s'(3) by simp
  have fr: "mapped s' pn va' = mapped s pn va'" if "PGNUM va' \<noteq> PGNUM va" "pdi va' < UPDX" for va'
    using s'(4) that by (intro mapped_eqI [OF D(1) inv']) auto
  have maps: "mapped s' pn 0 = (if va = 0 then None else m0)"
    "mapped s' pn 4096 = (if va = 0 then m1 else None)"
    using va none fr [of 0] fr [of 4096] D(5,6) by (auto simp: probe_vas)
  have "pp_ref (pages s q) \<noteq> 0" by (rule mapped_counted(2) [OF D(1) vu(2) m])
  then have "unat (pp_ref (pages s q) - 1) = r q - 1"
    using D(10) [OF old(2)] by (simp add: unat_minus_one)
  then have cnt: "unat (pp_ref (pages s' x)) = (r(q := r q - 1)) x" if "x \<in> P" for x
    using D(10) [OF that] by (simp add: s'(7))
  have "probe s' pn P (if r q = 1 then q # ys else ys) t
      (if va = 0 then None else m0) (if va = 0 then m1 else None) (r(q := r q - 1))"
    using inv' s'(6) page_remove_pgdir [OF s'(1)] D(2) cnt s'(5) [of 0] s'(5) [of 1] D(3,4) maps D(8,9)
    unfolding probe_def kf by simp
  then show ?thesis using that s'(1) D(2) by simp
qed

lemma same_vmD: "same_vm s' s \<Longrightarrow> mem s' = mem s \<and> npages s' = npages s \<and> kern_pgdir s' = kern_pgdir s"
  by (simp add: same_vm_def)

lemma probe_mem_cong:
  assumes "probe s pn P ys t m0 m1 r" and "same_vm s' s" and "pmap_inv s' pn zs None"
    and "\<And>q. q \<in> P \<Longrightarrow> pp_ref (pages s' q) = pp_ref (pages s q)"
  shows "probe s' pn P zs t m0 m1 r"
proof -
  have m: "mem s' = mem s" "npages s' = npages s" "kern_pgdir s' = kern_pgdir s"
    using same_vmD [OF assms(2)] by simp_all
  show ?thesis
    using assms(1,3,4) unfolding probe_def mapped_def mem_cong [OF m(1)] m by simp
qed

lemma alloc_probe:
  assumes "probe s pn P (x # ys) t m0 m1 r"
  obtains s' where "page_alloc s = Inr (Inr x, s')" and "probe s' pn P ys t m0 m1 r"
proof -
  obtain s' where "page_alloc s = Inr (Inr x, s')" "pmap_inv s' pn ys None"
    "same_vm s' s" "\<And>p. pp_ref (pages s' p) = pp_ref (pages s p)"
    by (rule page_alloc_inv [OF probeD(1) [OF assms]]) blast
  then show ?thesis using that probe_mem_cong [OF assms] by blast
qed

lemma alloc_probe_none: "probe s pn P [] t m0 m1 r \<Longrightarrow> page_alloc s = Inr (Inl E_NO_MEM, s)"
  using probeD(7) pages_okD(4) by (intro page_alloc_Nil) blast

lemma page_free_inv:
  assumes inv: "pmap_inv s pn xs None" and p: "p < npages s" "p \<notin> set xs"
    "unat p \<notin> kernel_frames s pn" "pp_ref (pages s p) = 0"
  obtains s' where "page_free p s = Inr s'" and "pmap_inv s' pn (p # xs) None" and "same_vm s' s"
    and "\<And>q. pp_ref (pages s' q) = pp_ref (pages s q)"
proof -
  let ?s = "LIST_INSERT_HEAD p s"
  have ok: "pages_ok s pn xs" and cnt: "counts_ok s pn xs None" using inv by (simp_all add: pmap_inv_def)
  note m = more_eqD [OF LIST_INSERT_HEAD_more [of p s]]
  have "free_list ?s (p # xs)" by (rule LIST_INSERT_HEAD_list [OF pages_okD(4) [OF ok] p(2)])
  then have "pages_ok ?s pn (p # xs)"
    using ok p(1,3) pages_okD(5,6) [OF ok]
    unfolding pages_ok_def tables_ok_cong [OF m(1,2)] list_ok_cong [OF m(1,2)] by simp
  moreover have "counts_ok ?s pn (p # xs) None"
    using cnt p(1,4) by (auto simp: counts_ok_def m mem_cong [OF m(1)])
  moreover have "page_free p s = Inr ?s" using p(1) by (simp add: page_free_def)
  moreover have "same_vm ?s s" by (simp add: same_vm_def m)
  ultimately show ?thesis using that by (simp add: pmap_inv_def)
qed

lemma free_probe:
  assumes pr: "probe s pn P ys t m0 m1 r" and p: "p \<in> P" "p \<notin> set ys" "r p = 0"
  obtains s' where "page_free p s = Inr s'" and "probe s' pn P (p # ys) t m0 m1 r"
proof -
  note D = probeD [OF pr]
  have "pp_ref (pages s p) = 0" using D(10) [OF p(1)] p(3) by (simp add: word_unat_eq_iff)
  then obtain s' where "page_free p s = Inr s'" "pmap_inv s' pn (p # ys) None" "same_vm s' s"
    "\<And>q. pp_ref (pages s' q) = pp_ref (pages s q)"
    by (rule page_free_inv [OF D(1) D(8) [OF p(1)] p(2) D(9) [OF p(1)]]) blast
  then show ?thesis using that probe_mem_cong [OF pr] by blast
qed

section \<open>The assertions hold\<close>

lemma assert_no_page_ok: "probe s pn P [] t m0 m1 r \<Longrightarrow> assert_no_page s = Inr s"
  by (simp add: assert_no_page_def alloc_probe_none)

lemma assert_ref_ok:
  "probe s pn P ys t m0 m1 r \<Longrightarrow> p \<in> P \<Longrightarrow> r p = unat n \<Longrightarrow> assert_ref p n s = Inr s"
  using probeD(10) [of s pn P ys t m0 m1 r p] by (simp add: assert_ref_def word_unat_eq_iff)

lemma probe_check_va2pa:
  assumes "probe s pn P ys t m0 m1 r" and "va = 0 \<or> va = 4096"
  shows "check_va2pa (kern_pgdir s) va s =
    Inr (case if va = 0 then m0 else m1 of None \<Rightarrow> NOT 0 | Some q \<Rightarrow> page2pa q)"
proof -
  have va: "pdi va < UPDX" using assms(2) by (auto simp: probe_vas)
  show ?thesis
    using assms(2) probeD(2,5,6) [OF assms(1)] mapped_check [OF probeD(7) [OF assms(1)] va]
    by (auto split: option.split)
qed

lemma assert_va_ok:
  "probe s pn P ys t (Some q) m1 r \<Longrightarrow> assert_va2pa 0 (page2pa q) s = Inr s"
  "probe s pn P ys t None m1 r \<Longrightarrow> assert_va2pa 0 (NOT 0) s = Inr s"
  "probe s pn P ys t m0 (Some q) r \<Longrightarrow> assert_va2pa 4096 (page2pa q) s = Inr s"
  "probe s pn P ys t m0 None r \<Longrightarrow> assert_va2pa 4096 (NOT 0) s = Inr s"
  by (simp_all add: assert_va2pa_def probe_check_va2pa)

lemma PTE_ADDR_table:
  assumes "unat p < 65536"
  shows "PTE_ADDR (page2pa p OR 7) = page2pa p"
  using fr_or_perm [OF assms, of 7] assms
  by (simp add: word_unat_eq_iff unat_PTE_ADDR unat_page2pa flip: fr_def)

lemma assert_table_ok:
  assumes "probe s pn P ys (page2pa p OR 7) m0 m1 r" and "p \<in> P"
  shows "assert_table p s = Inr s"
proof -
  note D = probeD [OF assms(1)]
  have "unat p < 65536"
    using D(8) [OF assms(2)] pages_okD(1) [OF D(7)] by (simp add: word_less_nat_alt)
  then show ?thesis
    using D(2,3) by (simp add: assert_table_def PTE_ADDR_table flip: pde_def)
qed

lemma assert_insert_ok:
  "page_insert (kern_pgdir s) p va 0 s = Inr (Inr (), s') \<Longrightarrow> assert_insert True p va s = Inr s'"
  by (simp add: assert_insert_def)

lemma assert_insert_fails:
  assumes "probe s pn P [] t m0 m1 r" and "va = 0 \<and> t = 0 \<or> va = 4194304"
  shows "assert_insert False p va s = Inr s"
proof -
  note D = probeD [OF assms(1)]
  have "pde s pn (pdi va) = 0" using assms(2) D(3,4) by (auto simp: probe_vas)
  then show ?thesis
    using page_insert_no_memory [OF D(7)] D(2) by (simp add: assert_insert_def)
qed

lemma lookup_none:
  assumes "probe s pn P ys 0 m0 m1 r"
  shows "page_lookup (kern_pgdir s) 0 w s = Inr (None, None, s)"
  using probeD(2,3) [OF assms] pages_okD(3) [OF probeD(7) [OF assms]]
  by (simp add: page_lookup_def pgdir_walk_absent probe_vas)

section \<open>The phases succeed\<close>

definition three :: "ppn \<Rightarrow> ppn \<Rightarrow> nat \<Rightarrow> nat \<Rightarrow> nat \<Rightarrow> ppn \<Rightarrow> nat" where
  "three p0 p1 a b c q = (if q = p0 then a else if q = p1 then b else c)"

lemma probe_counts:
  "probe s pn P ys t m0 m1 r \<Longrightarrow> (\<And>q. q \<in> P \<Longrightarrow> r q = r' q) \<Longrightarrow> probe s pn P ys t m0 m1 r'"
  by (simp add: probe_def)

lemma page_check_insert_ok:
  assumes "distinct [p0, p1, p2]"
    and pr: "probe s pn {p0, p1, p2} [] 0 None None (three p0 p1 0 0 0)"
  obtains s' where "page_check_insert p0 p1 p2 s = Inr s'"
    and "probe s' pn {p0, p1, p2} [] (page2pa p0 OR 7) (Some p1) (Some p2) (three p0 p1 1 1 1)"
proof -
  let ?P = "{p0, p1, p2}" and ?T = "page2pa p0 OR 7 :: u32"
  have nz: "?T \<noteq> 0" by (simp add: or_nonzero)
  have ne: "p1 \<noteq> p0" "p2 \<noteq> p0" "p2 \<noteq> p1" using assms(1) by auto
  obtain s1 where s1: "page_free p0 s = Inr s1" "probe s1 pn ?P [p0] 0 None None (three p0 p1 0 0 0)"
    by (rule free_probe [OF pr, of p0]) (simp_all add: three_def)
  obtain s2 where s2: "page_insert (kern_pgdir s1) p1 0 0 s1 = Inr (Inr (), s2)"
    "probe s2 pn ?P [] ?T (Some p1) None (count_after p1 None [p0] 0 (three p0 p1 0 0 0))"
    by (rule insert_probe [OF s1(2), of p1 0 None])
      (use assms(1) in \<open>auto simp: three_def list_after_def\<close>)
  have pr2: "probe s2 pn ?P [] ?T (Some p1) None (three p0 p1 1 1 0)"
    by (rule probe_counts [OF s2(2)]) (use assms(1) in \<open>auto simp: count_after_def three_def\<close>)
  obtain s3 where s3: "page_insert (kern_pgdir s2) p2 4096 0 s2 = Inr (Inr (), s3)"
    "probe s3 pn ?P [] ?T (Some p1) (Some p2) (count_after p2 None [] ?T (three p0 p1 1 1 0))"
    by (rule insert_probe [OF pr2, of p2 4096 None])
      (use assms(1) nz in \<open>auto simp: three_def list_after_def\<close>)
  have pr3: "probe s3 pn ?P [] ?T (Some p1) (Some p2) (three p0 p1 1 1 1)"
    by (rule probe_counts [OF s3(2)]) (use assms(1) nz in \<open>auto simp: count_after_def three_def\<close>)
  note ok = assert_no_page_ok lookup_none assert_insert_fails assert_table_ok assert_va_ok
  have "page_check_insert p0 p1 p2 s = Inr s3"
    using assms(1) ne s1(1) ok(1) [OF pr] ok(2) [OF pr] ok(3) [OF pr, of 0] assert_insert_ok [OF s2(1)]
      ok(4) [OF pr2] ok(5) [OF pr2] assert_ref_ok [OF pr2] assert_insert_ok [OF s3(1)]
      ok(7) [OF pr3] assert_ref_ok [OF pr3] ok(1) [OF pr3]
    by (simp add: page_check_insert_def three_def)
  then show ?thesis using that pr3 by blast
qed

lemma page_check_replace_ok:
  assumes "distinct [p0, p1, p2]"
    and pr: "probe s pn {p0, p1, p2} [] (page2pa p0 OR 7) (Some p1) (Some p2) (three p0 p1 1 1 1)"
  obtains s' where "page_check_replace p0 p1 p2 s = Inr s'"
    and "probe s' pn {p0, p1, p2} [] (page2pa p0 OR 7) (Some p1) (Some p1) (three p0 p1 1 2 0)"
proof -
  let ?P = "{p0, p1, p2}" and ?T = "page2pa p0 OR 7 :: u32"
  have nz: "?T \<noteq> 0" by (simp add: or_nonzero)
  have ne: "p1 \<noteq> p0" "p2 \<noteq> p0" "p2 \<noteq> p1" using assms(1) by auto
  obtain s1 where s1: "page_insert (kern_pgdir s) p2 4096 0 s = Inr (Inr (), s1)"
    "probe s1 pn ?P [] ?T (Some p1) (Some p2) (count_after p2 (Some p2) [] ?T (three p0 p1 1 1 1))"
    by (rule insert_probe [OF pr, of p2 4096 "Some p2"])
      (use assms(1) nz in \<open>auto simp: three_def list_after_def\<close>)
  have pr1: "probe s1 pn ?P [] ?T (Some p1) (Some p2) (three p0 p1 1 1 1)"
    by (rule probe_counts [OF s1(2)]) (use assms(1) nz in \<open>auto simp: count_after_def three_def\<close>)
  obtain s2 where s2: "page_insert (kern_pgdir s1) p1 4096 0 s1 = Inr (Inr (), s2)"
    "probe s2 pn ?P [p2] ?T (Some p1) (Some p1) (count_after p1 (Some p2) [] ?T (three p0 p1 1 1 1))"
    by (rule insert_probe [OF pr1, of p1 4096 "Some p2"])
      (use assms(1) nz in \<open>auto simp: three_def list_after_def\<close>)
  have pr2: "probe s2 pn ?P [p2] ?T (Some p1) (Some p1) (three p0 p1 1 2 0)"
    by (rule probe_counts [OF s2(2)]) (use assms(1) nz in \<open>auto simp: count_after_def three_def\<close>)
  obtain s3 where s3: "page_alloc s2 = Inr (Inr p2, s3)"
    "probe s3 pn ?P [] ?T (Some p1) (Some p1) (three p0 p1 1 2 0)"
    by (rule alloc_probe [OF pr2])
  have "page_check_replace p0 p1 p2 s = Inr s3"
    using assms(1) ne assert_insert_ok [OF s1(1)] assert_va_ok(3) [OF pr1] assert_ref_ok [OF pr1]
      assert_no_page_ok [OF pr1] assert_insert_fails [OF pr1, of "4194304" p0]
      assert_insert_ok [OF s2(1)] assert_va_ok(1,3) [OF pr2] assert_ref_ok [OF pr2] s3(1)
    by (simp add: page_check_replace_def three_def assert_alloc_def)
  then show ?thesis using that s3(2) by blast
qed

lemma page_check_remove_ok:
  assumes "distinct [p0, p1, p2]"
    and pr: "probe s pn {p0, p1, p2} [] (page2pa p0 OR 7) (Some p1) (Some p1) (three p0 p1 1 2 0)"
  obtains s' where "page_check_remove p0 p1 p2 s = Inr s'"
    and "probe s' pn {p0, p1, p2} [] (page2pa p0 OR 7) None None (three p0 p1 1 0 0)"
proof -
  let ?P = "{p0, p1, p2}" and ?T = "page2pa p0 OR 7 :: u32"
  have ne: "p1 \<noteq> p0" "p2 \<noteq> p0" "p2 \<noteq> p1" using assms(1) by auto
  obtain s1 where s1: "page_remove (kern_pgdir s) 0 s = Inr s1"
    "probe s1 pn ?P [] ?T None (Some p1) ((three p0 p1 1 2 0)(p1 := 1))"
    by (rule remove_probe [OF pr, of 0 p1]) (use assms(1) in \<open>auto simp: three_def\<close>)
  have pr1: "probe s1 pn ?P [] ?T None (Some p1) (three p0 p1 1 1 0)"
    by (rule probe_counts [OF s1(2)]) (use assms(1) in \<open>auto simp: three_def\<close>)
  obtain s2 where s2: "page_remove (kern_pgdir s1) 4096 s1 = Inr s2"
    "probe s2 pn ?P [p1] ?T None None ((three p0 p1 1 1 0)(p1 := 0))"
    by (rule remove_probe [OF pr1, of 4096 p1]) (use assms(1) in \<open>auto simp: three_def\<close>)
  have pr2: "probe s2 pn ?P [p1] ?T None None (three p0 p1 1 0 0)"
    by (rule probe_counts [OF s2(2)]) (use assms(1) in \<open>auto simp: three_def\<close>)
  obtain s3 where s3: "page_alloc s2 = Inr (Inr p1, s3)"
    "probe s3 pn ?P [] ?T None None (three p0 p1 1 0 0)"
    by (rule alloc_probe [OF pr2])
  have "page_check_remove p0 p1 p2 s = Inr s3"
    using assms(1) ne s1(1) assert_va_ok(2,3) [OF pr1] assert_ref_ok [OF pr1] s2(1)
      assert_va_ok(2,4) [OF pr2] assert_ref_ok [OF pr2] s3(1) assert_no_page_ok [OF s3(2)]
    by (simp add: page_check_remove_def three_def assert_alloc_def)
  then show ?thesis using that s3(2) by blast
qed

lemma probe_init:
  assumes inv: "pmap_inv s pn xs None" and d: "kern_pgdir s = kva pn" "pde s pn 0 = 0" "pde s pn 1 = 0"
    and P: "P \<subseteq> set xs"
  shows "probe s pn P xs 0 None None (\<lambda>_. 0)"
proof -
  have ok: "pages_ok s pn xs" and cnt: "counts_ok s pn xs None" using inv by (simp_all add: pmap_inv_def)
  have "p < npages s \<and> unat p \<notin> kernel_frames s pn \<and> unat (pp_ref (pages s p)) = 0" if "p \<in> P" for p
    using pages_okD(5,6) [OF ok, of p] cnt P that by (auto simp: counts_ok_def)
  then show ?thesis using inv d by (simp add: probe_def mapped_def probe_vas)
qed

lemma steal_probe:
  assumes "probe s pn P ys t m0 m1 r"
  shows "probe (LIST_INIT s) pn P [] t m0 m1 r"
proof -
  have m: "mem (LIST_INIT s) = mem s" "npages (LIST_INIT s) = npages s"
    by (simp_all add: LIST_INIT_def)
  have inv: "pmap_inv s pn ys None" by (rule probeD(1) [OF assms])
  then have "tables_ok (LIST_INIT s) pn"
    unfolding tables_ok_cong [OF m] by (simp add: pmap_inv_def pages_ok_def)
  moreover have "list_ok (LIST_INIT s) pn []"
    by (simp add: list_ok_def LIST_INIT_Nil)
  moreover have "counts_ok (LIST_INIT s) pn [] None"
    using inv by (simp add: pmap_inv_def counts_ok_def m mem_cong [OF m(1)]) (simp add: LIST_INIT_def)
  ultimately have "pmap_inv (LIST_INIT s) pn [] None" by (simp add: pmap_inv_def pages_ok_def)
  then show ?thesis
    by (rule probe_mem_cong [OF assms, rotated]) (simp_all add: LIST_INIT_def same_vm_def)
qed

lemma page_check_take_ok:
  assumes pr: "probe s pn P (p0 # p1 # p2 # xs) t m0 m1 r"
  obtains s' fl where "page_check_take s = Inr ((p0, p1, p2, fl), s')" and "probe s' pn P [] t m0 m1 r"
proof -
  obtain s1 where s1: "page_alloc s = Inr (Inr p0, s1)" "probe s1 pn P (p1 # p2 # xs) t m0 m1 r"
    by (rule alloc_probe [OF pr])
  obtain s2 where s2: "page_alloc s1 = Inr (Inr p1, s2)" "probe s2 pn P (p2 # xs) t m0 m1 r"
    by (rule alloc_probe [OF s1(2)])
  obtain s3 where s3: "page_alloc s2 = Inr (Inr p2, s3)" "probe s3 pn P xs t m0 m1 r"
    by (rule alloc_probe [OF s2(2)])
  have "distinct [p0, p1, p2]"
    using free_list_distinct [OF pages_okD(4) [OF probeD(7) [OF pr]]] by auto
  then have "page_check_take s = Inr ((p0, p1, p2, lh_first s3), LIST_INIT s3)"
    using s1(1) s2(1) s3(1) by (auto simp: page_check_take_def assert_alloc_def)
  then show ?thesis using that steal_probe [OF s3(2)] by blast
qed

text \<open>The pages go back to the head of the list one by one, so the last comes first.\<close>

definition pushed_back :: "ppn \<Rightarrow> ppn \<Rightarrow> ppn \<Rightarrow> ppn option \<Rightarrow> 'a vm_scheme \<Rightarrow> bool" where
  "pushed_back p0 p1 p2 fl s \<longleftrightarrow>
     lh_first s = Some p2 \<and> le_next (pages s p2) = Some p1 \<and> le_next (pages s p1) = Some p0 \<and> le_next (pages s p0) = fl \<and>
     pp_ref (pages s p0) = 0 \<and> mem s (kern_pgdir s) = 0"

lemma LIST_INSERT_HEAD_vm:
  fixes s :: "'a vm_scheme"
  shows "mem (LIST_INSERT_HEAD p s) = mem s" "kern_pgdir (LIST_INSERT_HEAD p s) = kern_pgdir s"
  by (simp_all add: queue_defs split: option.split)

lemma LIST_INSERT_HEAD_first:
  "lh_first (LIST_INSERT_HEAD p s) = Some p" "le_next (pages (LIST_INSERT_HEAD p s) p) = lh_first s"
  "q \<noteq> p \<Longrightarrow> le_next (pages (LIST_INSERT_HEAD p s) q) = le_next (pages s q)"
  by (auto simp: queue_defs split: option.split)

lemma page_check_restore_ok:
  assumes pr: "probe s pn {p0, p1, p2} [] (page2pa p0 OR 7) m0 m1 r" and r: "r p0 = 1" and dist: "distinct [p0, p1, p2]"
  shows "\<exists>s'. page_check_restore p0 p1 p2 fl s = Inr s' \<and> pushed_back p0 p1 p2 fl s' \<and> kern_pgdir s' = kva pn"
proof -
  note D = probeD [OF pr]
  have one: "pp_ref (pages s p0) = 1" using D(10) [of p0] r by (simp add: word_unat_eq_iff)
  have np: "npages (LIST_INSERT_HEAD q u) = npages u" for q and u :: "'a vm_scheme"
    by (rule more_eqD(2)) simp
  define u where "u = s\<lparr>mem := (mem s)(kern_pgdir s := 0), pages := (pages s)(p0 := (pages s p0)\<lparr>pp_ref := 0\<rparr>), lh_first := fl\<rparr>"
  let ?s' = "LIST_INSERT_HEAD p2 (LIST_INSERT_HEAD p1 (LIST_INSERT_HEAD p0 u))"
  have "page_check_restore p0 p1 p2 fl s = Inr ?s'"
    using one np assert_table_ok [OF pr] D(8) [of p0] D(8) [of p1] D(8) [of p2]
    by (simp add: page_check_restore_def assert_ref_def set_ref_def page_free_def store_def u_def)
  moreover have "pushed_back p0 p1 p2 fl ?s'"
    using dist by (auto simp: pushed_back_def LIST_INSERT_HEAD_first LIST_INSERT_HEAD_vm u_def)
  moreover have "kern_pgdir ?s' = kva pn" using D(2) by (simp add: LIST_INSERT_HEAD_vm u_def)
  ultimately show ?thesis by blast
qed

section \<open>The self-test passes\<close>

lemma page_check_leaves:
  assumes "pmap_inv s pn (p0 # p1 # p2 # xs) None" and "kern_pgdir s = kva pn"
    and "pde s pn 0 = 0" and "pde s pn 1 = 0"
  shows "\<exists>s' fl. page_check s = Inr s' \<and> pushed_back p0 p1 p2 fl s' \<and> kern_pgdir s' = kva pn"
proof -
  let ?P = "{p0, p1, p2}"
  have dist: "distinct [p0, p1, p2]"
    using assms(1) free_list_distinct [OF pages_okD(4), of s pn "p0 # p1 # p2 # xs"]
    by (auto simp: pmap_inv_def)
  have "probe s pn ?P (p0 # p1 # p2 # xs) 0 None None (three p0 p1 0 0 0)"
    by (rule probe_counts [OF probe_init [OF assms]]) (auto simp: three_def)
  then obtain s1 fl where s1: "page_check_take s = Inr ((p0, p1, p2, fl), s1)"
    "probe s1 pn ?P [] 0 None None (three p0 p1 0 0 0)"
    by (rule page_check_take_ok)
  obtain s2 where s2: "page_check_insert p0 p1 p2 s1 = Inr s2"
    "probe s2 pn ?P [] (page2pa p0 OR 7) (Some p1) (Some p2) (three p0 p1 1 1 1)"
    by (rule page_check_insert_ok [OF dist s1(2)])
  obtain s3 where s3: "page_check_replace p0 p1 p2 s2 = Inr s3"
    "probe s3 pn ?P [] (page2pa p0 OR 7) (Some p1) (Some p1) (three p0 p1 1 2 0)"
    by (rule page_check_replace_ok [OF dist s2(2)])
  obtain s4 where s4: "page_check_remove p0 p1 p2 s3 = Inr s4"
    "probe s4 pn ?P [] (page2pa p0 OR 7) None None (three p0 p1 1 0 0)"
    by (rule page_check_remove_ok [OF dist s3(2)])
  obtain s5 where "page_check_restore p0 p1 p2 fl s4 = Inr s5" "pushed_back p0 p1 p2 fl s5" "kern_pgdir s5 = kva pn"
    using page_check_restore_ok [OF s4(2) _ dist] by (auto simp: three_def)
  with s1 s2 s3 s4 show ?thesis by (simp add: page_check_def) blast
qed

lemma page_check_runs:
  assumes "pmap_inv s pn (p0 # p1 # p2 # xs) None" and "kern_pgdir s = kva pn"
    and "pde s pn 0 = 0" and "pde s pn 1 = 0"
  shows "\<exists>s'. page_check s = Inr s'"
  using page_check_leaves [OF assms] by blast

text \<open>C4: Once three pages are free and the first two directory entries are empty, every
  assertion of \<^verbatim>\<open>page_check\<close> holds: it runs to its end, through allocation, exhaustion,
  table creation, replacement and removal of mappings.\<close>

theorem page_check_passes:
  assumes "pmap_inv s pn (p0 # p1 # p2 # xs) None" and "kern_pgdir s = kva pn"
    and "pde s pn 0 = 0" and "pde s pn 1 = 0"
  shows "\<exists>s'. page_check s = Inr s'"
  by (rule page_check_runs [OF assms])

lemma page_check_passes_witness: "\<exists>s'. page_check (small_machine [1, 2, 3, 4]) = Inr s'"
  by (rule page_check_passes [of _ 0 1 2 3 "[4]"]) (simp_all add: small_machine_inv)

end
