(* ===== verification/Boot_Init.thy ===== *)
theory Boot_Init
  imports Boot_Mem Pmap_Check
begin

text \<open>
  The boot sequence of \<^verbatim>\<open>i386_init\<close> up to the self-test: \<^verbatim>\<open>boot_mem_init\<close> sets up the address
  space, \<^verbatim>\<open>page_init\<close> the free list, and the state they leave satisfies the invariant of the
  page table code.
\<close>

section \<open>The address space\<close>

lemma kernel_mapped_cong:
  assumes "mem s' = mem s" and "npages s' = npages s" and "kern_pgdir s' = kern_pgdir s"
  shows "kernel_mapped e f stack s' = kernel_mapped e f stack s"
  by (simp only: kernel_mapped_def mem_cong(1,2) [OF assms(1)] assms(2,3))

lemma boot_paging_on_ok:
  assumes km: "kernel_mapped e f stack s"
  shows "boot_paging_on s =
    Inr (s\<lparr>cr3 := page2pa (of_nat e), cr0 := cr0 s OR CR0_PE OR CR0_PG\<rparr>)"
proof -
  have k: "kern_pgdir s = kva e" "e < 65536" "pde s e 0 = 0"
    using km unfolding kernel_mapped_def by (blast, linarith, auto)
  then have z: "(mem s)(kva e := 0) = mem s" by (simp add: pde_def fun_upd_idem)
  show ?thesis
    using k by (simp add: boot_paging_on_def Let_def PADDR_kva store_def z)
qed

lemma boot_mem_init_ok:
  assumes first: "nextfree s = 0" and endv: "KERNBASE \<le> endv"
    and stack: "PADDR bootstack = Inr pa" "4096 dvd unat pa"
    and detect: "i386_mem_detect io d s = (d', s0)" and room: "frame_up endv + 66 < unat (npages s0)"
  shows "\<exists>s' f. boot_mem_init endv bootstack io d s = Some (Inr (d', s')) \<and> f \<le> frame_up endv + 66 \<and>
    kernel_mapped (frame_up endv) f pa s' \<and> nextfree s' = kva f + npages s0 * 12 \<and>
    npages s' = npages s0 \<and> unat (npages s0) \<le> 16639 \<and>
    cr3 s' = page2pa (of_nat (frame_up endv))"
proof -
  let ?e = "frame_up endv"
  obtain b n where s0: "s0 = s\<lparr>n_base_pages := b, npages := n\<rparr>" and n: "unat n \<le> 16639"
    by (rule i386_mem_detect_eq [of io d s]) (use detect in auto)
  have np: "npages s0 = n" "nextfree s0 = 0" using first s0 by simp_all
  have small: "?e < unat (npages s0)" "unat (npages s0) < 65536" using room n np by simp_all
  obtain s1 where s1: "boot_pgdir_init endv s0 = Inr s1" "boot_ok s1 ?e (Suc ?e)" "npages s1 = npages s0"
    "\<forall>i < 1024. pde s1 ?e i = (if i = SELF then self_pde ?e else 0)"
    using boot_pgdir_init_ok [OF np(2) endv refl small] by blast
  obtain s2 s3 f where s3:
    "boot_map_segment endv (KSTACKTOP - KSTKSIZE) KSTKSIZE pa PTE_W s1 = Some (Inr s2)"
    "boot_map_segment endv KERNBASE (0xffffffff - KERNBASE) 0 PTE_W s2 = Some (Inr s3)"
    "nextfree s3 = kva f" "f \<le> ?e + 66" "npages s3 = npages s1" "kernel_mapped ?e f pa s3"
    using boot_segments_ok [OF s1(2,4), of endv pa] room s1(3) by auto
  have f: "f < 65535" using s3(4) room n unfolding np by linarith
  let ?s4 = "s3\<lparr>nextfree := kva f + npages s3 * 12, pages_at := kva f, pages := \<lambda>_. null_page\<rparr>"
  have pages: "boot_pages_init endv s3 = ?s4"
    using boot_alloc_kva [OF s3(3) f] by (simp add: boot_pages_init_def)
  have km4: "kernel_mapped ?e f pa ?s4"
    using s3(6) kernel_mapped_cong [of ?s4 s3] by simp
  let ?s5 = "?s4\<lparr>cr3 := page2pa (of_nat ?e), cr0 := cr0 ?s4 OR CR0_PE OR CR0_PG\<rparr>"
  have "boot_mem_init endv bootstack io d s = Some (Inr (d', ?s5))"
    by (simp only: boot_mem_init_def detect s1(1) stack(1) s3(1,2) pages boot_mem_check_ok [OF km4 stack]
        boot_paging_on_ok [OF km4] Let_def prod.case sum.case option.case map_sum.simps)
  moreover have "kernel_mapped ?e f pa ?s5"
    using km4 kernel_mapped_cong [of ?s5 ?s4] by simp
  ultimately show ?thesis
    using s3 s1(3) n np by (intro exI [of _ ?s5] exI [of _ f]) simp
qed

text \<open>C6: boot_mem_init runs to its end, its own check included, when the memory reaches 67 pages
  beyond the kernel. Afterwards the kernel's directory maps the 256MB from KERNBASE to physical
  memory from 0 on and the 8 pages of the stack to \<^verbatim>\<open>bootstack\<close>, the lower directory entries are
  empty, and cr3 holds the physical address of the directory.\<close>

theorem boot_mem_init_maps:
  assumes "nextfree s = 0" and "KERNBASE \<le> endv"
    and "PADDR bootstack = Inr pa" and "4096 dvd unat pa"
    and "i386_mem_detect io d s = (d', s0)" and "frame_up endv + 66 < unat (npages s0)"
  shows "\<exists>s'. boot_mem_init endv bootstack io d s = Some (Inr (d', s')) \<and>
    (\<forall>j < 65536. check_va2pa (kern_pgdir s') (KERNBASE + of_nat (4096 * j)) s' = Inr (of_nat (4096 * j))) \<and>
    (\<forall>j < 8. check_va2pa (kern_pgdir s') (KSTACKTOP - KSTKSIZE + of_nat (4096 * j)) s' =
        Inr (pa + of_nat (4096 * j))) \<and>
    (\<forall>i < 958. mem s' (kern_pgdir s' + 4 * of_nat i) = 0) \<and>
    PADDR (kern_pgdir s') = Inr (cr3 s')"
proof -
  obtain s' f where s': "boot_mem_init endv bootstack io d s = Some (Inr (d', s'))"
    and km: "kernel_mapped (frame_up endv) f pa s'" and cr3: "cr3 s' = page2pa (of_nat (frame_up endv))"
    using boot_mem_init_ok [OF assms] by blast
  have k: "kern_pgdir s' = kva (frame_up endv)" "frame_up endv < 65536"
    using km unfolding kernel_mapped_def by (blast, linarith)
  have "mem s' (kern_pgdir s' + 4 * of_nat i) = 0" if "i < 958" for i
  proof -
    have "unat (of_nat i :: u32) = i" using that by (intro unat_of_nat_small) simp
    then have "mem s' (kern_pgdir s' + 4 * of_nat i) = pde s' (frame_up endv) i"
      using cell_index [OF k(2), of "of_nat i"] that k(1) by (simp add: pde_def)
    then show ?thesis using km that unfolding kernel_mapped_def by simp
  qed
  then show ?thesis
    using s' kernel_va2pa_all [OF km assms(4)] cr3 k
    by (intro exI [of _ s']) (simp only: PADDR_kva, simp)
qed

text \<open>A clock chip that answers 0xFF to every read: 64MB of extended memory.\<close>

definition full_nvram :: "unit io" where
  "full_nvram = \<lparr>inb = \<lambda>_ d. (0xFF, d), outb = \<lambda>_ _ d. d, backed = \<lambda>_. True\<rparr>"

lemma full_nvram_detect:
  "i386_mem_detect full_nvram d s = (d, s\<lparr>n_base_pages := 16383, npages := 16639\<rparr>)"
  by (simp add: i386_mem_detect_def nvram_read_def mc146818_read_def full_nvram_def)

lemma boot_mem_init_maps_witness:
  "\<exists>s. boot_mem_init 0xF0110000 0xF0108000 full_nvram () bare_machine = Some (Inr ((), s)) \<and>
     check_va2pa (kern_pgdir s) 0xF0123000 s = Inr 0x123000"
proof -
  have "\<exists>s'. boot_mem_init 0xF0110000 0xF0108000 full_nvram () bare_machine = Some (Inr ((), s')) \<and>
    (\<forall>j < 65536. check_va2pa (kern_pgdir s') (KERNBASE + of_nat (4096 * j)) s' = Inr (of_nat (4096 * j))) \<and>
    (\<forall>j < 8. check_va2pa (kern_pgdir s') (KSTACKTOP - KSTKSIZE + of_nat (4096 * j)) s' =
        Inr (0x108000 + of_nat (4096 * j))) \<and>
    (\<forall>i < 958. mem s' (kern_pgdir s' + 4 * of_nat i) = 0) \<and>
    PADDR (kern_pgdir s') = Inr (cr3 s')"
    by (rule boot_mem_init_maps [where s = bare_machine, OF _ _ _ _ full_nvram_detect])
      (simp_all add: bare_machine_def PADDR_def frame_up_def)
  then obtain s' where s': "boot_mem_init 0xF0110000 0xF0108000 full_nvram () bare_machine = Some (Inr ((), s'))"
    "\<forall>j < 65536. check_va2pa (kern_pgdir s') (KERNBASE + of_nat (4096 * j)) s' = Inr (of_nat (4096 * j))"
    by blast
  then have "check_va2pa (kern_pgdir s') 0xF0123000 s' = Inr 0x123000"
    using s'(2) [rule_format, of "0x123"] by simp
  then show ?thesis using s'(1) by blast
qed

section \<open>The free pages\<close>

text \<open>The free pages below \<open>k\<close>, \<open>F\<close> being the first page behind what was allocated so far: not page
  0, not the I/O hole, nothing below \<open>F\<close>.\<close>

definition is_free :: "nat \<Rightarrow> nat \<Rightarrow> bool" where
  "is_free F k \<longleftrightarrow> 0 < k \<and> \<not> (160 \<le> k \<and> k < 256) \<and> F \<le> k"

definition free_pages :: "nat \<Rightarrow> nat \<Rightarrow> ppn list" where
  "free_pages F n = map of_nat (rev (filter (is_free F) [0..<n]))"

definition init_inv :: "nat \<Rightarrow> nat \<Rightarrow> 'a vm_scheme \<Rightarrow> 'a vm_scheme \<Rightarrow> bool" where
  "init_inv F k s s' \<longleftrightarrow>
     free_list s' (free_pages F k) \<and> KERNBASE \<le> nextfree s' \<and> frame_up (nextfree s') = F \<and>
     (\<forall>p < k. pp_ref (pages s' (of_nat p)) = 0) \<and>
     mem s' = mem s \<and> npages s' = npages s \<and> kern_pgdir s' = kern_pgdir s"

lemma frame_up_kva: "n < 65536 \<Longrightarrow> KERNBASE \<le> kva n \<and> frame_up (kva n) = n"
  by (simp add: frame_up_def word_le_nat_alt unat_cell)

lemma boot_alloc_0:
  assumes "KERNBASE \<le> nextfree s" and "frame_up (nextfree s) = F" and "F < 65536"
  shows "boot_alloc endv 0 s = (kva F, s\<lparr>nextfree := kva F\<rparr>)"
proof -
  have "nextfree s \<noteq> 0" using assms(1) by auto
  moreover have "ROUNDUP (nextfree s) 4096 = kva F" using ROUNDUP_frame [OF assms(1)] assms by simp
  ultimately show ?thesis by (simp add: boot_alloc_def)
qed

lemma page_reserved_eq:
  assumes s: "KERNBASE \<le> nextfree s" "frame_up (nextfree s) = F" "F < 65536" and k: "k < 65536"
  shows "\<exists>x. page_reserved endv (of_nat k) s = Inr (\<not> is_free F k, s\<lparr>nextfree := x\<rparr>) \<and>
    KERNBASE \<le> x \<and> frame_up x = F"
proof -
  have u: "unat (of_nat k :: u32) = k" "unat (of_nat F :: u32) = F"
    using k s(3) by (auto intro!: unat_of_nat_small)
  have z: "(of_nat k :: u32) = 0 \<longleftrightarrow> k = 0" by (simp add: word_unat_eq_iff u)
  have hole: "PGNUM IOPHYSMEM \<le> of_nat k \<and> of_nat k < PGNUM EXTPHYSMEM \<longleftrightarrow> 160 \<le> k \<and> k < 256"
    by (simp only: word_le_nat_alt word_less_nat_alt unat_PGNUM u) simp
  have base: "PADDR KERNBASE = Inr 0" "PGNUM 0 \<le> of_nat k" by (simp_all add: PADDR_def PGNUM_def)
  have "unat (page2pa (of_nat F)) = 4096 * F" using s(3) by (simp add: unat_page2pa u)
  then have top: "of_nat k < PGNUM (page2pa (of_nat F)) \<longleftrightarrow> k < F"
    by (simp add: word_less_nat_alt unat_PGNUM u)
  show ?thesis
  proof (cases "k = 0 \<or> 160 \<le> k \<and> k < 256")
    case True
    then have "page_reserved endv (of_nat k) s = Inr (True, s)"
      unfolding page_reserved_def z hole by auto
    moreover have "s\<lparr>nextfree := nextfree s\<rparr> = s" by (cases s) simp
    ultimately show ?thesis using s True by (intro exI [of _ "nextfree s"]) (auto simp: is_free_def)
  next
    case False
    then have no: "k \<noteq> 0" "\<not> (160 \<le> k \<and> k < 256)" by auto
    have "page_reserved endv (of_nat k) s = Inr (k < F, s\<lparr>nextfree := kva F\<rparr>)"
      unfolding page_reserved_def z hole if_not_P [OF no(1)] if_not_P [OF no(2)]
      using base by (simp add: boot_alloc_0 [OF s] PADDR_kva [OF s(3)] top del: KERNBASE_def)
    then show ?thesis using frame_up_kva [OF s(3)] False
      by (intro exI [of _ "kva F"]) (auto simp: is_free_def)
  qed
qed

lemma free_pages_Suc:
  "free_pages F (Suc k) = (if is_free F k then of_nat k # free_pages F k else free_pages F k)"
  by (simp add: free_pages_def)

lemma set_free_pages: "set (free_pages F k) = of_nat ` {p. p < k \<and> is_free F p}"
  by (auto simp: free_pages_def)

lemma page_init_page_ok:
  assumes inv: "init_inv F k s s1" and F: "F < 65536" and k: "k < unat (npages s)" "unat (npages s) < 65536"
  shows "\<exists>s2. page_init_page endv (of_nat k) s1 = Inr s2 \<and> init_inv F (Suc k) s s2"
proof -
  have same: "(of_nat p :: ppn) = of_nat k \<longleftrightarrow> p = k" if "p \<le> k" for p
    using that k by (simp add: word_unat_eq_iff unat_of_nat)
  let ?r = "s1\<lparr>pages := (pages s1)(of_nat k := (pages s1 (of_nat k))\<lparr>pp_ref := 0\<rparr>)\<rparr>"
  have lt: "of_nat k < npages s1"
    using inv k by (simp add: init_inv_def word_less_nat_alt unat_of_nat)
  have r: "free_list ?r (free_pages F k)" "\<forall>p < Suc k. pp_ref (pages ?r (of_nat p)) = 0"
    using inv same by (auto simp: init_inv_def less_Suc_eq free_list_cong [of ?r s1] )
  obtain x where x: "page_reserved endv (of_nat k) ?r = Inr (\<not> is_free F k, ?r\<lparr>nextfree := x\<rparr>)"
    "KERNBASE \<le> x" "frame_up x = F"
    using page_reserved_eq [of ?r F k endv] inv F k by (auto simp: init_inv_def)
  let ?t = "?r\<lparr>nextfree := x\<rparr>"
  have t: "free_list ?t (free_pages F k)"
    using r(1) free_list_cong [of ?t ?r] by simp
  have new: "of_nat k \<notin> set (free_pages F k)"
  proof
    assume "of_nat k \<in> set (free_pages F k)"
    then obtain p where "p < k" "(of_nat k :: ppn) = of_nat p" by (auto simp: set_free_pages)
    then show False using same [of p] by simp
  qed
  let ?u = "if \<not> is_free F k then ?t else LIST_INSERT_HEAD (of_nat k) ?t"
  have run: "page_init_page endv (of_nat k) s1 = Inr ?u"
    using lt x(1) by (simp add: page_init_page_def set_ref_def)
  have more: "page_heap.more (LIST_INSERT_HEAD (of_nat k) ?t) = page_heap.more ?t" by simp
  have "init_inv F (Suc k) s ?u"
    using inv r(2) x(2,3) t LIST_INSERT_HEAD_list [OF t new] more_eqD [OF more]
    by (auto simp: init_inv_def free_pages_Suc)
  then show ?thesis using run by blast
qed

lemma page_init_loop_ok:
  assumes F: "F < 65536" and n: "unat (npages s) < 65536"
  shows "k \<le> unat (npages s) \<Longrightarrow> init_inv F k s s1 \<Longrightarrow>
    \<exists>s2. page_init_loop endv (npages s) (of_nat k) s1 = Inr s2 \<and> init_inv F (unat (npages s)) s s2"
proof (induction "unat (npages s) - k" arbitrary: k s1)
  case 0
  then have k: "k = unat (npages s)" by simp
  then have eq: "(of_nat k :: u32) = npages s" by simp
  have "page_init_loop endv (npages s) (of_nat k) s1 = Inr s1"
    unfolding eq by (subst page_init_loop.simps) simp
  then show ?case using 0(3) unfolding k by blast
next
  case (Suc m)
  then have k: "k < unat (npages s)" by simp
  then have lt: "of_nat k < npages s" using n by (simp add: word_less_nat_alt unat_of_nat)
  obtain s2 where s2: "page_init_page endv (of_nat k) s1 = Inr s2" "init_inv F (Suc k) s s2"
    using page_init_page_ok [OF Suc.prems(2) F k n] by blast
  have "page_init_loop endv (npages s) (of_nat k) s1 = page_init_loop endv (npages s) (of_nat (Suc k)) s2"
    using lt s2(1) by (subst page_init_loop.simps) (simp add: add.commute)
  then show ?case using Suc.hyps(1) [of "Suc k" s2] Suc.hyps(2) k s2(2) by simp
qed

lemma page_init_ok:
  assumes "KERNBASE \<le> nextfree s" and "frame_up (nextfree s) = F" and "F < 65536"
    and "unat (npages s) < 65536"
  shows "\<exists>s'. page_init endv s = Inr s' \<and> init_inv F (unat (npages s)) s s'"
proof -
  have "init_inv F 0 s (LIST_INIT s)"
    using assms by (simp add: init_inv_def LIST_INIT_def free_pages_def free_list_def)
  then show ?thesis
    using page_init_loop_ok [OF assms(3,4), of 0 "LIST_INIT s" endv] by (simp add: page_init_def LIST_INIT_def)
qed

text \<open>C26: page_init makes the free list of all pages but page 0, the I/O hole and the pages below
  the end of what boot_alloc has handed out, the highest page first, with all reference counts
  0; it changes no page table.\<close>

theorem page_init_free_list:
  assumes "KERNBASE \<le> nextfree s" and "frame_up (nextfree s) < 65536" and "unat (npages s) < 65536"
  shows "\<exists>s'. page_init endv s = Inr s' \<and>
    free_list s' (free_pages (frame_up (nextfree s)) (unat (npages s))) \<and>
    (\<forall>p < unat (npages s). pp_ref (pages s' (of_nat p)) = 0) \<and> mem s' = mem s"
  using page_init_ok [OF assms(1) refl assms(2,3), of endv] by (auto simp: init_inv_def)

lemma page_init_free_list_witness:
  "\<exists>s. page_init 0xF0110000 (bare_machine\<lparr>nextfree := 0xF0003000, npages := 8\<rparr>) = Inr s \<and>
     free_list s [7, 6, 5, 4, 3]"
proof -
  have "free_pages 3 8 = [7, 6, 5, 4, 3]"
    by (simp add: free_pages_def is_free_def upt_rec)
  then show ?thesis
    using page_init_free_list [of "bare_machine\<lparr>nextfree := 0xF0003000, npages := 8\<rparr>" "0xF0110000"]
    by (auto simp: frame_up_def)
qed

section \<open>The invariant holds after booting\<close>

lemma boot_inv:
  assumes km: "kernel_mapped e f stack s1" and inv: "init_inv F (unat (npages s1)) s1 s" and F: "f \<le> F"
  shows "pmap_inv s e (free_pages F (unat (npages s1))) None"
proof -
  have m: "mem s = mem s1" and np: "npages s = npages s1"
    and fl: "free_list s (free_pages F (unat (npages s1)))"
    and ref: "\<forall>p < unat (npages s1). pp_ref (pages s (of_nat p)) = 0"
    using inv by (simp_all add: init_inv_def)
  have b: "e < f" "f < unat (npages s1)" "unat (npages s1) < 65536"
    using km unfolding kernel_mapped_def by blast+
  have user: "pde s e i = 0" if "i < UPDX" for i
    using km that unfolding kernel_mapped_def mem_cong(1) [OF m] by (simp add: UPDX_def)
  have low: "x < f" if x: "x \<in> kernel_frames s e" for x
  proof (cases "x = e")
    case False
    then obtain i where i: "i < 1024" "pde s1 e i \<noteq> 0" "x = fr (pde s1 e i)"
      using x by (auto simp: kernel_frames_def mem_cong(1) [OF m])
    have "fr (self_pde e) = e" using self_pde [of e] b by simp
    then have "i \<noteq> SELF" using km i False unfolding kernel_mapped_def by metis
    then show ?thesis using km i unfolding kernel_mapped_def by metis
  qed (use b in simp)
  have in_free: "x < npages s \<and> f \<le> unat x" if x: "x \<in> set (free_pages F (unat (npages s1)))" for x
  proof -
    obtain p where p: "x = of_nat p" "p < unat (npages s1)" "F \<le> p"
      using x unfolding set_free_pages is_free_def by blast
    then have "unat x = p" using b by (auto intro!: unat_of_nat_small)
    then show ?thesis using p F np by (simp add: word_less_nat_alt)
  qed
  have refs: "refs s e p = 0" for p
    using user by (auto simp: refs_0_iff user_maps_def user_tables_def)
  have "tables_ok s e"
    unfolding tables_ok_def using low b np user by fastforce
  moreover have "list_ok s e (free_pages F (unat (npages s1)))"
    unfolding list_ok_def using fl in_free low by (meson not_le)
  moreover have "unat (pp_ref (pages s p)) = 0" if "p < npages s" for p
  proof -
    have "unat p < unat (npages s1)" using that np by (simp add: word_less_nat_alt)
    then show ?thesis using ref [rule_format, of "unat p"] by simp
  qed
  ultimately show ?thesis
    by (simp add: pmap_inv_def pages_ok_def counts_ok_def refs)
qed

lemma frame_up_add:
  assumes "f < 65536" and "unat x \<le> 4096 * n" and "f + n < 65536"
  shows "KERNBASE \<le> kva f + x \<and> f \<le> frame_up (kva f + x) \<and> frame_up (kva f + x) \<le> f + n"
proof -
  have u: "unat (kva f + x) = 0xF0000000 + 4096 * f + unat x"
    using assms by (subst unat_add_small) (simp_all add: unat_cell)
  have "f \<le> (4096 * f + unat x + 4095) div 4096" by linarith
  moreover have "(4096 * f + unat x + 4095) div 4096 \<le> f + n" using assms(2) by linarith
  ultimately show ?thesis by (simp add: frame_up_def u word_le_nat_alt)
qed

lemma free_pages_top:
  assumes "256 \<le> F" and "F + 3 \<le> n"
  shows "\<exists>p0 p1 p2 xs. free_pages F n = p0 # p1 # p2 # xs"
proof -
  have "n = Suc (Suc (Suc (n - 3)))" "F \<le> n - 3" using assms(2) by arith+
  then obtain k where "n = Suc (Suc (Suc k))" "F \<le> k" by blast
  then show ?thesis using assms(1) by (simp add: free_pages_Suc is_free_def)
qed

lemma boot_reaches:
  assumes first: "nextfree s = 0" and endv: "KERNBASE + EXTPHYSMEM \<le> endv"
    and stack: "PADDR bootstack = Inr pa" "4096 dvd unat pa"
    and detect: "i386_mem_detect io d s = (d', s0)" and room: "frame_up endv + 118 \<le> unat (npages s0)"
  shows "\<exists>s1 s2 s3 p0 p1 p2 xs fl. boot_mem_init endv bootstack io d s = Some (Inr (d', s1)) \<and>
    page_init endv s1 = Inr s2 \<and> pmap_inv s2 (frame_up endv) (p0 # p1 # p2 # xs) None \<and>
    kern_pgdir s2 = kva (frame_up endv) \<and> page_check s2 = Inr s3 \<and>
    pushed_back p0 p1 p2 fl s3 \<and> kern_pgdir s3 = kva (frame_up endv)"
proof -
  let ?e = "frame_up endv"
  have e: "KERNBASE \<le> endv" "256 \<le> ?e"
    using endv by (auto simp: word_le_nat_alt frame_up_def)
  have room66: "?e + 66 < unat (npages s0)" using room by simp
  obtain s1 f where s1: "boot_mem_init endv bootstack io d s = Some (Inr (d', s1))" "f \<le> ?e + 66"
    "kernel_mapped ?e f pa s1" "nextfree s1 = kva f + npages s0 * 12" "npages s1 = npages s0"
    "unat (npages s0) \<le> 16639"
    using boot_mem_init_ok [OF first e(1) stack detect room66] by blast
  have f: "?e < f" using s1(3) unfolding kernel_mapped_def by blast
  have "unat (npages s0 * 12) = unat (npages s0) * 12" using s1(6) by (subst unat_mult_small) simp_all
  then have "unat (npages s0 * 12) \<le> 4096 * 49" using s1(6) by linarith
  then have F: "KERNBASE \<le> nextfree s1" "f \<le> frame_up (nextfree s1)" "frame_up (nextfree s1) \<le> f + 49"
    using frame_up_add [of f "npages s0 * 12" 49] s1(2,4,6) room by simp_all
  have small: "frame_up (nextfree s1) < 65536" "unat (npages s1) < 65536"
    using F(3) s1(2,5,6) room by simp_all
  obtain s2 where s2: "page_init endv s1 = Inr s2" "init_inv (frame_up (nextfree s1)) (unat (npages s1)) s1 s2"
    using page_init_ok [OF F(1) refl small] by blast
  have inv: "pmap_inv s2 ?e (free_pages (frame_up (nextfree s1)) (unat (npages s1))) None"
    by (rule boot_inv [OF s1(3) s2(2) F(2)])
  have "256 \<le> frame_up (nextfree s1)" "frame_up (nextfree s1) + 3 \<le> unat (npages s1)"
    using e(2) f F(2,3) s1(2,5) room by simp_all
  then obtain p0 p1 p2 xs where
      p: "free_pages (frame_up (nextfree s1)) (unat (npages s1)) = p0 # p1 # p2 # xs"
    using free_pages_top by blast
  have m: "mem s2 = mem s1" "kern_pgdir s2 = kern_pgdir s1" using s2(2) by (simp_all add: init_inv_def)
  have "pde s2 ?e 0 = 0" "pde s2 ?e 1 = 0" "kern_pgdir s2 = kva ?e"
    using s1(3) m(2) unfolding kernel_mapped_def mem_cong(1) [OF m(1)] by auto
  moreover from this obtain s3 fl where "page_check s2 = Inr s3" "pushed_back p0 p1 p2 fl s3" "kern_pgdir s3 = kva ?e"
    using page_check_leaves [OF inv [unfolded p]] by blast
  ultimately show ?thesis using s1(1) s2(1) inv p by metis
qed

lemma boot_to_page_check:
  assumes first: "nextfree s = 0" and endv: "KERNBASE + EXTPHYSMEM \<le> endv"
    and stack: "PADDR bootstack = Inr pa" "4096 dvd unat pa"
    and detect: "i386_mem_detect io d s = (d', s0)" and room: "frame_up endv + 118 \<le> unat (npages s0)"
  shows "\<exists>s1 s2 s3 xs. boot_mem_init endv bootstack io d s = Some (Inr (d', s1)) \<and>
    page_init endv s1 = Inr s2 \<and> pmap_inv s2 (frame_up endv) xs None \<and>
    kern_pgdir s2 = kva (frame_up endv) \<and> 3 \<le> length xs \<and> page_check s2 = Inr s3"
proof -
  obtain s1 s2 s3 p0 p1 p2 xs where "boot_mem_init endv bootstack io d s = Some (Inr (d', s1))" "page_init endv s1 = Inr s2"
    "pmap_inv s2 (frame_up endv) (p0 # p1 # p2 # xs) None" "kern_pgdir s2 = kva (frame_up endv)" "page_check s2 = Inr s3"
    using boot_reaches [OF assms] by blast
  then show ?thesis by (intro exI [of _ s1] exI [of _ s2] exI [of _ s3] exI [of _ "p0 # p1 # p2 # xs"]) simp
qed

text \<open>C3: After boot_mem_init and page_init the kernel's directory and the free list satisfy the
  invariant of the page table code, at least three pages are free, and so the self-test
  page_check passes on the state the kernel really boots into.\<close>

theorem boot_self_test:
  assumes "nextfree s = 0" and "KERNBASE + EXTPHYSMEM \<le> endv"
    and "PADDR bootstack = Inr pa" and "4096 dvd unat pa"
    and "i386_mem_detect io d s = (d', s0)" and "frame_up endv + 118 \<le> unat (npages s0)"
  shows "\<exists>s1 s2 s3 xs. boot_mem_init endv bootstack io d s = Some (Inr (d', s1)) \<and>
    page_init endv s1 = Inr s2 \<and> pmap_inv s2 (frame_up endv) xs None \<and>
    kern_pgdir s2 = kva (frame_up endv) \<and> 3 \<le> length xs \<and> page_check s2 = Inr s3"
  by (rule boot_to_page_check [OF assms])

lemma boot_self_test_witness:
  "\<exists>s1 s2 s3. boot_mem_init 0xF0110000 0xF0108000 full_nvram () bare_machine = Some (Inr ((), s1)) \<and>
     page_init 0xF0110000 s1 = Inr s2 \<and> page_check s2 = Inr s3"
  using boot_self_test [of bare_machine "0xF0110000" "0xF0108000" "0x108000" full_nvram "()",
      OF _ _ _ _ full_nvram_detect]
  by (fastforce simp: bare_machine_def PADDR_def frame_up_def)

end
