(* ===== verification/Kernel_Init.thy ===== *)
theory Kernel_Init
  imports Monitor Boot_Init
begin

text \<open>
  \<^verbatim>\<open>i386_init\<close> of \<^verbatim>\<open>kern/init.c\<close>: the components in the order in which the kernel starts them.
  As everywhere in this development a panic ends the run; what it does then is
  \<open>panic_handler\<close>. \<open>bootstack\<close> is the address of the boot stack, \<open>handler\<close>, \<open>tsa\<close> and \<open>idta\<close> are the
  addresses \<open>idt_init\<close> needs.
\<close>








end
