(* ===== verification/Keyboard.thy ===== *)
theory Keyboard
  imports Console_Input
begin

text \<open>
  What the scan code tables of \<^verbatim>\<open>kern/console.c\<close> amount to: the letters under the shift and
  caps lock keys, and the state of the modifier keys.
\<close>

section \<open>Letters\<close>

text \<open>The scan codes of the letters, in the three rows of the keyboard.\<close>

definition letter_keys :: "(u8 \<times> u8) list" where
  "letter_keys =
     zip [0x10, 0x11, 0x12, 0x13, 0x14, 0x15, 0x16, 0x17, 0x18, 0x19] (chars ''qwertyuiop'') @
     zip [0x1E, 0x1F, 0x20, 0x21, 0x22, 0x23, 0x24, 0x25, 0x26] (chars ''asdfghjkl'') @
     zip [0x2C, 0x2D, 0x2E, 0x2F, 0x30, 0x31, 0x32] (chars ''zxcvbnm'')"

lemma letter_keys_maps:
  "list_all (\<lambda>(sc, ch). shiftcode sc = 0 \<and> togglecode sc = 0 \<and> sc \<noteq> 0xE0 \<and> sc AND 0x80 = 0 \<and>
     normalmap sc = ch \<and> uint (shiftmap sc) = uint ch - 32 \<and> 97 \<le> uint ch \<and> uint ch \<le> 122 \<and>
     uint (ctlmap sc) = uint ch - 96) letter_keys"
  by (simp add: letter_keys_def chars_def shiftcode_def togglecode_def normalmap_def shiftmap_def
      ctlmap_def ctl_char_def byte_table_def key_codes_def nth_append)

lemma modifier_bits:
  fixes sh :: u32
  shows "sh AND 2 = 0 \<Longrightarrow> sh AND 3 = sh AND 1" "sh AND 2 \<noteq> 0 \<Longrightarrow> sh AND 3 \<notin> {0, 1}"
    "sh AND 1 = 0 \<or> sh AND 1 = 1"
proof -
  have "(3 :: u32) = 2 OR 1" by simp
  then have "sh AND 3 = (sh AND 2) OR (sh AND 1)" by (simp only: bit.conj_disj_distrib)
  then show "sh AND 2 = 0 \<Longrightarrow> sh AND 3 = sh AND 1" by simp
  have "(sh AND 3) AND 2 = sh AND 2" by (simp add: and.assoc)
  then show "sh AND 2 \<noteq> 0 \<Longrightarrow> sh AND 3 \<notin> {0, 1}" by auto
  show "sh AND 1 = 0 \<or> sh AND 1 = 1" by (simp add: and_one_eq mod_2_eq_odd)
qed

text \<open>A letter key gives the capital letter exactly if one of shift and caps lock is active and
  the other is not, with control it gives the control character whatever shift is, and it leaves
  the state of the modifier keys alone.\<close>

lemma kbd_letter:
  assumes key: "(sc, ch) \<in> set letter_keys" and esc: "sh AND E0ESC = 0"
  shows "kbd_key sc sh =
    (if sh AND CTL \<noteq> 0 then uint ch - 96
     else if (sh AND SHIFT \<noteq> 0) = (sh AND CAPSLOCK \<noteq> 0) then uint ch
     else uint ch - 32, sh)"
proof -
  have k: "shiftcode sc = 0" "togglecode sc = 0" "sc \<noteq> 0xE0" "sc AND 0x80 = 0" "normalmap sc = ch"
    "uint (shiftmap sc) = uint ch - 32" "97 \<le> uint ch" "uint ch \<le> 122" "uint (ctlmap sc) = uint ch - 96"
    using letter_keys_maps key by (auto simp: list_all_iff)
  show ?thesis
  proof (cases "sh AND 2 = 0")
    case True
    then show ?thesis using k esc modifier_bits(1) [OF True] modifier_bits(3) [of sh]
      by (auto simp: kbd_key_def Let_def charcode_def)
  next
    case False
    then show ?thesis using k esc modifier_bits(2) [OF False]
      by (auto simp: kbd_key_def Let_def charcode_def)
  qed
qed

lemma kbd_letter_witness: "kbd_key 0x1E CAPSLOCK = (0x41, CAPSLOCK)"
proof -
  have "(0x1E, 0x61) \<in> set letter_keys" by (simp add: letter_keys_def chars_def)
  from kbd_letter [OF this, of CAPSLOCK] show ?thesis by simp
qed

end
