(* ===== verification/Boot_Loader.thy ===== *)
theory Boot_Loader
  imports Byte_Mem Console
begin

text \<open>
  \<^verbatim>\<open>boot/main.c\<close>, the second stage of the boot sector: it reads the kernel's ELF image from the
  first IDE disk, sector by sector, and jumps to its entry point. The disk answers through the
  functions of \<open>disk_io\<close>; what the code relies on is \<open>serves_disk\<close>. Waiting for the disk may
  never end, and then there is no result.
\<close>

section \<open>Reading sectors\<close>

record 'd disk_io = "'d io" +
  in_long :: "u32 \<Rightarrow> 'd \<Rightarrow> u32 \<times> 'd"
  out_word :: "u32 \<Rightarrow> u16 \<Rightarrow> 'd \<Rightarrow> 'd"

definition SECTSIZE :: u32 where [simp]: "SECTSIZE = 512"
definition PAGESIZE_boot :: u32 where [simp]: "PAGESIZE_boot = 4096"
definition ELFHDR :: u32 where [simp]: "ELFHDR = 0x10000"
definition ELF_MAGIC :: u32 where [simp]: "ELF_MAGIC = 0x464C457F"

fun insl :: "'d disk_io \<Rightarrow> u32 \<Rightarrow> u32 \<Rightarrow> nat \<Rightarrow> bytes \<Rightarrow> 'd \<Rightarrow> bytes \<times> 'd" where
  "insl io port addr 0 m d = (m, d)"
| "insl io port addr (Suc cnt) m d =
     (let (w, d) = in_long io port d in insl io port (addr + 4) cnt (store32 addr w m) d)"

partial_function (option) waitdisk :: "'d disk_io \<Rightarrow> 'd \<Rightarrow> 'd option" where
  "waitdisk io d =
     (case inb io 0x1F7 d of (v, d) \<Rightarrow> if v AND 0xC0 \<noteq> 0x40 then waitdisk io d else Some d)"

definition disk_command :: "'d disk_io \<Rightarrow> u32 \<Rightarrow> 'd \<Rightarrow> 'd" where
  "disk_command io off d =
     (let d = outb io 0x1F2 1 d;
          d = outb io 0x1F3 (ucast off) d;
          d = outb io 0x1F4 (ucast (drop_bit 8 off)) d;
          d = outb io 0x1F5 (ucast (drop_bit 16 off)) d;
          d = outb io 0x1F6 (ucast (drop_bit 24 off OR 0xE0)) d
      in outb io 0x1F7 0x20 d)"

definition readsect :: "'d disk_io \<Rightarrow> u32 \<Rightarrow> u32 \<Rightarrow> bytes \<Rightarrow> 'd \<Rightarrow> (bytes \<times> 'd) option" where
  "readsect io dst off m d =
     (case waitdisk io d of
        None \<Rightarrow> None
      | Some d \<Rightarrow>
          (case waitdisk io (disk_command io off d) of
             None \<Rightarrow> None
           | Some d \<Rightarrow> Some (insl io 0x1F0 dst (unat SECTSIZE div 4) m d)))"

partial_function (option) read_sectors ::
    "'d disk_io \<Rightarrow> u32 \<Rightarrow> u32 \<Rightarrow> u32 \<Rightarrow> bytes \<Rightarrow> 'd \<Rightarrow> (bytes \<times> 'd) option" where
  "read_sectors io va end_va off m d =
     (if va < end_va then
        (case readsect io va off m d of
           None \<Rightarrow> None
         | Some (m, d) \<Rightarrow> read_sectors io (va + SECTSIZE) end_va (off + 1) m d)
      else Some (m, d))"

function clear_bss :: "u32 \<Rightarrow> u32 \<Rightarrow> bytes \<Rightarrow> bytes" where
  "clear_bss end_va memsz m =
     (if end_va < memsz then clear_bss (end_va + 1) memsz (m(end_va := 0)) else m)"
  by pat_completeness auto
termination
proof (relation "measure (\<lambda>(a, b, _). unat b - unat a)")
  fix a b :: u32 and m m' :: bytes
  assume lt: "a < b"
  then have "unat (a + 1) = unat a + 1"
    using unat_lt_32 [of b] unfolding word_less_nat_alt by (subst unat_add_small) (simp_all del: unat_lt_32)
  then show "((a + 1, b, m'), (a, b, m)) \<in> measure (\<lambda>(a, b, _). unat b - unat a)"
    using lt by (simp add: word_less_nat_alt)
qed simp

declare clear_bss.simps [simp del]

definition readseg :: "'d disk_io \<Rightarrow> u32 \<Rightarrow> u32 \<Rightarrow> u32 \<Rightarrow> u32 \<Rightarrow> bytes \<Rightarrow> 'd \<Rightarrow> (bytes \<times> 'd) option" where
  "readseg io va filesz memsz off m d =
     (let va = va AND 0xFFFFFF;
          end_va = va + filesz;
          memsz = memsz + va;
          va = va AND NOT (SECTSIZE - 1);
          off = off div SECTSIZE + 1
      in map_option (\<lambda>(m, d). (clear_bss end_va memsz m, d)) (read_sectors io va end_va off m d))"

section \<open>The ELF image\<close>

record Elf =
  e_magic :: u32
  e_elf :: "u8 list"
  e_type :: u16
  e_machine :: u16
  e_version :: u32
  e_entry :: u32
  e_phoff :: u32
  e_shoff :: u32
  e_flags :: u32
  e_ehsize :: u16
  e_phentsize :: u16
  e_phnum :: u16
  e_shentsize :: u16
  e_shnum :: u16
  e_shstrndx :: u16

record Proghdr =
  p_type :: u32
  p_offset :: u32
  p_va :: u32
  p_pa :: u32
  p_filesz :: u32
  p_memsz :: u32
  p_flags :: u32
  p_align :: u32

definition elf_at :: "bytes \<Rightarrow> u32 \<Rightarrow> Elf" where
  "elf_at m a =
     \<lparr>e_magic = load32 m a, e_elf = map (\<lambda>k. m (a + 4 + of_nat k)) [0..<12],
      e_type = load16 m (a + 16), e_machine = load16 m (a + 18), e_version = load32 m (a + 20),
      e_entry = load32 m (a + 24), e_phoff = load32 m (a + 28), e_shoff = load32 m (a + 32),
      e_flags = load32 m (a + 36), e_ehsize = load16 m (a + 40), e_phentsize = load16 m (a + 42),
      e_phnum = load16 m (a + 44), e_shentsize = load16 m (a + 46), e_shnum = load16 m (a + 48),
      e_shstrndx = load16 m (a + 50)\<rparr>"

definition proghdr_at :: "bytes \<Rightarrow> u32 \<Rightarrow> Proghdr" where
  "proghdr_at m a =
     \<lparr>p_type = load32 m a, p_offset = load32 m (a + 4), p_va = load32 m (a + 8), p_pa = load32 m (a + 12),
      p_filesz = load32 m (a + 16), p_memsz = load32 m (a + 20), p_flags = load32 m (a + 24),
      p_align = load32 m (a + 28)\<rparr>"

partial_function (option) load_segments :: "'d disk_io \<Rightarrow> u32 \<Rightarrow> u32 \<Rightarrow> bytes \<Rightarrow> 'd \<Rightarrow> (bytes \<times> 'd) option" where
  "load_segments io ph eph m d =
     (if ph < eph then
        (let p = proghdr_at m ph
         in case readseg io (p_va p) (p_filesz p) (p_memsz p) (p_offset p) m d of
              None \<Rightarrow> None
            | Some (m, d) \<Rightarrow> load_segments io (ph + 32) eph m d)
      else Some (m, d))"

text \<open>The result is the address that is called, or nothing after the write that stops the machine.\<close>

definition bootmain :: "'d disk_io \<Rightarrow> bytes \<Rightarrow> 'd \<Rightarrow> (u32 option \<times> bytes \<times> 'd) option" where
  "bootmain io m d =
     (case readseg io ELFHDR PAGESIZE_boot PAGESIZE_boot 0 m d of
        None \<Rightarrow> None
      | Some (m, d) \<Rightarrow>
          if e_magic (elf_at m ELFHDR) \<noteq> ELF_MAGIC then
            Some (None, m, out_word io 0x8A00 0x8E00 (out_word io 0x8A00 0x8A00 d))
          else
            (let ph = ELFHDR + e_phoff (elf_at m ELFHDR);
                 eph = ph + 32 * ucast (e_phnum (elf_at m ELFHDR))
             in map_option (\<lambda>(m, d). (Some (e_entry (elf_at m ELFHDR) AND 0xFFFFFF), m, d))
                  (load_segments io ph eph m d)))"

section \<open>What the code relies on\<close>

text \<open>
  The disk becomes ready when the status register, polled again and again, at last shows ready and
  not busy.
\<close>

inductive becomes_ready :: "'d disk_io \<Rightarrow> 'd \<Rightarrow> 'd \<Rightarrow> bool" for io where
  ready: "inb io 0x1F7 d = (v, d') \<Longrightarrow> v AND 0xC0 = 0x40 \<Longrightarrow> becomes_ready io d d'"
| busy: "inb io 0x1F7 d = (v, d1) \<Longrightarrow> v AND 0xC0 \<noteq> 0x40 \<Longrightarrow> becomes_ready io d1 d' \<Longrightarrow> becomes_ready io d d'"

lemma waitdisk_ready: "becomes_ready io d d' \<Longrightarrow> waitdisk io d = Some d'"
  by (induction rule: becomes_ready.induct) (subst waitdisk.simps, simp)+

lemma ready_waitdisk:
  assumes "waitdisk io d = Some d'"
  shows "becomes_ready io d d'"
  using assms
proof (rule waitdisk.raw_induct [rotated])
  fix wait :: "'a disk_io \<Rightarrow> 'a \<Rightarrow> 'a option" and io d d'
  assume IH: "\<And>io d d'. wait io d = Some d' \<Longrightarrow> becomes_ready io d d'"
    and run: "(case inb io 0x1F7 d of (v, d) \<Rightarrow> if v AND 0xC0 \<noteq> 0x40 then wait io d else Some d) = Some d'"
  obtain v d1 where i: "inb io 0x1F7 d = (v, d1)" by force
  show "becomes_ready io d d'"
  proof (cases "v AND 0xC0 = 0x40")
    case True
    with run i have "d' = d1" by simp
    with i True show ?thesis by (auto intro: becomes_ready.ready)
  next
    case False
    with run i have "wait io d1 = Some d'" by simp
    then have "becomes_ready io d1 d'" by (rule IH)
    with i False show ?thesis by (rule becomes_ready.busy)
  qed
qed

lemma waitdisk_iff: "waitdisk io d = Some d' \<longleftrightarrow> becomes_ready io d d'"
  by (metis waitdisk_ready ready_waitdisk)

fun read_longs :: "'d disk_io \<Rightarrow> u32 \<Rightarrow> nat \<Rightarrow> 'd \<Rightarrow> u32 list \<times> 'd" where
  "read_longs io port 0 d = ([], d)"
| "read_longs io port (Suc n) d =
     (let (w, d) = in_long io port d; (ws, d) = read_longs io port n d in (w # ws, d))"

definition word_byte :: "u32 list \<Rightarrow> nat \<Rightarrow> u8" where
  "word_byte ws j = ucast (drop_bit (8 * (j mod 4)) (ws ! (j div 4)))"

lemma word_byte_Cons: "word_byte (w # ws) (i + 4) = word_byte ws i"
proof -
  have "(i + 4) div 4 = Suc (i div 4)" by simp
  then show ?thesis unfolding word_byte_def by (simp only: nth_Cons_Suc mod_add_self2)
qed

text \<open>
  A disk that is \<open>idle\<close> becomes ready, takes the command to read sector \<open>s\<close>, becomes ready again and
  then hands out the 512 bytes of the sector of its image, 128 words of four bytes.
\<close>

definition serves_disk :: "'d disk_io \<Rightarrow> (nat \<Rightarrow> u8) \<Rightarrow> ('d \<Rightarrow> bool) \<Rightarrow> bool" where
  "serves_disk io img idle \<longleftrightarrow>
     (\<forall>d s. idle d \<longrightarrow> s < 2 ^ 28 \<longrightarrow>
        (\<exists>d1 d2 d3 ws. becomes_ready io d d1 \<and> becomes_ready io (disk_command io (of_nat s) d1) d2 \<and>
           read_longs io 0x1F0 128 d2 = (ws, d3) \<and> idle d3 \<and> (\<forall>j < 512. word_byte ws j = img (512 * s + j))))"

section \<open>Sectors\<close>

lemma insl_bytes:
  assumes "read_longs io port n d = (ws, d')" and "4 * n < 2 ^ 32"
  shows "\<exists>m'. insl io port a n m d = (m', d') \<and> (\<forall>j < 4 * n. m' (a + of_nat j) = word_byte ws j) \<and>
    same_outside m m' a (4 * n)"
  using assms
proof (induction n arbitrary: a m d ws)
  case 0
  then show ?case by (simp add: same_outside_def)
next
  case (Suc n)
  obtain w d1 where i: "in_long io port d = (w, d1)" by force
  obtain vs where r: "read_longs io port n d1 = (vs, d')" and ws: "ws = w # vs"
    using Suc.prems(1) i by (auto split: prod.splits)
  define m1 where "m1 = store32 a w m"
  obtain m' where m': "insl io port (a + 4) n m1 d1 = (m', d')"
    "\<forall>j < 4 * n. m' (a + 4 + of_nat j) = word_byte vs j" "same_outside m1 m' (a + 4) (4 * n)"
    using Suc.IH [OF r] Suc.prems(2) by force
  have o: "same_outside m1 m' (a + of_nat 4) (4 * n)" using m'(3) by simp
  have b: "m' (a + of_nat j) = word_byte ws j" if j: "j < 4 * Suc n" for j
  proof (cases "j < 4")
    case True
    have "m' (a + of_nat j) = m1 (a + of_nat j)"
      using same_outside_before [OF o True] Suc.prems(2) by simp
    with True show ?thesis by (simp add: m1_def store32_byte ws word_byte_def)
  next
    case False
    then obtain i where e: "j = i + 4" by (metis add.commute le_Suc_ex not_less)
    have "m' (a + of_nat j) = m' (a + 4 + of_nat i)" by (simp add: e algebra_simps)
    also have "\<dots> = word_byte vs i" using m'(2) j e by simp
    finally show ?thesis by (simp add: e ws word_byte_Cons)
  qed
  have "same_outside m m1 a (4 * Suc n)"
    unfolding m1_def by (rule same_outside_mono [OF same_outside_store32]) simp
  moreover have "same_outside m1 m' a (4 * Suc n)"
    using same_outside_shift [OF o] by (simp add: add.commute)
  ultimately have "same_outside m m' a (4 * Suc n)" by (rule same_outside_trans)
  moreover have "insl io port a (Suc n) m d = (m', d')" using m'(1) by (simp add: i m1_def)
  ultimately show ?case using b by blast
qed

lemma readsect_loads:
  assumes "serves_disk io img idle" and "idle d" and "s < 2 ^ 28"
  shows "\<exists>m' d'. readsect io dst (of_nat s) m d = Some (m', d') \<and> idle d' \<and>
    (\<forall>j < 512. m' (dst + of_nat j) = img (512 * s + j)) \<and> same_outside m m' dst 512"
proof -
  obtain d1 d2 d3 ws where w: "becomes_ready io d d1" "becomes_ready io (disk_command io (of_nat s) d1) d2"
    "read_longs io 0x1F0 128 d2 = (ws, d3)" "idle d3" "\<forall>j < 512. word_byte ws j = img (512 * s + j)"
    using assms unfolding serves_disk_def by meson
  obtain m' where "insl io 0x1F0 dst 128 m d2 = (m', d3)"
    "\<forall>j < 4 * 128. m' (dst + of_nat j) = word_byte ws j" "same_outside m m' dst (4 * 128)"
    using insl_bytes [OF w(3)] by force
  with w(4,5) waitdisk_ready [OF w(1)] waitdisk_ready [OF w(2)] show ?thesis
    by (simp add: readsect_def)
qed

lemma read_sectors_loads:
  assumes "serves_disk io img idle" and "idle d" and "s + n \<le> 2 ^ 28" and "unat va + 512 * n < 2 ^ 32"
    and "unat end_va \<le> unat va + 512 * n" and "n = 0 \<or> unat va + 512 * (n - 1) < unat end_va"
  shows "\<exists>m' d'. read_sectors io va end_va (of_nat s) m d = Some (m', d') \<and> idle d' \<and>
    (\<forall>j < 512 * n. m' (va + of_nat j) = img (512 * s + j)) \<and> same_outside m m' va (512 * n)"
  using assms(2-)
proof (induction n arbitrary: va s m d)
  case 0
  then have "\<not> va < end_va" by (simp add: word_less_nat_alt)
  with 0(1) show ?case by (subst read_sectors.simps) (simp add: same_outside_def)
next
  case (Suc n)
  have s: "s < 2 ^ 28" using Suc.prems(2) by simp
  have lt: "va < end_va" using Suc.prems(5) by (auto simp: word_less_nat_alt)
  obtain m1 d1 where m1: "readsect io va (of_nat s) m d = Some (m1, d1)" "idle d1"
    "\<forall>j < 512. m1 (va + of_nat j) = img (512 * s + j)" "same_outside m m1 va 512"
    using readsect_loads [OF assms(1) Suc.prems(1) s, of va m] by blast
  have v: "unat (va + 512) = unat va + 512"
    using Suc.prems(3) by (subst unat_add_small) simp_all
  have "n = 0 \<or> unat (va + 512) + 512 * (n - 1) < unat end_va"
    using Suc.prems(5) v by (cases n) auto
  then obtain m' d' where m': "read_sectors io (va + 512) end_va (of_nat (Suc s)) m1 d1 = Some (m', d')"
    "idle d'" "\<forall>j < 512 * n. m' (va + 512 + of_nat j) = img (512 * Suc s + j)"
    "same_outside m1 m' (va + 512) (512 * n)"
    using Suc.IH [OF m1(2), of "Suc s" "va + 512" m1] Suc.prems v by force
  have o: "same_outside m1 m' (va + of_nat 512) (512 * n)" using m'(4) by simp
  have b: "m' (va + of_nat j) = img (512 * s + j)" if j: "j < 512 * Suc n" for j
  proof (cases "j < 512")
    case True
    have "m' (va + of_nat j) = m1 (va + of_nat j)"
      using same_outside_before [OF o True] Suc.prems(3) by simp
    with True m1(3) show ?thesis by simp
  next
    case False
    then obtain i where e: "j = i + 512" by (metis add.commute le_Suc_ex not_less)
    have "m' (va + of_nat j) = m' (va + 512 + of_nat i)" by (simp add: e algebra_simps)
    also have "\<dots> = img (512 * Suc s + i)" using m'(3) j e by simp
    finally show ?thesis by (simp add: e algebra_simps)
  qed
  have "same_outside m m1 va (512 * Suc n)" by (rule same_outside_mono [OF m1(4)]) simp
  moreover have "same_outside m1 m' va (512 * Suc n)"
    using same_outside_shift [OF o] by (simp add: add.commute)
  ultimately have "same_outside m m' va (512 * Suc n)" by (rule same_outside_trans)
  moreover have "read_sectors io va end_va (of_nat s) m d = Some (m', d')"
    using m'(1) m1(1) lt by (subst read_sectors.simps) (simp add: add.commute)
  ultimately show ?case using b m'(2) by blast
qed

lemma clear_bss_zero:
  "clear_bss a b m x = (if a \<le> x \<and> x < b then 0 else m x)"
proof (induction a b m rule: clear_bss.induct)
  case (1 a b m)
  show ?case
  proof (cases "a < b")
    case True
    have "unat (a + 1) = unat a + 1"
      using True unat_lt_32 [of b] unfolding word_less_nat_alt
      by (subst unat_add_small) (simp_all del: unat_lt_32)
    then have "a + 1 \<le> x \<longleftrightarrow> a < x"
      by (simp add: word_less_nat_alt word_le_nat_alt Suc_le_eq)
    moreover have "a \<le> x \<longleftrightarrow> a < x \<or> x = a" by (auto simp: le_less)
    moreover have "clear_bss (a + 1) b (m(a := 0)) x = (if a + 1 \<le> x \<and> x < b then 0 else (m(a := 0)) x)"
      by (rule 1 [OF True])
    ultimately show ?thesis using True by (subst clear_bss.simps) (simp split: if_splits)
  next
    case False
    then show ?thesis by (subst clear_bss.simps) auto
  qed
qed

section \<open>Segments\<close>

text \<open>
  A segment is loaded at the low 24 bits of its address. Its sectors are read whole, so the memory
  that is written begins at the sector boundary below it and ends at the one above its file part,
  or at the end of its zeroed part.
\<close>

definition seg_at :: "u32 \<Rightarrow> nat" where
  "seg_at va = unat va mod 2 ^ 24"

definition seg_low :: "u32 \<Rightarrow> nat" where
  "seg_low va = seg_at va div 512 * 512"

definition seg_high :: "u32 \<Rightarrow> u32 \<Rightarrow> u32 \<Rightarrow> nat" where
  "seg_high va filesz memsz =
     max (seg_at va + unat memsz) ((seg_at va + unat filesz + 511) div 512 * 512)"

text \<open>The file part fits, it lies in its sector as the memory does, and nothing wraps around.\<close>

definition seg_fits :: "u32 \<Rightarrow> u32 \<Rightarrow> u32 \<Rightarrow> u32 \<Rightarrow> bool" where
  "seg_fits va filesz memsz off \<longleftrightarrow>
     filesz \<le> memsz \<and> unat off mod 512 = seg_at va mod 512 \<and> seg_high va filesz memsz < 2 ^ 32"

definition seg_loaded :: "(nat \<Rightarrow> u8) \<Rightarrow> u32 \<Rightarrow> u32 \<Rightarrow> u32 \<Rightarrow> u32 \<Rightarrow> bytes \<Rightarrow> bool" where
  "seg_loaded img va filesz memsz off m \<longleftrightarrow>
     (\<forall>k < unat memsz. m (of_nat (seg_at va + k)) = (if k < unat filesz then img (512 + unat off + k) else 0))"

lemma unat_seg_at: "unat (va AND 0xFFFFFF) = seg_at va"
  using unat_and_mask [of va 24] by (simp add: mask_eq_exp_minus_1 seg_at_def)

lemma unat_seg_low: "unat ((va AND 0xFFFFFF) AND NOT (SECTSIZE - 1)) = seg_low va"
  using unat_and_not_mask [of "va AND 0xFFFFFF" 9] by (simp add: mask_eq_exp_minus_1 seg_low_def unat_seg_at)

lemma same_outside_range:
  assumes "same_outside m m' a n" and "unat a + n < 2 ^ 32" and "unat x < unat a \<or> unat a + n \<le> unat x"
  shows "m' x = m x"
proof -
  have "n \<le> unat (x - a)"
  proof (cases "unat x < unat a")
    case True
    have "unat (x - a) = 2 ^ 32 + unat x - unat a"
      using True unat_lt_32 [of a] by (simp add: unat_sub_if' del: unat_lt_32)
    with assms(2) show ?thesis by linarith
  next
    case False
    then show ?thesis using assms(3) by (simp add: unat_sub_if')
  qed
  then show ?thesis by (rule same_outside_at [OF assms(1)])
qed

lemma unat_of_nat_32: "k < 2 ^ 32 \<Longrightarrow> unat (of_nat k :: u32) = k"
  by (simp add: unat_of_nat)

lemma of_nat_unat_32: "of_nat (unat w) = (w :: u32)"
  by simp

lemma readseg_loads_at:
  assumes disk: "serves_disk io img idle" and "idle d" and fits: "seg_fits va filesz memsz off"
  shows "\<exists>m' d'. readseg io va filesz memsz off m d = Some (m', d') \<and> idle d' \<and>
    seg_loaded img va filesz memsz off m' \<and>
    (\<forall>x. unat x < seg_low va \<or> seg_high va filesz memsz \<le> unat x \<longrightarrow> m' x = m x)"
proof -
  define v where "v = seg_at va"
  define c where "c = (v + unat filesz + 511) div 512"
  define n where "n = c - v div 512"
  define s where "s = unat off div 512 + 1"
  let ?va = "va AND 0xFFFFFF" and ?lo = "(va AND 0xFFFFFF) AND NOT (SECTSIZE - 1)"
  have v512: "v = v div 512 * 512 + v mod 512" and vr: "v mod 512 < 512" by simp_all
  have c1: "c * 512 \<le> v + unat filesz + 511" "v + unat filesz \<le> c * 512"
    unfolding c_def by linarith+
  have hi: "c * 512 < 2 ^ 32" "v + unat memsz < 2 ^ 32"
    using fits by (simp_all add: seg_fits_def seg_high_def v_def c_def)
  have le: "unat filesz \<le> unat memsz" and "unat off mod 512 = v mod 512"
    using fits by (simp_all add: seg_fits_def word_le_nat_alt v_def)
  have vc: "v div 512 \<le> c" using c1(2) v512 by linarith
  then have n: "v div 512 * 512 + 512 * n = c * 512" by (simp add: n_def algebra_simps)
  have lo: "unat ?lo = v div 512 * 512" using unat_seg_low by (simp add: seg_low_def v_def)
  have e: "unat (?va + filesz) = v + unat filesz" "unat (memsz + ?va) = v + unat memsz"
    using hi(2) le unat_seg_at [of va] by (simp_all add: unat_add_small v_def)
  have "s + n \<le> 2 ^ 28"
    using n hi(1) unat_lt_32 [of off] unfolding s_def by (simp del: unat_lt_32)
  moreover have "n = 0 \<or> unat ?lo + 512 * (n - 1) < unat (?va + filesz)"
    using n c1(1) by (cases n) (simp_all add: lo e del: SECTSIZE_def)
  moreover have "unat ?lo + 512 * n < 2 ^ 32" "unat (?va + filesz) \<le> unat ?lo + 512 * n"
    using n hi(1) c1(2) by (simp_all add: lo e del: SECTSIZE_def)
  ultimately obtain m1 d' where r:
    "read_sectors io ?lo (?va + filesz) (of_nat s) m d = Some (m1, d')" "idle d'"
    "\<forall>j < 512 * n. m1 (?lo + of_nat j) = img (512 * s + j)" "same_outside m m1 ?lo (512 * n)"
    using read_sectors_loads [OF disk \<open>idle d\<close>, of s n ?lo "?va + filesz" m] by blast
  define m' where "m' = clear_bss (?va + filesz) (memsz + ?va) m1"
  have off: "off div SECTSIZE + 1 = of_nat s"
    by (simp add: s_def word_unat_eq_iff unat_word_ariths unat_of_nat unat_div)
  have run: "readseg io va filesz memsz off m d = Some (m', d')"
    using r(1) off by (simp add: readseg_def Let_def m'_def del: SECTSIZE_def)
  have z: "m' x = (if v + unat filesz \<le> unat x \<and> unat x < v + unat memsz then 0 else m1 x)" for x
    by (simp add: m'_def clear_bss_zero word_le_nat_alt word_less_nat_alt e)
  have img_part: "m1 (of_nat (v + k)) = img (512 + unat off + k)" if k: "k < unat filesz" for k
  proof -
    have "?lo + of_nat (v mod 512 + k) = of_nat (v div 512 * 512) + of_nat (v mod 512 + k)"
      by (simp only: lo [symmetric] of_nat_unat_32)
    also have "\<dots> = of_nat (v + k)" by (subst v512) (simp only: flip: of_nat_add add: add.assoc)
    finally have "m1 (of_nat (v + k)) = m1 (?lo + of_nat (v mod 512 + k))" by (simp only:)
    moreover have "v mod 512 + k < 512 * n" using n c1(2) v512 k by linarith
    ultimately have "m1 (of_nat (v + k)) = img (512 * s + (v mod 512 + k))" using r(3) by (simp only:)
    moreover have "512 * s + (v mod 512 + k) = 512 + unat off + k"
      using \<open>unat off mod 512 = v mod 512\<close> div_mult_mod_eq [of "unat off" 512] unfolding s_def by simp
    ultimately show ?thesis by simp
  qed
  have "seg_loaded img va filesz memsz off m'"
    unfolding seg_loaded_def v_def [symmetric]
  proof (intro allI impI)
    fix k assume k: "k < unat memsz"
    then have "unat (of_nat (v + k) :: u32) = v + k" using hi(2) by (intro unat_of_nat_32) simp
    then show "m' (of_nat (v + k)) = (if k < unat filesz then img (512 + unat off + k) else 0)"
      using k img_part by (simp add: z)
  qed
  moreover have "m' x = m x" if x: "unat x < seg_low va \<or> seg_high va filesz memsz \<le> unat x" for x
  proof -
    have "unat x < v \<or> v + unat memsz \<le> unat x"
      using x v512 by (auto simp: seg_low_def seg_high_def v_def)
    then have "m' x = m1 x" using le by (auto simp: z)
    moreover have "unat x < unat ?lo \<or> unat ?lo + 512 * n \<le> unat x"
      using x n lo by (auto simp: seg_low_def seg_high_def c_def v_def)
    ultimately show ?thesis
      using same_outside_range [OF r(4)] n hi(1) lo by (simp del: SECTSIZE_def)
  qed
  ultimately show ?thesis using run r(2) by blast
qed

section \<open>The kernel's image\<close>

text \<open>
  The headers as the loader sees them: the image begins in the second sector, and its first page
  is read to 0x10000.
\<close>

definition file_mem :: "(nat \<Rightarrow> u8) \<Rightarrow> bytes" where
  "file_mem img x = img (512 + (unat x - 0x10000))"

definition image_elf :: "(nat \<Rightarrow> u8) \<Rightarrow> Elf" where
  "image_elf img = elf_at (file_mem img) ELFHDR"

definition image_phdr :: "(nat \<Rightarrow> u8) \<Rightarrow> nat \<Rightarrow> Proghdr" where
  "image_phdr img i = proghdr_at (file_mem img) (ELFHDR + e_phoff (image_elf img) + of_nat (32 * i))"

definition image_phdrs :: "(nat \<Rightarrow> u8) \<Rightarrow> Proghdr list" where
  "image_phdrs img = map (image_phdr img) [0..<unat (e_phnum (image_elf img))]"

definition has_headers :: "(nat \<Rightarrow> u8) \<Rightarrow> bytes \<Rightarrow> bool" where
  "has_headers img m \<longleftrightarrow> (\<forall>x. 0x10000 \<le> unat x \<and> unat x < 0x11000 \<longrightarrow> m x = file_mem img x)"

abbreviation phdr_low :: "Proghdr \<Rightarrow> nat" where
  "phdr_low p \<equiv> seg_low (p_va p)"

abbreviation phdr_high :: "Proghdr \<Rightarrow> nat" where
  "phdr_high p \<equiv> seg_high (p_va p) (p_filesz p) (p_memsz p)"

abbreviation phdr_loaded :: "(nat \<Rightarrow> u8) \<Rightarrow> bytes \<Rightarrow> Proghdr \<Rightarrow> bool" where
  "phdr_loaded img m p \<equiv> seg_loaded img (p_va p) (p_filesz p) (p_memsz p) (p_offset p) m"

text \<open>A later segment must not be read over an earlier one, and none over the headers.\<close>

definition phdr_ok :: "Proghdr \<Rightarrow> bool" where
  "phdr_ok p \<longleftrightarrow> seg_fits (p_va p) (p_filesz p) (p_memsz p) (p_offset p) \<and>
     (phdr_high p \<le> 0x10000 \<or> 0x11000 \<le> phdr_low p)"

definition spares :: "Proghdr \<Rightarrow> Proghdr \<Rightarrow> bool" where
  "spares p q \<longleftrightarrow> seg_at (p_va p) + unat (p_memsz p) \<le> phdr_low q \<or> phdr_high q \<le> seg_at (p_va p)"

definition bootable :: "(nat \<Rightarrow> u8) \<Rightarrow> bool" where
  "bootable img \<longleftrightarrow> e_magic (image_elf img) = ELF_MAGIC \<and>
     unat (e_phoff (image_elf img)) + 32 * unat (e_phnum (image_elf img)) \<le> 0x1000 \<and>
     (\<forall>p \<in> set (image_phdrs img). phdr_ok p) \<and> sorted_wrt spares (image_phdrs img)"

lemma elf_at_headers: "has_headers img m \<Longrightarrow> elf_at m ELFHDR = image_elf img"
  by (simp add: has_headers_def image_elf_def elf_at_def load32_def load16_def upt_conv_Cons)

lemma proghdr_at_headers:
  assumes m: "has_headers img m" and a: "0x10000 \<le> unat a" "unat a + 32 \<le> 0x11000"
  shows "proghdr_at m a = proghdr_at (file_mem img) a"
proof -
  have e: "m (a + of_nat j) = file_mem img (a + of_nat j)" if "j < 32" for j
  proof -
    have "unat (a + of_nat j) = unat a + j"
      using a that by (simp add: unat_add_small unat_of_nat_32)
    with m a that show ?thesis by (simp add: has_headers_def)
  qed
  have "m (a + numeral w) = file_mem img (a + numeral w)" if "numeral w < (32::nat)" for w
    using e [of "numeral w"] that by simp
  with e [of 0] e [of 1] show ?thesis by (simp add: proghdr_at_def load32_def add.assoc)
qed

lemma seg_loaded_kept:
  assumes "seg_loaded img va filesz memsz off m" and "seg_at va + unat memsz < 2 ^ 32"
    and "\<And>x. seg_at va \<le> unat x \<Longrightarrow> unat x < seg_at va + unat memsz \<Longrightarrow> m' x = m x"
  shows "seg_loaded img va filesz memsz off m'"
  unfolding seg_loaded_def
proof (intro allI impI)
  fix k assume k: "k < unat memsz"
  have "unat (of_nat (seg_at va + k) :: u32) = seg_at va + k"
    using k assms(2) by (intro unat_of_nat_32) simp
  then have "m' (of_nat (seg_at va + k)) = m (of_nat (seg_at va + k))"
    using k by (intro assms(3)) simp_all
  with assms(1) k show "m' (of_nat (seg_at va + k)) = (if k < unat filesz then img (512 + unat off + k) else 0)"
    by (simp add: seg_loaded_def)
qed

lemma phdr_ok_headers:
  assumes "phdr_ok p" and "\<forall>x. unat x < phdr_low p \<or> phdr_high p \<le> unat x \<longrightarrow> m' x = m x" and "has_headers img m"
  shows "has_headers img m'"
proof -
  have "m' x = m x" if "0x10000 \<le> unat x \<and> unat x < 0x11000" for x
    using assms(1,2) that unfolding phdr_ok_def by force
  with assms(3) show ?thesis by (simp add: has_headers_def)
qed

lemma load_segments_all:
  assumes disk: "serves_disk io img idle"
    and "idle d" and "has_headers img m"
    and "0x10000 \<le> unat ph" and "unat ph + 32 * n \<le> 0x11000" and "unat eph = unat ph + 32 * n"
    and "ps = map (\<lambda>i. proghdr_at (file_mem img) (ph + of_nat (32 * i))) [0..<n]"
    and "\<forall>p \<in> set ps. phdr_ok p" and "sorted_wrt spares ps"
  shows "\<exists>m' d'. load_segments io ph eph m d = Some (m', d') \<and> idle d' \<and> has_headers img m' \<and>
    (\<forall>p \<in> set ps. phdr_loaded img m' p) \<and>
    (\<forall>x. (\<forall>p \<in> set ps. unat x < phdr_low p \<or> phdr_high p \<le> unat x) \<longrightarrow> m' x = m x)"
  using assms(2-)
proof (induction n arbitrary: ph m d ps)
  case 0
  then show ?case by (subst load_segments.simps) (simp add: word_less_nat_alt)
next
  case (Suc n)
  have lt: "ph < eph" using Suc.prems(5) by (simp add: word_less_nat_alt)
  define p where "p = proghdr_at (file_mem img) ph"
  define qs where "qs = map (\<lambda>i. proghdr_at (file_mem img) (ph + 32 + of_nat (32 * i))) [0..<n]"
  have ps: "ps = p # qs"
    unfolding Suc.prems(6) upt_conv_Cons [OF zero_less_Suc]
    by (simp add: p_def qs_def map_Suc_upt [symmetric] o_def algebra_simps del: upt_Suc)
  have at: "proghdr_at m ph = p"
    using proghdr_at_headers [OF Suc.prems(2,3)] Suc.prems(4) by (simp add: p_def)
  have ok: "phdr_ok p" "\<forall>q \<in> set qs. phdr_ok q" "\<forall>q \<in> set qs. spares p q" "sorted_wrt spares qs"
    using Suc.prems(7,8) by (simp_all add: ps)
  have fits: "seg_fits (p_va p) (p_filesz p) (p_memsz p) (p_offset p)"
    using ok(1) by (simp add: phdr_ok_def)
  obtain m1 d1 where r: "readseg io (p_va p) (p_filesz p) (p_memsz p) (p_offset p) m d = Some (m1, d1)"
    "idle d1" "phdr_loaded img m1 p" "\<forall>x. unat x < phdr_low p \<or> phdr_high p \<le> unat x \<longrightarrow> m1 x = m x"
    using readseg_loads_at [OF disk Suc.prems(1) fits] by blast
  have v: "unat (ph + 32) = unat ph + 32"
    using Suc.prems(4) by (subst unat_add_small) simp_all
  obtain m' d' where l: "load_segments io (ph + 32) eph m1 d1 = Some (m', d')" "idle d'" "has_headers img m'"
    "\<forall>q \<in> set qs. phdr_loaded img m' q"
    "\<forall>x. (\<forall>q \<in> set qs. unat x < phdr_low q \<or> phdr_high q \<le> unat x) \<longrightarrow> m' x = m1 x"
    using Suc.IH [OF r(2) phdr_ok_headers [OF ok(1) r(4) Suc.prems(2)], of "ph + 32" qs]
      Suc.prems(3-5) ok v by (force simp: qs_def)
  have "phdr_loaded img m' p"
  proof (rule seg_loaded_kept [OF r(3)])
    show "seg_at (p_va p) + unat (p_memsz p) < 2 ^ 32"
      using fits by (simp add: seg_fits_def seg_high_def)
    fix x :: u32 assume "seg_at (p_va p) \<le> unat x" "unat x < seg_at (p_va p) + unat (p_memsz p)"
    then have "\<forall>q \<in> set qs. unat x < phdr_low q \<or> phdr_high q \<le> unat x"
      using ok(3) unfolding spares_def by (meson le_trans less_le_trans)
    then show "m' x = m1 x" using l(5) by blast
  qed
  moreover have "load_segments io ph eph m d = Some (m', d')"
    using l(1) r(1) lt by (subst load_segments.simps) (simp add: at Let_def)
  ultimately show ?case using l r(4) by (auto simp: ps)
qed

lemma readseg_headers:
  assumes "serves_disk io img idle" and "idle d"
  shows "\<exists>m' d'. readseg io ELFHDR PAGESIZE_boot PAGESIZE_boot 0 m d = Some (m', d') \<and> idle d' \<and> has_headers img m' \<and>
    (\<forall>x. unat x < 0x10000 \<or> 0x11000 \<le> unat x \<longrightarrow> m' x = m x)"
proof -
  have a: "seg_at ELFHDR = 0x10000" "seg_low ELFHDR = 0x10000" "seg_high ELFHDR PAGESIZE_boot PAGESIZE_boot = 0x11000"
    by (simp_all add: seg_at_def seg_low_def seg_high_def)
  have "seg_fits ELFHDR PAGESIZE_boot PAGESIZE_boot 0" by (simp add: seg_fits_def a del: ELFHDR_def PAGESIZE_boot_def)
  then obtain m' d' where r: "readseg io ELFHDR PAGESIZE_boot PAGESIZE_boot 0 m d = Some (m', d')" "idle d'"
    "seg_loaded img ELFHDR PAGESIZE_boot PAGESIZE_boot 0 m'"
    "\<forall>x. unat x < 0x10000 \<or> 0x11000 \<le> unat x \<longrightarrow> m' x = m x"
    using readseg_loads_at [OF assms] a by metis
  have "m' x = file_mem img x" if x: "0x10000 \<le> unat x \<and> unat x < 0x11000" for x
  proof -
    have "unat x - 0x10000 < unat PAGESIZE_boot" using x by auto
    then have "m' (of_nat (0x10000 + (unat x - 0x10000))) = img (512 + (unat x - 0x10000))"
      using r(3) unfolding seg_loaded_def a(1) by simp
    with x show ?thesis by (simp add: file_mem_def)
  qed
  with r show ?thesis by (auto simp: has_headers_def)
qed

lemma ucast_word: "unat (ucast v :: u32) = unat v" for v :: u16
  by transfer simp

lemma image_phdrs_run:
  assumes "bootable img"
  shows "image_phdrs img = map (\<lambda>i. proghdr_at (file_mem img) (ELFHDR + e_phoff (image_elf img) + of_nat (32 * i)))
      [0..<unat (e_phnum (image_elf img))]"
    and "unat (ELFHDR + e_phoff (image_elf img)) = 0x10000 + unat (e_phoff (image_elf img))"
    and "unat (ELFHDR + e_phoff (image_elf img) + 32 * ucast (e_phnum (image_elf img))) =
      0x10000 + unat (e_phoff (image_elf img)) + 32 * unat (e_phnum (image_elf img))"
proof -
  let ?o = "e_phoff (image_elf img)" and ?n = "e_phnum (image_elf img)"
  have b: "unat ?o + 32 * unat ?n \<le> 0x1000" using assms by (simp add: bootable_def)
  show "image_phdrs img = map (\<lambda>i. proghdr_at (file_mem img) (ELFHDR + ?o + of_nat (32 * i))) [0..<unat ?n]"
    by (simp add: image_phdrs_def image_phdr_def)
  show o: "unat (ELFHDR + ?o) = 0x10000 + unat ?o" using b by (subst unat_add_small) simp_all
  have "unat (ucast ?n :: u32) = unat ?n" by (rule ucast_word)
  then have "unat (32 * ucast ?n :: u32) = 32 * unat ?n"
    using b by (subst unat_mult_small) simp_all
  with b o show "unat (ELFHDR + ?o + 32 * ucast ?n) = 0x10000 + unat ?o + 32 * unat ?n"
    by (subst unat_add_small) simp_all
qed

lemma bootmain_boots:
  assumes disk: "serves_disk io img idle" and "idle d" and boot: "bootable img"
  shows "\<exists>m' d'. bootmain io m d = Some (Some (e_entry (image_elf img) AND 0xFFFFFF), m', d') \<and> idle d' \<and>
    (\<forall>p \<in> set (image_phdrs img). phdr_loaded img m' p) \<and>
    (\<forall>x. (unat x < 0x10000 \<or> 0x11000 \<le> unat x) \<and>
       (\<forall>p \<in> set (image_phdrs img). unat x < phdr_low p \<or> phdr_high p \<le> unat x) \<longrightarrow> m' x = m x)"
proof -
  let ?e = "image_elf img"
  let ?ph = "ELFHDR + e_phoff ?e" and ?eph = "ELFHDR + e_phoff ?e + 32 * ucast (e_phnum ?e)"
  obtain m1 d1 where h: "readseg io ELFHDR PAGESIZE_boot PAGESIZE_boot 0 m d = Some (m1, d1)" "idle d1" "has_headers img m1"
    "\<forall>x. unat x < 0x10000 \<or> 0x11000 \<le> unat x \<longrightarrow> m1 x = m x"
    using readseg_headers [OF disk \<open>idle d\<close>] by metis
  note run = image_phdrs_run [OF boot]
  have b: "e_magic ?e = ELF_MAGIC" "unat (e_phoff ?e) + 32 * unat (e_phnum ?e) \<le> 0x1000"
    "\<forall>p \<in> set (image_phdrs img). phdr_ok p" "sorted_wrt spares (image_phdrs img)"
    using boot by (simp_all add: bootable_def)
  have "0x10000 \<le> unat ?ph" "unat ?ph + 32 * unat (e_phnum ?e) \<le> 0x11000"
    "unat ?eph = unat ?ph + 32 * unat (e_phnum ?e)"
    using run(2,3) b(2) by simp_all
  from load_segments_all [OF disk h(2,3) this run(1) b(3,4)]
  obtain m' d' where l: "load_segments io ?ph ?eph m1 d1 = Some (m', d')" "idle d'" "has_headers img m'"
    "\<forall>p \<in> set (image_phdrs img). phdr_loaded img m' p"
    "\<forall>x. (\<forall>p \<in> set (image_phdrs img). unat x < phdr_low p \<or> phdr_high p \<le> unat x) \<longrightarrow> m' x = m1 x"
    by blast
  have "bootmain io m d = Some (Some (e_entry ?e AND 0xFFFFFF), m', d')"
    using h(1) l(1) b(1) elf_at_headers [OF h(3)] elf_at_headers [OF l(3)]
    by (simp add: bootmain_def Let_def del: ELFHDR_def PAGESIZE_boot_def ELF_MAGIC_def)
  with l h(4) show ?thesis by metis
qed

lemma bootmain_bad_magic:
  assumes "serves_disk io img idle" and "idle d" and "e_magic (image_elf img) \<noteq> ELF_MAGIC"
  shows "\<exists>m' d'. bootmain io m d = Some (None, m', out_word io 0x8A00 0x8E00 (out_word io 0x8A00 0x8A00 d')) \<and>
    idle d' \<and> (\<forall>x. unat x < 0x10000 \<or> 0x11000 \<le> unat x \<longrightarrow> m' x = m x)"
proof -
  obtain m1 d1 where h: "readseg io ELFHDR PAGESIZE_boot PAGESIZE_boot 0 m d = Some (m1, d1)" "idle d1" "has_headers img m1"
    "\<forall>x. unat x < 0x10000 \<or> 0x11000 \<le> unat x \<longrightarrow> m1 x = m x"
    using readseg_headers [OF assms(1,2)] by metis
  with assms(3) elf_at_headers [OF h(3)]
  have "bootmain io m d = Some (None, m1, out_word io 0x8A00 0x8E00 (out_word io 0x8A00 0x8A00 d1))"
    by (simp add: bootmain_def del: ELFHDR_def PAGESIZE_boot_def ELF_MAGIC_def)
  with h(2,4) show ?thesis by blast
qed

section \<open>An IDE disk\<close>

text \<open>
  A disk that is always ready, to apply the theorems to: its state is the task file's registers and
  the number of words that the last command has handed out.
\<close>

definition lba :: "(u32 \<Rightarrow> u8) \<Rightarrow> u32" where
  "lba r = ucast (r 0x1F3) OR push_bit 8 (ucast (r 0x1F4)) OR push_bit 16 (ucast (r 0x1F5)) OR
     push_bit 24 (ucast (r 0x1F6 AND 0x0F))"

definition ide_disk :: "(nat \<Rightarrow> u8) \<Rightarrow> ((u32 \<Rightarrow> u8) \<times> nat) disk_io" where
  "ide_disk img =
     \<lparr>inb = \<lambda>port d. (0x40, d),
      outb = \<lambda>port v (r, n). (r(port := v), 0),
      backed = \<lambda>a. False,
      in_long = \<lambda>port (r, n).
        (load32 (\<lambda>a. img (512 * unat (lba r) + 4 * n + unat a)) 0, (r, n + 1)),
      out_word = \<lambda>port v d. d\<rparr>"

lemma head_bits: "(ucast ((x :: u32) OR 0xE0) :: u8) AND 0x0F = ucast x AND mask 4"
proof (rule bit_word_eqI)
  fix i assume "i < LENGTH(8)"
  then consider "i = 0" | "i = 1" | "i = 2" | "i = 3" | "i = 4" | "i = 5" | "i = 6" | "i = 7"
    by (simp, linarith)
  then show "bit ((ucast (x OR 0xE0) :: u8) AND 0x0F) i = bit (ucast x AND mask 4 :: u8) i"
    by cases (simp_all add: bit_simps bit_numeral_rec)
qed

lemma lba_command:
  assumes "off < 2 ^ 28"
  shows "lba (r(0x1F2 := c, 0x1F3 := ucast off, 0x1F4 := ucast (drop_bit 8 off), 0x1F5 := ucast (drop_bit 16 off),
    0x1F6 := ucast (drop_bit 24 off OR 0xE0), 0x1F7 := 0x20)) = off"
proof -
  have "off = take_bit 28 off" using assms
    by (simp add: word_unat_eq_iff unsigned_take_bit_eq take_bit_nat_eq_self word_less_nat_alt)
  then have b: "bit off i \<Longrightarrow> i < 28" for i by (metis bit_take_bit_iff)
  have "ucast (ucast off :: u8) OR push_bit 8 (ucast (ucast (drop_bit 8 off) :: u8)) OR
      push_bit 16 (ucast (ucast (drop_bit 16 off) :: u8)) OR
      push_bit 24 (ucast (ucast (drop_bit 24 off) AND mask 4 :: u8)) = off" (is "?l = _")
  proof (rule bit_word_eqI)
    fix i assume "i < LENGTH(32)"
    with b [of i] show "bit ?l i = bit off i"
      by (cases "i < 8"; cases "i < 16"; cases "i < 24"; simp add: bit_simps) auto
  qed
  then show ?thesis by (simp add: lba_def head_bits)
qed

lemma ide_read_longs:
  "\<exists>ws. read_longs (ide_disk img) p n (r, k) = (ws, (r, k + n)) \<and>
     (\<forall>j < 4 * n. word_byte ws j = img (512 * unat (lba r) + 4 * k + j))"
proof (induction n arbitrary: k)
  case (Suc n)
  let ?w = "load32 (\<lambda>a. img (512 * unat (lba r) + 4 * k + unat a)) 0"
  obtain ws where ws: "read_longs (ide_disk img) p n (r, k + 1) = (ws, (r, k + 1 + n))"
    "\<forall>j < 4 * n. word_byte ws j = img (512 * unat (lba r) + 4 * (k + 1) + j)"
    using Suc.IH by blast
  have "word_byte (?w # ws) j = img (512 * unat (lba r) + 4 * k + j)" if j: "j < 4 * Suc n" for j
  proof (cases "j < 4")
    case True
    then show ?thesis by (simp add: word_byte_def load32_byte unat_of_nat)
  next
    case False
    then obtain i where e: "j = i + 4" by (metis add.commute le_Suc_ex not_less)
    with ws(2) j have "word_byte ws i = img (512 * unat (lba r) + 4 * (k + 1) + i)" by simp
    then show ?thesis by (simp add: e word_byte_Cons algebra_simps)
  qed
  with ws(1) show ?case by (simp add: ide_disk_def)
qed simp

lemma ide_disk_serves: "serves_disk (ide_disk img) img (\<lambda>d. True)"
  unfolding serves_disk_def
proof (intro allI impI)
  fix d :: "(u32 \<Rightarrow> u8) \<times> nat" and s :: nat
  assume s: "s < 2 ^ 28"
  have ready: "becomes_ready (ide_disk img) d d" for d
    by (rule becomes_ready.ready [of _ _ "0x40"]) (simp_all add: ide_disk_def)
  obtain r k where d: "d = (r, k)" by force
  define off :: u32 where "off = of_nat s"
  have u: "unat off = s" unfolding off_def using s by (intro unat_of_nat_32) simp
  define r' where "r' = r(0x1F2 := 1, 0x1F3 := ucast off, 0x1F4 := ucast (drop_bit 8 off),
    0x1F5 := ucast (drop_bit 16 off), 0x1F6 := ucast (drop_bit 24 off OR 0xE0), 0x1F7 := 0x20)"
  have l: "lba r' = off" unfolding r'_def using s u by (intro lba_command) (simp add: word_less_nat_alt)
  have c: "disk_command (ide_disk img) off d = (r', 0)"
    by (simp add: disk_command_def ide_disk_def d r'_def Let_def)
  obtain ws where ws: "read_longs (ide_disk img) 0x1F0 128 (r', 0) = (ws, (r', 0 + 128))"
    "\<forall>j < 4 * 128. word_byte ws j = img (512 * unat (lba r') + 4 * 0 + j)"
    using ide_read_longs by blast
  then have "\<forall>j < 512. word_byte ws j = img (512 * s + j)" by (simp add: l u)
  then show "\<exists>d1 d2 d3 ws. becomes_ready (ide_disk img) d d1 \<and>
      becomes_ready (ide_disk img) (disk_command (ide_disk img) (of_nat s) d1) d2 \<and>
      read_longs (ide_disk img) 0x1F0 128 d2 = (ws, d3) \<and> True \<and> (\<forall>j < 512. word_byte ws j = img (512 * s + j))"
    using ready [of d] ready [of "(r', 0)"] ws(1) c [unfolded off_def] by metis
qed

section \<open>Booting\<close>

text \<open>A small kernel: the headers, one segment that is the whole file and eight bytes of zeros.\<close>

definition disk_of :: "u8 list \<Rightarrow> nat \<Rightarrow> u8" where
  "disk_of l i = (if i < length l then l ! i else 0)"

definition demo_kernel :: "u8 list" where
  "demo_kernel =
     [0x7F, 0x45, 0x4C, 0x46, 1, 1, 1, 0, 0, 0, 0, 0, 0, 0, 0, 0, 2, 0, 3, 0, 1, 0, 0, 0,
      0x0C, 0, 0x10, 0xF0, 0x34, 0, 0, 0, 0, 0, 0, 0, 0, 0, 0, 0, 0x34, 0, 0x20, 0, 1, 0, 0, 0, 0, 0, 0, 0,
      1, 0, 0, 0, 0, 0, 0, 0, 0, 0, 0x10, 0xF0, 0, 0, 0x10, 0, 0x58, 0, 0, 0, 0x60, 0, 0, 0, 7, 0, 0, 0, 0, 0x10, 0, 0,
      0xEB, 0xFE, 0x90, 0x90]"

abbreviation demo_disk :: "nat \<Rightarrow> u8" where
  "demo_disk \<equiv> disk_of (replicate 512 0 @ demo_kernel)"

definition demo_phdr :: Proghdr where
  "demo_phdr = \<lparr>p_type = 1, p_offset = 0, p_va = 0xF0100000, p_pa = 0x100000, p_filesz = 88, p_memsz = 96,
     p_flags = 7, p_align = 0x1000\<rparr>"

lemma demo_mem:
  "0x10000 \<le> unat x \<Longrightarrow> file_mem demo_disk x =
     (if unat x - 0x10000 < 88 then demo_kernel ! (unat x - 0x10000) else 0)"
  using le_Suc_ex [of "0x10000" "unat x"]
  by (auto simp: file_mem_def disk_of_def nth_append demo_kernel_def)

lemma demo_elf:
  "e_magic (image_elf demo_disk) = ELF_MAGIC" "e_phoff (image_elf demo_disk) = 52"
  "e_phnum (image_elf demo_disk) = 1" "e_entry (image_elf demo_disk) = 0xF010000C"
  by (simp_all add: image_elf_def elf_at_def load32_def load16_def demo_mem) (simp_all add: demo_kernel_def)

lemma demo_phdrs: "image_phdrs demo_disk = [demo_phdr]"
  by (simp add: image_phdrs_def demo_elf image_phdr_def proghdr_at_def load32_def demo_mem)
    (simp add: demo_kernel_def demo_phdr_def)

lemma demo_bootable: "bootable demo_disk"
proof -
  have "phdr_ok demo_phdr"
    by (simp add: phdr_ok_def demo_phdr_def seg_fits_def seg_high_def seg_low_def seg_at_def)
  then show ?thesis by (simp add: bootable_def demo_elf demo_phdrs del: ELF_MAGIC_def)
qed

text \<open>C12: From a disk that serves its sectors and holds a bootable ELF image from its second sector on, the
  boot loader returns, and calls the image's entry point (its low 24 bits) with every segment in
  place: its file bytes copied from the image, the rest of it zero. Outside the segments, rounded to
  whole sectors, and the page of scratch space, the memory is as it was.\<close>

theorem bootmain_loads:
  assumes "serves_disk io img idle" and "idle d" and "bootable img"
  shows "\<exists>m' d'. bootmain io m d = Some (Some (e_entry (image_elf img) AND 0xFFFFFF), m', d') \<and> idle d' \<and>
    (\<forall>p \<in> set (image_phdrs img).
       \<forall>k < unat (p_memsz p). m' (of_nat (seg_at (p_va p) + k)) =
         (if k < unat (p_filesz p) then img (512 + unat (p_offset p) + k) else 0)) \<and>
    (\<forall>x. (unat x < 0x10000 \<or> 0x11000 \<le> unat x) \<and>
       (\<forall>p \<in> set (image_phdrs img). unat x < phdr_low p \<or> phdr_high p \<le> unat x) \<longrightarrow> m' x = m x)"
  using bootmain_boots [OF assms] unfolding seg_loaded_def .

lemma bootmain_loads_witness:
  "\<exists>m' d'. bootmain (ide_disk demo_disk) (\<lambda>_. 0xCC) (\<lambda>_. 0, 0) = Some (Some 0x10000C, m', d') \<and>
     (m' 0x100000, m' 0x100054, m' 0x10005F) = (0x7F, 0xEB, 0)"
proof -
  obtain m' d' where r:
    "bootmain (ide_disk demo_disk) (\<lambda>_. 0xCC) (\<lambda>_. 0, 0) =
      Some (Some (e_entry (image_elf demo_disk) AND 0xFFFFFF), m', d')"
    "\<forall>p \<in> set (image_phdrs demo_disk). \<forall>k < unat (p_memsz p). m' (of_nat (seg_at (p_va p) + k)) =
      (if k < unat (p_filesz p) then demo_disk (512 + unat (p_offset p) + k) else 0)"
    using bootmain_loads [OF ide_disk_serves TrueI demo_bootable, of "\<lambda>_. 0xCC" "(\<lambda>_. 0, 0)"] by metis
  have b: "bootmain (ide_disk demo_disk) (\<lambda>_. 0xCC) (\<lambda>_. 0, 0) = Some (Some 0x10000C, m', d')"
    using r(1) by (simp add: demo_elf)
  have "\<forall>k < 96. m' (of_nat (0x100000 + k)) = (if k < 88 then demo_disk (512 + k) else 0)"
    using bspec [OF r(2), of demo_phdr] by (simp add: demo_phdrs) (simp add: demo_phdr_def seg_at_def)
  note k = this [rule_format]
  from k [of 0] k [of 84] k [of 95]
  have "(m' 0x100000, m' 0x100054, m' 0x10005F) = (0x7F, 0xEB, 0)"
    by (simp add: disk_of_def nth_append demo_kernel_def)
  with b show ?thesis by blast
qed

text \<open>C40: When the image does not begin with the ELF magic number, the boot loader reads its first page and
  nothing more, writes 0x8A00 and 0x8E00 to the port that stops the machine, and calls nothing.\<close>

theorem bootmain_rejects:
  assumes "serves_disk io img idle" and "idle d" and "e_magic (image_elf img) \<noteq> ELF_MAGIC"
  shows "\<exists>m' d'. bootmain io m d = Some (None, m', out_word io 0x8A00 0x8E00 (out_word io 0x8A00 0x8A00 d')) \<and>
    idle d' \<and> (\<forall>x. unat x < 0x10000 \<or> 0x11000 \<le> unat x \<longrightarrow> m' x = m x)"
  by (rule bootmain_bad_magic [OF assms])

lemma bootmain_rejects_witness:
  "\<exists>m' d'. bootmain (ide_disk (\<lambda>_. 0)) (\<lambda>_. 0xCC) (\<lambda>_. 0, 0) = Some (None, m', d') \<and> m' 0x7C00 = 0xCC"
proof -
  have "e_magic (image_elf (\<lambda>_. 0)) \<noteq> ELF_MAGIC"
    by (simp add: image_elf_def elf_at_def load32_def file_mem_def)
  from bootmain_rejects [OF ide_disk_serves TrueI this, of "\<lambda>_. 0xCC" "(\<lambda>_. 0, 0)"]
  obtain m' d' where b: "bootmain (ide_disk (\<lambda>_. 0)) (\<lambda>_. 0xCC) (\<lambda>_. 0, 0) =
      Some (None, m', out_word (ide_disk (\<lambda>_. 0)) 0x8A00 0x8E00 (out_word (ide_disk (\<lambda>_. 0)) 0x8A00 0x8A00 d'))"
    "\<forall>x. unat x < 0x10000 \<or> 0x11000 \<le> unat x \<longrightarrow> m' x = 0xCC" by blast
  have "m' 0x7C00 = 0xCC" using b(2) [rule_format, of "0x7C00"] by simp
  with b(1) show ?thesis by blast
qed

end
