(* ===== verification/Boot_Disk.thy ===== *)
theory Boot_Disk
  imports Boot_Loader
begin

text \<open>
  \<^verbatim>\<open>boot/mkbootdisk.c\<close>, the program that runs on the build machine and puts the boot sector, the kernel
  and zero sectors together into a disk image, and the two ends of the boot path joined: an
  image it makes is one from which \<^verbatim>\<open>boot/main.c\<close> loads the kernel. The files of the build machine
  are a function from names to contents, the largest \<^verbatim>\<open>unsigned long\<close> of its C library an argument.
\<close>

section \<open>The C library\<close>

definition isdigit :: "char \<Rightarrow> bool" where
  "isdigit c \<longleftrightarrow> of_char (CHR ''0'') \<le> (of_char c :: nat) \<and> of_char c \<le> (of_char (CHR ''9'') :: nat)"

definition digit_value :: "char \<Rightarrow> nat option" where
  "digit_value c =
     (let n = of_char c in
      if isdigit c then Some (n - 48)
      else if 97 \<le> n \<and> n \<le> 122 then Some (n - 87)
      else if 65 \<le> n \<and> n \<le> 90 then Some (n - 55)
      else None)"

definition is_digit_of :: "nat \<Rightarrow> char \<Rightarrow> bool" where
  "is_digit_of base c \<longleftrightarrow> (case digit_value c of None \<Rightarrow> False | Some x \<Rightarrow> x < base)"

fun strtoul_digits :: "nat \<Rightarrow> nat \<Rightarrow> string \<Rightarrow> nat \<times> string" where
  "strtoul_digits base v [] = (v, [])"
| "strtoul_digits base v (c # s) =
     (if is_digit_of base c then strtoul_digits base (v * base + the (digit_value c)) s else (v, c # s))"

text \<open>\<^verbatim>\<open>strtoul\<close> with base 0, of a text that begins with a digit.\<close>

fun has_hex_prefix :: "string \<Rightarrow> bool" where
  "has_hex_prefix (z # x # c # s) \<longleftrightarrow>
     z = CHR ''0'' \<and> (x = CHR ''x'' \<or> x = CHR ''X'') \<and> is_digit_of 16 c"
| "has_hex_prefix s \<longleftrightarrow> False"

definition strtoul :: "nat \<Rightarrow> string \<Rightarrow> nat \<times> string" where
  "strtoul ulong_max s =
     apfst (min ulong_max)
       (if has_hex_prefix s then strtoul_digits 16 0 (drop 2 s)
        else if s \<noteq> [] \<and> hd s = CHR ''0'' then strtoul_digits 8 0 s
        else strtoul_digits 10 0 s)"

section \<open>The program\<close>

text \<open>Each of these ends in \<^verbatim>\<open>usage\<close>, which exits with status 1.\<close>

datatype mk_error =
  No_Boot_Sector
| Cannot_Open string
| Boot_Block_Too_Large string nat
| Cannot_Skip nat nat

definition zeros :: "nat \<Rightarrow> u8 list" where
  "zeros n = replicate n 0"

definition fopencheck :: "(string \<Rightarrow> u8 list option) \<Rightarrow> string \<Rightarrow> mk_error + u8 list" where
  "fopencheck files name = (case files name of None \<Rightarrow> Inl (Cannot_Open name) | Some f \<Rightarrow> Inr f)"

definition boot_sector :: "string \<Rightarrow> u8 list \<Rightarrow> mk_error + u8 list" where
  "boot_sector name f =
     (let buf = take 1000 f; n = length buf in
      if n > 510 then Inl (Boot_Block_Too_Large name n)
      else Inr (buf @ zeros (510 - n) @ [0x55, 0xAA]))"

function zero_sectors :: "nat \<Rightarrow> nat \<Rightarrow> u8 list \<Rightarrow> nat \<times> u8 list" where
  "zero_sectors limit nsectors out =
     (if nsectors < limit then zero_sectors limit (nsectors + 1) (out @ zeros 512) else (nsectors, out))"
  by pat_completeness auto
termination
  by (relation "measure (\<lambda>(limit, nsectors, out). limit - nsectors)") auto

function copy_file :: "u8 list \<Rightarrow> nat \<Rightarrow> u8 list \<Rightarrow> nat \<times> u8 list" where
  "copy_file f pos out =
     (let buf = take 1000 f in
      if length buf > 0 then copy_file (drop 1000 f) (pos + length buf) (out @ buf) else (pos, out))"
  by pat_completeness auto
termination
  by (relation "measure (\<lambda>(f, pos, out). length f)") auto

declare zero_sectors.simps [simp del] copy_file.simps [simp del]

definition append_file :: "u8 list \<Rightarrow> nat \<Rightarrow> u8 list \<Rightarrow> nat \<times> u8 list" where
  "append_file f nsectors out =
     (let (pos, out) = copy_file f 0 out;
          (pos, out) =
            (if pos mod 512 \<noteq> 0 then (pos + (512 - pos mod 512), out @ zeros (512 - pos mod 512)) else (pos, out))
      in (nsectors + pos div 512, out))"

fun skip_arg :: "nat \<Rightarrow> string \<Rightarrow> nat option" where
  "skip_arg ulong_max (a # c # s) =
     (if a = CHR ''@'' \<and> isdigit c
      then (case strtoul ulong_max (c # s) of (skipto, str) \<Rightarrow> if str = [] then Some skipto else None)
      else None)"
| "skip_arg ulong_max s = None"

fun write_args ::
    "nat \<Rightarrow> (string \<Rightarrow> u8 list option) \<Rightarrow> string list \<Rightarrow> nat \<times> u8 list \<Rightarrow> (mk_error \<times> u8 list) + (nat \<times> u8 list)" where
  "write_args ulong_max files [] (nsectors, out) = Inr (nsectors, out)"
| "write_args ulong_max files (arg # args) (nsectors, out) =
     (case skip_arg ulong_max arg of
        Some skipto \<Rightarrow>
          if nsectors > skipto then Inl (Cannot_Skip skipto nsectors, out)
          else write_args ulong_max files args (zero_sectors skipto nsectors out)
      | None \<Rightarrow>
          (case fopencheck files arg of
             Inl e \<Rightarrow> Inl (e, out)
           | Inr f \<Rightarrow> write_args ulong_max files args (append_file f nsectors out)))"

text \<open>The result is what was written to the standard output, with the error that stopped the program.\<close>

definition mkbootdisk ::
    "nat \<Rightarrow> (string \<Rightarrow> u8 list option) \<Rightarrow> string list \<Rightarrow> (mk_error \<times> u8 list) + u8 list" where
  "mkbootdisk ulong_max files argv =
     (if length argv < 2 then Inl (No_Boot_Sector, [])
      else (case res_bind (fopencheck files (argv ! 1)) (boot_sector (argv ! 1)) of
              Inl e \<Rightarrow> Inl (e, [])
            | Inr out \<Rightarrow>
                (case write_args ulong_max files (drop 2 argv) (1, out) of
                   Inl r \<Rightarrow> Inl r
                 | Inr (nsectors, out) \<Rightarrow> Inr (snd (zero_sectors 1024 nsectors out)))))"

section \<open>The layout of the image\<close>

text \<open>The same image without the counter and the buffers: every part is padded to whole sectors.\<close>

definition padded :: "u8 list \<Rightarrow> u8 list" where
  "padded f = f @ zeros ((length f + 511) div 512 * 512 - length f)"

definition extended :: "nat \<Rightarrow> u8 list \<Rightarrow> u8 list" where
  "extended n img = img @ zeros (512 * n - length img)"

fun layout ::
    "nat \<Rightarrow> (string \<Rightarrow> u8 list option) \<Rightarrow> string list \<Rightarrow> u8 list \<Rightarrow> (mk_error \<times> u8 list) + u8 list" where
  "layout ulong_max files [] img = Inr img"
| "layout ulong_max files (arg # args) img =
     (case skip_arg ulong_max arg of
        Some n \<Rightarrow> if length img div 512 > n then Inl (Cannot_Skip n (length img div 512), img)
                  else layout ulong_max files args (extended n img)
      | None \<Rightarrow> (case files arg of
                   None \<Rightarrow> Inl (Cannot_Open arg, img)
                 | Some f \<Rightarrow> layout ulong_max files args (img @ padded f)))"

lemma length_zeros [simp]: "length (zeros n) = n"
  by (simp add: zeros_def)

lemma zeros_0 [simp]: "zeros 0 = []"
  by (simp add: zeros_def)

lemma zeros_append: "zeros m @ zeros n = zeros (m + n)"
  by (simp add: zeros_def replicate_add)

lemma zeros_nth [simp]: "k < n \<Longrightarrow> zeros n ! k = 0"
  by (simp add: zeros_def)

lemma zero_sectors_eq:
  "zero_sectors limit n out = (max n limit, out @ zeros (512 * (limit - n)))"
proof (induction limit n out rule: zero_sectors.induct)
  case (1 limit n out)
  have "512 + 512 * (limit - Suc n) = 512 * (limit - n)" if "n < limit" using that by simp
  with 1 show ?case by (subst zero_sectors.simps) (auto simp: zeros_append)
qed

lemma copy_file_eq: "copy_file f pos out = (pos + length f, out @ f)"
proof (induction f pos out rule: copy_file.induct)
  case (1 f pos out)
  then show ?case
    by (subst copy_file.simps) (cases "f = []", auto simp: Let_def min_def not_le)
qed

lemma length_padded: "length (padded f) = (length f + 511) div 512 * 512"
proof -
  have "length f \<le> (length f + 511) div 512 * 512" by linarith
  then show ?thesis by (simp add: padded_def)
qed

lemma roundup_eq:
  assumes "(a + w) mod 512 = 0" and "w < (512 :: nat)"
  shows "(a + 511) div 512 * 512 = a + w"
proof -
  obtain k where k: "a + w = 512 * k" using assms(1) by (auto simp: mod_eq_0_iff_dvd elim: dvdE)
  then have "(a + 511) div 512 = k" using assms(2) by (intro div_nat_eqI) simp_all
  with k show ?thesis by simp
qed

lemma append_file_eq:
  "append_file f n out = (n + (length f + 511) div 512, out @ padded f)"
proof -
  define q r where "q = length f div 512" and "r = length f mod 512"
  have l: "length f = 512 * q + r" and r: "r < 512" by (simp_all add: q_def r_def)
  define w where "w = (if r = 0 then 0 else 512 - r)"
  have c: "(length f + 511) div 512 * 512 = length f + w"
  proof -
    have "length f + w = 512 * (if r = 0 then q else q + 1)" using l r by (simp add: w_def)
    moreover have "w < 512" by (simp add: w_def)
    ultimately show ?thesis by (intro roundup_eq) (simp_all only: mod_mult_self1_is_0)
  qed
  then have p: "padded f = f @ zeros w" by (simp only: padded_def add_diff_cancel_left')
  have d: "(length f + w) div 512 = (length f + 511) div 512"
    unfolding c [symmetric] by (rule nonzero_mult_div_cancel_right) simp
  show ?thesis
  proof (cases "r = 0")
    case True
    then have "w = 0" by (simp add: w_def)
    with True p d show ?thesis by (simp add: append_file_def copy_file_eq r_def [symmetric])
  next
    case False
    then have w: "w = 512 - r" by (simp add: w_def)
    show ?thesis
      using False d unfolding append_file_def copy_file_eq p w
      by (simp only: Let_def case_prod_conv add_0 r_def [symmetric] append_assoc if_True not_False_eq_True)
  qed
qed

lemma write_args_layout:
  assumes "length out = 512 * n"
  shows "write_args um files args (n, out) =
    (case layout um files args out of Inl r \<Rightarrow> Inl r | Inr img \<Rightarrow> Inr (length img div 512, img))"
  using assms
proof (induction args arbitrary: n out)
  case (Cons a args)
  have n: "length out div 512 = n" using Cons.prems by simp
  show ?case
  proof (cases "skip_arg um a")
    case None
    then show ?thesis
      using Cons.IH [of "out @ padded f" "n + (length f + 511) div 512" for f] Cons.prems
      by (auto simp: fopencheck_def append_file_eq length_padded split: option.split)
  next
    case (Some k)
    then show ?thesis
      using Cons.IH [of "out @ zeros (512 * (k - n))" k] Cons.prems n
      by (auto simp: zero_sectors_eq extended_def max_def diff_mult_distrib2 not_less)
  qed
qed simp

lemma layout_sectors:
  "layout um files args img = Inr img' \<Longrightarrow> 512 dvd length img \<Longrightarrow> 512 dvd length img' \<and> (\<exists>r. img' = img @ r)"
proof (induction args arbitrary: img)
  case (Cons a args)
  have pad: "512 dvd length (img @ padded f)" for f
    using Cons.prems(2) by (simp add: length_padded)
  have ext: "512 dvd length (extended n img)" for n
    using Cons.prems(2) by (simp add: extended_def)
  show ?case
    using Cons.prems(1) Cons.IH [OF _ pad] Cons.IH [OF _ ext]
    by (auto simp: extended_def split: option.splits if_splits) 
qed simp

section \<open>What the program makes\<close>

lemma boot_sector_eq:
  "boot_sector name f =
     (if length f > 510 then Inl (Boot_Block_Too_Large name (min 1000 (length f)))
      else Inr (f @ zeros (510 - length f) @ [0x55, 0xAA]))"
  by (auto simp: boot_sector_def Let_def min_def)

lemma mkbootdisk_eq:
  "mkbootdisk um files (prog # b # args) =
     (case files b of
        None \<Rightarrow> Inl (Cannot_Open b, [])
      | Some f \<Rightarrow>
          if length f > 510 then Inl (Boot_Block_Too_Large b (min 1000 (length f)), [])
          else (case layout um files args (f @ zeros (510 - length f) @ [0x55, 0xAA]) of
                  Inl r \<Rightarrow> Inl r
                | Inr img \<Rightarrow> Inr (extended 1024 img)))"
proof (cases "files b")
  case None
  then show ?thesis by (simp add: mkbootdisk_def fopencheck_def)
next
  case (Some f)
  show ?thesis
  proof (cases "length f > 510")
    case True
    with Some show ?thesis by (simp add: mkbootdisk_def fopencheck_def boot_sector_eq)
  next
    case False
    let ?s = "f @ zeros (510 - length f) @ [0x55, 0xAA]"
    have s: "length ?s = 512 * 1" using False by simp
    show ?thesis
    proof (cases "layout um files args ?s")
      case (Inl r)
      with Some False write_args_layout [OF s] show ?thesis
        by (simp add: mkbootdisk_def fopencheck_def boot_sector_eq)
    next
      case (Inr img)
      have "512 dvd length img" using layout_sectors [OF Inr] s by simp
      then have "512 * (1024 - length img div 512) = 512 * 1024 - length img"
        by (simp add: diff_mult_distrib2)
      with Inr Some False write_args_layout [OF s, of um files args] show ?thesis
        by (simp add: mkbootdisk_def fopencheck_def boot_sector_eq zero_sectors_eq extended_def)
    qed
  qed
qed

text \<open>C39: The image is the boot sector filled up with zeros to 510 bytes and closed by 0x55 0xAA, then each
  file padded to whole sectors and each \<^verbatim>\<open>@n\<close> filled with zeros up to sector n, then zeros up to sector
  1024. The errors are a missing argument or file, a boot block of more than 510 bytes and a sector
  to skip to that is already behind.\<close>

theorem mkbootdisk_layout:
  "mkbootdisk um files argv =
     (case argv of
        prog # b # args \<Rightarrow>
          (case files b of
             None \<Rightarrow> Inl (Cannot_Open b, [])
           | Some f \<Rightarrow>
               if length f > 510 then Inl (Boot_Block_Too_Large b (min 1000 (length f)), [])
               else (case layout um files args (f @ zeros (510 - length f) @ [0x55, 0xAA]) of
                       Inl r \<Rightarrow> Inl r
                     | Inr img \<Rightarrow> Inr (extended 1024 img)))
      | _ \<Rightarrow> Inl (No_Boot_Sector, []))"
proof (cases "length argv < 2")
  case True
  then show ?thesis by (auto simp: mkbootdisk_def numeral_2_eq_2 less_Suc_eq length_Suc_conv)
next
  case False
  then obtain prog b args where "argv = prog # b # args"
    by (metis One_nat_def Suc_1 length_Cons less_Suc_eq_0_disj list.exhaust list.size(3) not_less_eq zero_less_Suc)
  then show ?thesis by (simp only: mkbootdisk_eq list.case)
qed

section \<open>From the file to the running kernel\<close>

definition kernel_disk :: "u8 list \<Rightarrow> nat \<Rightarrow> u8" where
  "kernel_disk kern i = disk_of kern (i - 512)"

lemma disk_of_zeros: "disk_of (l @ zeros n) = disk_of l"
  by (rule ext) (simp add: disk_of_def nth_append)

lemma disk_of_append: "length s = n \<Longrightarrow> disk_of (s @ l) (n + j) = disk_of l j"
  by (simp add: disk_of_def nth_append)

lemma image_after_boot_sector:
  assumes "\<And>j. img (512 + j) = img' (512 + j)"
  shows "image_elf img = image_elf img'" and "image_phdrs img = image_phdrs img'"
    and "bootable img = bootable img'" and "seg_loaded img = seg_loaded img'"
proof -
  have m: "file_mem img = file_mem img'" by (rule ext) (simp add: file_mem_def assms)
  then show e: "image_elf img = image_elf img'" by (simp add: image_elf_def)
  show p: "image_phdrs img = image_phdrs img'" by (simp add: image_phdrs_def image_phdr_def e m)
  show "bootable img = bootable img'" by (simp add: bootable_def e p)
  show "seg_loaded img = seg_loaded img'" by (intro ext) (simp add: seg_loaded_def assms add.assoc)
qed

lemma makefile_skip: "10000 \<le> um \<Longrightarrow> skip_arg um ''@10000'' = Some 10000"
  by (simp add: isdigit_def strtoul_def is_digit_of_def digit_value_def)

lemma makefile_image:
  assumes files: "files b = Some boot" "files k = Some kern"
    and fits: "length boot \<le> 510" "length kern \<le> 9999 * 512"
    and names: "skip_arg um k = None" "10000 \<le> um"
  defines "img \<equiv> boot @ zeros (510 - length boot) @ [0x55, 0xAA] @ kern @ zeros (9999 * 512 - length kern)"
  shows "mkbootdisk um files [prog, b, k, ''@10000''] = Inr img"
    and "\<And>j. disk_of img (512 + j) = kernel_disk kern (512 + j)"
proof -
  have p: "length kern \<le> (length kern + 511) div 512 * 512" "(length kern + 511) div 512 \<le> 9999"
    using fits(2) by linarith+
  have "(length kern + 511) div 512 * 512 - length kern + (9999 * 512 - (length kern + 511) div 512 * 512) =
      9999 * 512 - length kern" using p by linarith
  then have z: "zeros ((length kern + 511) div 512 * 512 - length kern) @
      zeros (9999 * 512 - (length kern + 511) div 512 * 512) = zeros (9999 * 512 - length kern)"
    by (simp only: zeros_append)
  let ?s = "boot @ zeros (510 - length boot) @ [0x55, 0xAA]"
  have s: "length ?s = 512" using fits(1) by simp
  have e: "extended 10000 (?s @ padded kern) = img"
    using s z by (simp add: extended_def length_padded img_def) (simp add: padded_def)
  have l: "length img = 10000 * 512" using s fits(2) by (simp add: img_def)
  have "length (?s @ padded kern) div 512 \<le> 10000"
    using s p(2) by (simp add: length_padded)
  then have "layout um files [k, ''@10000''] ?s = Inr img"
    using makefile_skip [OF names(2)] e by (simp add: names(1) files(2) del: skip_arg.simps append_assoc)
  then show "mkbootdisk um files [prog, b, k, ''@10000''] = Inr img"
    using files(1) fits(1) l by (simp add: mkbootdisk_eq extended_def)
  show "disk_of img (512 + j) = kernel_disk kern (512 + j)" for j
    using disk_of_append [OF s, of "kern @ zeros (9999 * 512 - length kern)" j]
    by (simp add: img_def kernel_disk_def disk_of_zeros)
qed

text \<open>C11: The image that \<^verbatim>\<open>kern/Makefrag\<close> has \<^verbatim>\<open>mkbootdisk\<close> make of a boot block and a kernel has 10000 sectors and
  the signature in place, and from a disk that holds it the boot loader loads the kernel: it calls
  the kernel's entry point with the bytes of every segment taken from the kernel's file.\<close>

theorem kernel_image_boots:
  assumes "files b = Some boot" and "files k = Some kern"
    and "length boot \<le> 510" and "length kern \<le> 9999 * 512"
    and "skip_arg um k = None" and "10000 \<le> um"
    and "bootable (kernel_disk kern)"
  shows "\<exists>img. mkbootdisk um files [prog, b, k, ''@10000''] = Inr img \<and> length img = 10000 * 512 \<and>
    take (length boot) img = boot \<and> img ! 510 = 0x55 \<and> img ! 511 = 0xAA \<and>
    (\<forall>(io :: 'd disk_io) idle m d. serves_disk io (disk_of img) idle \<and> idle d \<longrightarrow>
       (\<exists>m' d'. bootmain io m d = Some (Some (e_entry (image_elf (kernel_disk kern)) AND 0xFFFFFF), m', d') \<and>
          (\<forall>p \<in> set (image_phdrs (kernel_disk kern)).
             \<forall>j < unat (p_memsz p). m' (of_nat (seg_at (p_va p) + j)) =
               (if j < unat (p_filesz p) then disk_of kern (unat (p_offset p) + j) else 0))))"
proof -
  let ?img = "boot @ zeros (510 - length boot) @ [0x55, 0xAA] @ kern @ zeros (9999 * 512 - length kern)"
  note i = makefile_image [OF assms(1-6)] 
    and same = image_after_boot_sector [of "disk_of ?img" "kernel_disk kern", OF makefile_image(2) [OF assms(1-6)]]
  have b: "bootable (disk_of ?img)" using assms(7) by (simp only: same)
  have boots: "\<exists>m' d'. bootmain io m d = Some (Some (e_entry (image_elf (kernel_disk kern)) AND 0xFFFFFF), m', d') \<and>
      (\<forall>p \<in> set (image_phdrs (kernel_disk kern)).
         \<forall>j < unat (p_memsz p). m' (of_nat (seg_at (p_va p) + j)) =
           (if j < unat (p_filesz p) then disk_of kern (unat (p_offset p) + j) else 0))"
    if h: "serves_disk io (disk_of ?img) idle" "idle d" for io :: "'d disk_io" and idle m d
  proof -
    obtain m' d' where r: "bootmain io m d = Some (Some (e_entry (image_elf (kernel_disk kern)) AND 0xFFFFFF), m', d')"
      "\<forall>p \<in> set (image_phdrs (kernel_disk kern)). phdr_loaded (kernel_disk kern) m' p"
      using bootmain_boots [OF h b, of m, unfolded same] by blast
    have "kernel_disk kern (512 + n) = disk_of kern n" for n by (simp add: kernel_disk_def)
    with r show ?thesis unfolding seg_loaded_def by (simp add: add.assoc)
  qed
  have "length ?img = 10000 * 512" "take (length boot) ?img = boot" "?img ! 510 = 0x55" "?img ! 511 = 0xAA"
    using assms(3,4) by (simp_all add: nth_append) (rule impI, linarith)
  then show ?thesis
    by (intro exI [of _ ?img] conjI i(1) allI impI) (assumption | elim conjE, rule boots)+
qed

definition demo_files :: "string \<Rightarrow> u8 list option" where
  "demo_files = [''obj/boot/boot'' \<mapsto> [0xFA, 0xFC], ''obj/kernel'' \<mapsto> demo_kernel]"

lemma kernel_image_boots_witness:
  "\<exists>img. mkbootdisk 0xFFFFFFFF demo_files [''mkbootdisk'', ''obj/boot/boot'', ''obj/kernel'', ''@10000''] = Inr img \<and>
     (\<exists>m' d'. bootmain (ide_disk (disk_of img)) (\<lambda>_. 0xCC) (\<lambda>_. 0, 0) = Some (Some 0x10000C, m', d'))"
proof -
  have same: "demo_disk (512 + j) = kernel_disk demo_kernel (512 + j)" for j
    by (simp add: kernel_disk_def disk_of_append)
  have boot: "bootable (kernel_disk demo_kernel)" and e: "e_entry (image_elf (kernel_disk demo_kernel)) = 0xF010000C"
    using demo_bootable demo_elf(4) unfolding image_after_boot_sector [of demo_disk "kernel_disk demo_kernel", OF same] .
  have files: "demo_files ''obj/boot/boot'' = Some [0xFA, 0xFC]" "demo_files ''obj/kernel'' = Some demo_kernel"
    by (simp_all add: demo_files_def)
  have fits: "length [0xFA, 0xFC :: u8] \<le> 510" "length demo_kernel \<le> 9999 * 512"
    "skip_arg 0xFFFFFFFF ''obj/kernel'' = None" "(10000 :: nat) \<le> 0xFFFFFFFF"
    by (simp_all, simp add: demo_kernel_def)
  obtain img where
    img: "mkbootdisk 0xFFFFFFFF demo_files [''mkbootdisk'', ''obj/boot/boot'', ''obj/kernel'', ''@10000''] = Inr img"
    and run: "\<forall>(io :: ((u32 \<Rightarrow> u8) \<times> nat) disk_io) idle m d. serves_disk io (disk_of img) idle \<and> idle d \<longrightarrow>
      (\<exists>m' d'. bootmain io m d = Some (Some (e_entry (image_elf (kernel_disk demo_kernel)) AND 0xFFFFFF), m', d') \<and>
         (\<forall>p \<in> set (image_phdrs (kernel_disk demo_kernel)).
            \<forall>j < unat (p_memsz p). m' (of_nat (seg_at (p_va p) + j)) =
              (if j < unat (p_filesz p) then disk_of demo_kernel (unat (p_offset p) + j) else 0)))"
    using kernel_image_boots [where ?'d = "(u32 \<Rightarrow> u8) \<times> nat", OF files fits boot, of "''mkbootdisk''"]
    by (elim exE conjE) (rule that)
  from run ide_disk_serves have "\<exists>m' d'. bootmain (ide_disk (disk_of img)) (\<lambda>_. 0xCC) (\<lambda>_. 0, 0) =
      Some (Some (e_entry (image_elf (kernel_disk demo_kernel)) AND 0xFFFFFF), m', d')" by blast
  with img show ?thesis unfolding e by auto
qed

end
