(* ===== verification/X86_Cpu.thy ===== *)
theory X86_Cpu
  imports Byte_Mem
begin

text \<open>
  The processor as the assembly code of the repository uses it: 32-bit registers, byte memory,
  and the instructions of \<^verbatim>\<open>hvm/asm_vmop.S\<close> and \<^verbatim>\<open>kern/trapentry.S\<close> in their operand forms (source
  first, as in the files). Addresses are those of the code's flat segments. What an arithmetic
  instruction leaves in the flags is a function \<open>fl\<close> that nothing is assumed of, and a push of a
  segment register writes two of its four bytes, as current processors do.
\<close>

section \<open>Registers\<close>

datatype gpr = EAX | ECX | EDX | EBX | ESP | EBP | ESI | EDI
datatype sreg = ES | CS | SS | DS | FS | GS
datatype creg = CR0 | CR2 | CR3 | CR4

record cpu =
  c_reg :: "gpr \<Rightarrow> u32"
  c_seg :: "sreg \<Rightarrow> u16"
  c_ctl :: "creg \<Rightarrow> u32"
  c_eip :: u32
  c_flags :: u32
  c_vmcs :: "u32 \<Rightarrow> u32"
  c_ram :: bytes

abbreviation reg :: "gpr \<Rightarrow> cpu \<Rightarrow> u32" where
  "reg r c \<equiv> c_reg c r"

definition set_reg :: "gpr \<Rightarrow> u32 \<Rightarrow> cpu \<Rightarrow> cpu" where
  "set_reg r v c = c\<lparr>c_reg := (c_reg c)(r := v)\<rparr>"

definition set_ram :: "bytes \<Rightarrow> cpu \<Rightarrow> cpu" where
  "set_ram m c = c\<lparr>c_ram := m\<rparr>"

section \<open>Instructions\<close>

datatype operand = Imm u32 | Reg gpr | Mem gpr u32 | Seg sreg | Ctl creg

datatype instr =
  Push operand | Pop operand | Mov operand operand | Xchg operand gpr | Xor gpr gpr | Dec gpr
| Addl u32 gpr | Pushal | Popal | Vmwrite gpr gpr | Ret | Iret

fun operand_value :: "operand \<Rightarrow> cpu \<Rightarrow> u32" where
  "operand_value (Imm v) c = v"
| "operand_value (Reg r) c = reg r c"
| "operand_value (Mem r d) c = load32 (c_ram c) (reg r c + d)"
| "operand_value (Seg s) c = ucast (c_seg c s)"
| "operand_value (Ctl k) c = c_ctl c k"

fun operand_set :: "operand \<Rightarrow> u32 \<Rightarrow> cpu \<Rightarrow> cpu" where
  "operand_set (Imm i) v c = c"
| "operand_set (Reg r) v c = set_reg r v c"
| "operand_set (Mem r d) v c = set_ram (store32 (reg r c + d) v (c_ram c)) c"
| "operand_set (Seg s) v c = c\<lparr>c_seg := (c_seg c)(s := ucast v)\<rparr>"
| "operand_set (Ctl k) v c = c\<lparr>c_ctl := (c_ctl c)(k := v)\<rparr>"

definition push32 :: "u32 \<Rightarrow> cpu \<Rightarrow> cpu" where
  "push32 v c = set_ram (store32 (reg ESP c - 4) v (c_ram c)) (set_reg ESP (reg ESP c - 4) c)"

definition push16 :: "u16 \<Rightarrow> cpu \<Rightarrow> cpu" where
  "push16 v c = set_ram (store16 (reg ESP c - 4) v (c_ram c)) (set_reg ESP (reg ESP c - 4) c)"

definition top32 :: "cpu \<Rightarrow> u32" where
  "top32 c = load32 (c_ram c) (reg ESP c)"

definition drop32 :: "cpu \<Rightarrow> cpu" where
  "drop32 c = set_reg ESP (reg ESP c + 4) c"

text \<open>\<^verbatim>\<open>iret\<close> to a less privileged code segment also takes the stack from the frame.\<close>

definition iret :: "cpu \<Rightarrow> cpu" where
  "iret c =
     (let ip = top32 c; c = drop32 c; cs = top32 c; c = drop32 c; f = top32 c; c = drop32 c;
          outer = ((ucast cs :: u16) AND 3 \<noteq> c_seg c CS AND 3);
          c = c\<lparr>c_eip := ip, c_flags := f, c_seg := (c_seg c)(CS := ucast cs)\<rparr>
      in if outer then
           (let sp = top32 c; c = drop32 c; ss = top32 c
            in (set_reg ESP sp c)\<lparr>c_seg := (c_seg c)(SS := ucast ss)\<rparr>)
         else c)"

fun exec1 :: "(instr \<Rightarrow> cpu \<Rightarrow> u32) \<Rightarrow> instr \<Rightarrow> cpu \<Rightarrow> cpu" where
  "exec1 fl (Push x) c =
     (case x of Seg s \<Rightarrow> push16 (c_seg c s) c | _ \<Rightarrow> push32 (operand_value x c) c)"
| "exec1 fl (Pop x) c = operand_set x (top32 c) (drop32 c)"
| "exec1 fl (Mov x y) c = operand_set y (operand_value x c) c"
| "exec1 fl (Xchg x r) c = set_reg r (operand_value x c) (operand_set x (reg r c) c)"
| "exec1 fl (Xor r q) c = (set_reg q (reg q c XOR reg r c) c)\<lparr>c_flags := fl (Xor r q) c\<rparr>"
| "exec1 fl (Dec r) c = (set_reg r (reg r c - 1) c)\<lparr>c_flags := fl (Dec r) c\<rparr>"
| "exec1 fl (Addl v r) c = (set_reg r (reg r c + v) c)\<lparr>c_flags := fl (Addl v r) c\<rparr>"
| "exec1 fl Pushal c =
     fold push32 [reg EAX c, reg ECX c, reg EDX c, reg EBX c, reg ESP c, reg EBP c, reg ESI c, reg EDI c] c"
| "exec1 fl Popal c =
     (let c = fold (\<lambda>r c. set_reg r (top32 c) (drop32 c)) [EDI, ESI, EBP] c;
          c = drop32 c
      in fold (\<lambda>r c. set_reg r (top32 c) (drop32 c)) [EBX, EDX, ECX, EAX] c)"
| "exec1 fl (Vmwrite v i) c = c\<lparr>c_vmcs := (c_vmcs c)(reg i c := reg v c)\<rparr>"
| "exec1 fl Ret c = (drop32 c)\<lparr>c_eip := top32 c\<rparr>"
| "exec1 fl Iret c = iret c"

definition exec :: "(instr \<Rightarrow> cpu \<Rightarrow> u32) \<Rightarrow> instr list \<Rightarrow> cpu \<Rightarrow> cpu" where
  "exec fl is c = fold (exec1 fl) is c"

lemma exec_simps [simp]:
  "exec fl [] c = c"
  "exec fl (i # is) c = exec fl is (exec1 fl i c)"
  by (simp_all add: exec_def)

lemma exec_append [simp]: "exec fl (is @ js) c = exec fl js (exec fl is c)"
  by (simp add: exec_def)

lemmas cpu_defs = set_reg_def set_ram_def push32_def push16_def top32_def drop32_def

end
