(* ===== verification/X86_Insn.thy ===== *)
theory X86_Insn
  imports X86_Cpu Boot_Loader Vt_Init Segments
begin

text \<open>
  The instruction wrappers of \<^verbatim>\<open>inc/x86.h\<close> and \<^verbatim>\<open>inc/hvm/asm.h\<close>, each the effect of its instruction on
  the registers: the control, segment and descriptor-table registers, the flags, the string
  instructions on ports, and \<^verbatim>\<open>cpuid\<close>. A segment register has its hidden part, which a load takes from
  the selector in real mode and from the descriptor table in protected mode. Memory is addressed
  linearly. Faults (a selector without a descriptor, a reserved bit) are not modelled, and neither is
  the accessed bit that a load sets in the descriptor.
\<close>

section \<open>System registers\<close>

text \<open>\<^verbatim>\<open>struct descreg\<close>, the operand of \<^verbatim>\<open>lgdt\<close> and \<^verbatim>\<open>sgdt\<close>: its limit has 16 bits.\<close>

record descreg =
  dr_limit :: u16
  dr_base :: u32

text \<open>The hidden part of a segment register.\<close>

record seg_hidden =
  h_base :: u32
  h_limit :: u32
  h_type :: u32

record sys_cpu = cpu +
  s_hidden :: "sreg \<Rightarrow> seg_hidden"
  s_gdtr :: descreg
  s_idtr :: descreg
  s_ldtr :: u16
  s_ldt :: seg_hidden
  s_tr :: u16
  s_dr7 :: u32
  s_tsc :: u64
  s_tlb :: "u32 option list"

text \<open>The log \<open>s_tlb\<close> has the addresses of \<^verbatim>\<open>invlpg\<close>, newest first, and \<open>None\<close> for a load of cr3.\<close>

definition rd_ctl :: "creg \<Rightarrow> sys_cpu \<Rightarrow> u32" where
  "rd_ctl k c = c_ctl c k"

definition wr_ctl :: "creg \<Rightarrow> u32 \<Rightarrow> sys_cpu \<Rightarrow> sys_cpu" where
  "wr_ctl k v c = c\<lparr>c_ctl := (c_ctl c)(k := v), s_tlb := (if k = CR3 then None # s_tlb c else s_tlb c)\<rparr>"

definition rd_seg :: "sreg \<Rightarrow> sys_cpu \<Rightarrow> u16" where
  "rd_seg x c = c_seg c x"

definition hidden_of :: "segdesc \<Rightarrow> seg_hidden" where
  "hidden_of d = \<lparr>h_base = SEGDESC_BASE d, h_limit = seg_limit d, h_type = seg_type d\<rparr>"

text \<open>The hidden part for a selector: of a null selector nothing, otherwise the descriptor of the local
  or the global table in memory.\<close>

definition desc_hidden :: "u16 \<Rightarrow> sys_cpu \<Rightarrow> seg_hidden" where
  "desc_hidden v c =
     (if v AND 0xFFFC = 0 then \<lparr>h_base = 0, h_limit = 0, h_type = 0\<rparr>
      else
        let a = (if v AND 4 \<noteq> 0 then h_base (s_ldt c) else dr_base (s_gdtr c)) + ucast (v AND 0xFFF8)
        in hidden_of (segdesc_of (load32 (c_ram c) a) (load32 (c_ram c) (a + 4))))"

definition protected :: "sys_cpu \<Rightarrow> bool" where
  "protected c \<longleftrightarrow> c_ctl c CR0 AND 1 \<noteq> 0"

definition wr_seg :: "sreg \<Rightarrow> u16 \<Rightarrow> sys_cpu \<Rightarrow> sys_cpu" where
  "wr_seg x v c =
     c\<lparr>c_seg := (c_seg c)(x := v),
       s_hidden := (s_hidden c)(x :=
         if protected c then desc_hidden v c else (s_hidden c x)\<lparr>h_base := push_bit 4 (ucast v)\<rparr>)\<rparr>"

definition base_of :: "sreg \<Rightarrow> sys_cpu \<Rightarrow> u32" where
  "base_of x c = h_base (s_hidden c x)"

definition push_word :: "u32 \<Rightarrow> sys_cpu \<Rightarrow> sys_cpu" where
  "push_word v c =
     c\<lparr>c_reg := (c_reg c)(ESP := c_reg c ESP - 4), c_ram := store32 (base_of SS c + (c_reg c ESP - 4)) v (c_ram c)\<rparr>"

section \<open>\<^verbatim>\<open>inc/x86.h\<close>\<close>

definition invlpg :: "u32 \<Rightarrow> sys_cpu \<Rightarrow> sys_cpu" where
  "invlpg addr c = c\<lparr>s_tlb := Some addr # s_tlb c\<rparr>"

definition descreg_at :: "bytes \<Rightarrow> u32 \<Rightarrow> descreg" where
  "descreg_at m p = \<lparr>dr_limit = load16 m p, dr_base = load32 m (p + 2)\<rparr>"

definition lidt :: "u32 \<Rightarrow> sys_cpu \<Rightarrow> sys_cpu" where
  "lidt p c = c\<lparr>s_idtr := descreg_at (c_ram c) (base_of DS c + p)\<rparr>"

definition lldt :: "u16 \<Rightarrow> sys_cpu \<Rightarrow> sys_cpu" where "lldt x c = c\<lparr>s_ldtr := x, s_ldt := desc_hidden x c\<rparr>"
definition ltr :: "u16 \<Rightarrow> sys_cpu \<Rightarrow> sys_cpu" where "ltr x c = c\<lparr>s_tr := x\<rparr>"
definition lcr0 :: "u32 \<Rightarrow> sys_cpu \<Rightarrow> sys_cpu" where "lcr0 v = wr_ctl CR0 v"
definition rcr0 :: "sys_cpu \<Rightarrow> u32" where "rcr0 = rd_ctl CR0"
definition rcr2 :: "sys_cpu \<Rightarrow> u32" where "rcr2 = rd_ctl CR2"
definition lcr3 :: "u32 \<Rightarrow> sys_cpu \<Rightarrow> sys_cpu" where "lcr3 v = wr_ctl CR3 v"
definition rcr3 :: "sys_cpu \<Rightarrow> u32" where "rcr3 = rd_ctl CR3"
definition lcr4 :: "u32 \<Rightarrow> sys_cpu \<Rightarrow> sys_cpu" where "lcr4 v = wr_ctl CR4 v"
definition rcr4 :: "sys_cpu \<Rightarrow> u32" where "rcr4 = rd_ctl CR4"
definition tlbflush :: "sys_cpu \<Rightarrow> sys_cpu" where "tlbflush c = lcr3 (rcr3 c) c"

text \<open>The flags go over the stack, so the word below it changes; the pop gives the stack back.\<close>

definition read_eflags :: "sys_cpu \<Rightarrow> u32 \<times> sys_cpu" where
  "read_eflags c = (c_flags c, (push_word (c_flags c) c)\<lparr>c_reg := c_reg c\<rparr>)"

definition read_ebp :: "sys_cpu \<Rightarrow> u32" where "read_ebp c = c_reg c EBP"
definition read_esp :: "sys_cpu \<Rightarrow> u32" where "read_esp c = c_reg c ESP"
definition read_tsc :: "sys_cpu \<Rightarrow> u64" where "read_tsc c = s_tsc c"

text \<open>\<^verbatim>\<open>cpuid\<close> stores an answer only through a pointer that is not null.\<close>

definition store_unless_null :: "u32 \<Rightarrow> u32 \<Rightarrow> bytes \<Rightarrow> bytes" where
  "store_unless_null p v m = (if p \<noteq> 0 then store32 p v m else m)"

definition cpuid :: "(u32 \<Rightarrow> u32 \<times> u32 \<times> u32 \<times> u32) \<Rightarrow> u32 \<Rightarrow> u32 \<Rightarrow> u32 \<Rightarrow> u32 \<Rightarrow> u32 \<Rightarrow> bytes \<Rightarrow> bytes" where
  "cpuid insn info eaxp ebxp ecxp edxp m =
     (let (eax, ebx, ecx, edx) = insn info;
          m = store_unless_null eaxp eax m;
          m = store_unless_null ebxp ebx m;
          m = store_unless_null ecxp ecx m
      in store_unless_null edxp edx m)"

section \<open>Strings of port accesses\<close>

record 'd port_io = "'d disk_io" +
  in_word :: "u32 \<Rightarrow> 'd \<Rightarrow> u16 \<times> 'd"
  out_long :: "u32 \<Rightarrow> u32 \<Rightarrow> 'd \<Rightarrow> 'd"

fun insb :: "'d port_io \<Rightarrow> u32 \<Rightarrow> u32 \<Rightarrow> nat \<Rightarrow> bytes \<Rightarrow> 'd \<Rightarrow> bytes \<times> 'd" where
  "insb io port addr 0 m d = (m, d)"
| "insb io port addr (Suc cnt) m d =
     (let (b, d) = inb io port d in insb io port (addr + 1) cnt (m(addr := b)) d)"

fun insw :: "'d port_io \<Rightarrow> u32 \<Rightarrow> u32 \<Rightarrow> nat \<Rightarrow> bytes \<Rightarrow> 'd \<Rightarrow> bytes \<times> 'd" where
  "insw io port addr 0 m d = (m, d)"
| "insw io port addr (Suc cnt) m d =
     (let (w, d) = in_word io port d in insw io port (addr + 2) cnt (store16 addr w m) d)"

fun outsb :: "'d port_io \<Rightarrow> u32 \<Rightarrow> u32 \<Rightarrow> nat \<Rightarrow> bytes \<Rightarrow> 'd \<Rightarrow> 'd" where
  "outsb io port addr 0 m d = d"
| "outsb io port addr (Suc cnt) m d = outsb io port (addr + 1) cnt m (outb io port (m addr) d)"

fun outsw :: "'d port_io \<Rightarrow> u32 \<Rightarrow> u32 \<Rightarrow> nat \<Rightarrow> bytes \<Rightarrow> 'd \<Rightarrow> 'd" where
  "outsw io port addr 0 m d = d"
| "outsw io port addr (Suc cnt) m d =
     outsw io port (addr + 2) cnt m (out_word io port (load16 m addr) d)"

fun outsl :: "'d port_io \<Rightarrow> u32 \<Rightarrow> u32 \<Rightarrow> nat \<Rightarrow> bytes \<Rightarrow> 'd \<Rightarrow> 'd" where
  "outsl io port addr 0 m d = d"
| "outsl io port addr (Suc cnt) m d =
     outsl io port (addr + 4) cnt m (out_long io port (load32 m addr) d)"

section \<open>\<^verbatim>\<open>inc/hvm/asm.h\<close>\<close>

definition asm_wrmsr :: "u32 \<Rightarrow> u32 \<Rightarrow> hv \<Rightarrow> hv" where
  "asm_wrmsr num val s = asm_wrmsr32 num val 0 s"

definition asm_rdcr0 :: "sys_cpu \<Rightarrow> u32" where "asm_rdcr0 = rd_ctl CR0"
definition asm_wrcr0 :: "u32 \<Rightarrow> sys_cpu \<Rightarrow> sys_cpu" where "asm_wrcr0 = wr_ctl CR0"
definition asm_rdcr2 :: "sys_cpu \<Rightarrow> u32" where "asm_rdcr2 = rd_ctl CR2"
definition asm_wrcr2 :: "u32 \<Rightarrow> sys_cpu \<Rightarrow> sys_cpu" where "asm_wrcr2 = wr_ctl CR2"
definition asm_rdcr3 :: "sys_cpu \<Rightarrow> u32" where "asm_rdcr3 = rd_ctl CR3"
definition asm_wrcr3 :: "u32 \<Rightarrow> sys_cpu \<Rightarrow> sys_cpu" where "asm_wrcr3 = wr_ctl CR3"
definition asm_rdcr4 :: "sys_cpu \<Rightarrow> u32" where "asm_rdcr4 = rd_ctl CR4"
definition asm_wrcr4 :: "u32 \<Rightarrow> sys_cpu \<Rightarrow> sys_cpu" where "asm_wrcr4 = wr_ctl CR4"

definition asm_rdes :: "sys_cpu \<Rightarrow> u16" where "asm_rdes = rd_seg ES"
definition asm_rdcs :: "sys_cpu \<Rightarrow> u16" where "asm_rdcs = rd_seg CS"
definition asm_rdss :: "sys_cpu \<Rightarrow> u16" where "asm_rdss = rd_seg SS"
definition asm_rdds :: "sys_cpu \<Rightarrow> u16" where "asm_rdds = rd_seg DS"
definition asm_rdfs :: "sys_cpu \<Rightarrow> u16" where "asm_rdfs = rd_seg FS"
definition asm_rdgs :: "sys_cpu \<Rightarrow> u16" where "asm_rdgs = rd_seg GS"
definition asm_wres :: "u16 \<Rightarrow> sys_cpu \<Rightarrow> sys_cpu" where "asm_wres = wr_seg ES"
definition asm_wrss :: "u16 \<Rightarrow> sys_cpu \<Rightarrow> sys_cpu" where "asm_wrss = wr_seg SS"
definition asm_wrds :: "u16 \<Rightarrow> sys_cpu \<Rightarrow> sys_cpu" where "asm_wrds = wr_seg DS"
definition asm_wrfs :: "u16 \<Rightarrow> sys_cpu \<Rightarrow> sys_cpu" where "asm_wrfs = wr_seg FS"
definition asm_wrgs :: "u16 \<Rightarrow> sys_cpu \<Rightarrow> sys_cpu" where "asm_wrgs = wr_seg GS"

text \<open>CS is loaded by a far return to the next instruction, over two words of the stack.\<close>

definition asm_wrcs :: "u32 \<Rightarrow> u16 \<Rightarrow> sys_cpu \<Rightarrow> sys_cpu" where
  "asm_wrcs lab cs c =
     (let c1 = push_word lab (push_word (ucast cs) c) in wr_seg CS cs (c1\<lparr>c_eip := lab, c_reg := c_reg c\<rparr>))"

definition asm_rdldtr :: "sys_cpu \<Rightarrow> u16" where "asm_rdldtr c = s_ldtr c"
definition asm_wrldtr :: "u16 \<Rightarrow> sys_cpu \<Rightarrow> sys_cpu" where "asm_wrldtr x c = c\<lparr>s_ldtr := x, s_ldt := desc_hidden x c\<rparr>"
definition asm_rdtr :: "sys_cpu \<Rightarrow> u16" where "asm_rdtr c = s_tr c"
definition asm_wrtr :: "u16 \<Rightarrow> sys_cpu \<Rightarrow> sys_cpu" where "asm_wrtr x c = c\<lparr>s_tr := x\<rparr>"

definition asm_rdgdtr :: "sys_cpu \<Rightarrow> u32 \<times> u32" where
  "asm_rdgdtr c = (dr_base (s_gdtr c), ucast (dr_limit (s_gdtr c)))"

definition asm_rdidtr :: "sys_cpu \<Rightarrow> u32 \<times> u32" where
  "asm_rdidtr c = (dr_base (s_idtr c), ucast (dr_limit (s_idtr c)))"

definition asm_wrgdtr :: "u32 \<Rightarrow> u32 \<Rightarrow> sys_cpu \<Rightarrow> sys_cpu" where
  "asm_wrgdtr gdtbase gdtlimit c = c\<lparr>s_gdtr := \<lparr>dr_limit = ucast gdtlimit, dr_base = gdtbase\<rparr>\<rparr>"

definition asm_wridtr :: "u32 \<Rightarrow> u32 \<Rightarrow> sys_cpu \<Rightarrow> sys_cpu" where
  "asm_wridtr idtbase idtlimit c = c\<lparr>s_idtr := \<lparr>dr_limit = ucast idtlimit, dr_base = idtbase\<rparr>\<rparr>"

definition asm_rddr7 :: "sys_cpu \<Rightarrow> u32" where "asm_rddr7 c = s_dr7 c"
definition asm_rdrflags :: "sys_cpu \<Rightarrow> u32 \<times> sys_cpu" where "asm_rdrflags c = read_eflags c"

text \<open>The processor as \<^verbatim>\<open>vt_get_current_regs_host\<close> sees it, through these wrappers.\<close>

definition host_cpu_of :: "(u32 \<Rightarrow> u32) \<Rightarrow> (u32 \<Rightarrow> u32) \<Rightarrow> sys_cpu \<Rightarrow> host_cpu" where
  "host_cpu_of lsl lar c =
     \<lparr>rd_es = asm_rdes c, rd_cs = asm_rdcs c, rd_ss = asm_rdss c, rd_ds = asm_rdds c, rd_fs = asm_rdfs c,
      rd_gs = asm_rdgs c, rd_ldtr = asm_rdldtr c, rd_tr = asm_rdtr c, rd_gdtr = asm_rdgdtr c,
      rd_idtr = asm_rdidtr c, rd_dr7 = asm_rddr7 c, rd_rflags = fst (asm_rdrflags c),
      do_lsl = lsl, do_lar = lar\<rparr>"

section \<open>What the wrappers do\<close>

lemmas wrapper_defs = rd_ctl_def wr_ctl_def rd_seg_def wr_seg_def
  asm_rdcr0_def asm_wrcr0_def asm_rdcr2_def asm_wrcr2_def asm_rdcr3_def asm_wrcr3_def asm_rdcr4_def asm_wrcr4_def
  asm_rdes_def asm_rdcs_def asm_rdss_def asm_rdds_def asm_rdfs_def asm_rdgs_def
  asm_wres_def asm_wrss_def asm_wrds_def asm_wrfs_def asm_wrgs_def asm_wrcs_def
  asm_rdldtr_def asm_wrldtr_def asm_rdtr_def asm_wrtr_def asm_rdgdtr_def asm_wrgdtr_def asm_rdidtr_def asm_wridtr_def

text \<open>\<^verbatim>\<open>tlbflush\<close> changes no register; it is a load of cr3 with its own value.\<close>

lemma tlbflush_eq: "tlbflush c = c\<lparr>s_tlb := None # s_tlb c\<rparr>"
  by (simp add: tlbflush_def lcr3_def rcr3_def wrapper_defs)

text \<open>\<^verbatim>\<open>asm_wrmsr\<close> clears the high half of the register.\<close>

lemma asm_wrmsr_clears: "asm_rdmsr64 num (asm_wrmsr num v s) = ucast v"
  by (simp add: asm_wrmsr_def asm_wrmsr32_def asm_rdmsr64_def)

section \<open>Answers of \<^verbatim>\<open>cpuid\<close>\<close>

lemma cpuid_stores:
  assumes "insn info = (a, b, c, d)" and "eaxp \<noteq> 0" "ebxp \<noteq> 0" "ecxp \<noteq> 0" "edxp \<noteq> 0"
    and "apart ebxp eaxp" "apart ecxp eaxp" "apart edxp eaxp" "apart ecxp ebxp" "apart edxp ebxp" "apart edxp ecxp"
  shows "map (load32 (cpuid insn info eaxp ebxp ecxp edxp m)) [eaxp, ebxp, ecxp, edxp] = [a, b, c, d]"
  using assms by (simp add: cpuid_def store_unless_null_def load32_store32_apart)

lemma cpuid_null: "cpuid insn info 0 0 0 0 m = m"
  by (simp add: cpuid_def store_unless_null_def split: prod.split)

section \<open>Strings\<close>

text \<open>The port gets the bytes, words or double words of the block one by one, in order.\<close>

lemma outsb_fold:
  "outsb io port a n m d = fold (\<lambda>i. outb io port (m (a + of_nat i))) [0..<n] d"
proof (induction n arbitrary: a d)
  case (Suc n)
  show ?case unfolding outsb.simps Suc upt_conv_Cons [OF zero_less_Suc] map_Suc_upt [symmetric]
    by (simp add: fold_map o_def algebra_simps)
qed simp

lemma outsw_fold:
  "outsw io port a n m d = fold (\<lambda>i. out_word io port (load16 m (a + of_nat (2 * i)))) [0..<n] d"
proof (induction n arbitrary: a d)
  case (Suc n)
  show ?case unfolding outsw.simps Suc upt_conv_Cons [OF zero_less_Suc] map_Suc_upt [symmetric]
    by (simp add: fold_map o_def algebra_simps)
qed simp

lemma outsl_fold:
  "outsl io port a n m d = fold (\<lambda>i. out_long io port (load32 m (a + of_nat (4 * i)))) [0..<n] d"
proof (induction n arbitrary: a d)
  case (Suc n)
  show ?case unfolding outsl.simps Suc upt_conv_Cons [OF zero_less_Suc] map_Suc_upt [symmetric]
    by (simp add: fold_map o_def algebra_simps)
qed simp

end
