(* ===== verification/Boot_Start.thy ===== *)
theory Boot_Start
  imports X86_Insn Segments
begin

text \<open>
  The assembly code that runs before C: \<^verbatim>\<open>boot/boot.S\<close>, from the BIOS in real mode to the call of
  \<^verbatim>\<open>bootmain\<close>, and \<^verbatim>\<open>kern/entry.S\<close>, from the boot loader to the call of \<^verbatim>\<open>i386_init\<close>. Memory is
  physical memory; the addresses of labels are arguments, and so are the flags at the call, of which
  nothing is assumed. In real mode a segment register has the paragraph number, and a table
  register is loaded with 24 bits of base. Every access goes through the segment the instruction uses,
  whose base is in its hidden part. The instructions themselves are not in memory.
\<close>

section \<open>Descriptor tables in assembly\<close>

definition SEG_asm :: "u32 \<Rightarrow> u32 \<Rightarrow> u32 \<Rightarrow> u8 list" where
  "SEG_asm ty b lim =
     [ucast (drop_bit 12 lim), ucast (drop_bit 20 lim), ucast b, ucast (drop_bit 8 b),
      ucast (drop_bit 16 b AND 0xff), ucast (0x90 OR ty), ucast (0xC0 OR (drop_bit 28 lim AND 0xf)),
      ucast (drop_bit 24 b AND 0xff)]"

definition SEG_NULL_asm :: "u8 list" where
  "SEG_NULL_asm = [0, 0, 0, 0, 0, 0, 0, 0]"

definition bytes_at :: "bytes \<Rightarrow> u32 \<Rightarrow> u8 list \<Rightarrow> bool" where
  "bytes_at m a bs \<longleftrightarrow> (\<forall>i < length bs. m (a + of_nat i) = bs ! i)"

definition boot_gdt :: "u8 list" where
  "boot_gdt = SEG_NULL_asm @ SEG_asm (STA_X OR STA_R) 0 0xffffffff @ SEG_asm STA_W 0 0xffffffff"

definition boot_gdtdesc :: "u32 \<Rightarrow> u8 list" where
  "boot_gdtdesc gdt_addr =
     [0x17, 0, ucast gdt_addr, ucast (drop_bit 8 gdt_addr), ucast (drop_bit 16 gdt_addr), ucast (drop_bit 24 gdt_addr)]"

section \<open>\<^verbatim>\<open>boot/boot.S\<close>\<close>

definition set_reg16 :: "gpr \<Rightarrow> u16 \<Rightarrow> sys_cpu \<Rightarrow> sys_cpu" where
  "set_reg16 r v c = c\<lparr>c_reg := (c_reg c)(r := (c_reg c r AND 0xFFFF0000) OR ucast v)\<rparr>"

definition wr_segs :: "sreg list \<Rightarrow> u16 \<Rightarrow> sys_cpu \<Rightarrow> sys_cpu" where
  "wr_segs xs v c = fold (\<lambda>x. wr_seg x v) xs c"

definition real_start :: "u16 \<Rightarrow> sys_cpu \<Rightarrow> sys_cpu" where
  "real_start start c = set_reg16 ESP start (wr_segs [DS, ES, SS] 0 (set_reg16 EAX 0 c))"

partial_function (option) wait_8042 :: "'d disk_io \<Rightarrow> 'd \<Rightarrow> 'd option" where
  "wait_8042 io d = (case inb io 0x64 d of (v, d) \<Rightarrow> if v AND 2 \<noteq> 0 then wait_8042 io d else Some d)"

definition seta20 :: "'d disk_io \<Rightarrow> 'd \<Rightarrow> 'd option" where
  "seta20 io d =
     (case wait_8042 io d of
        None \<Rightarrow> None
      | Some d \<Rightarrow>
          (case wait_8042 io (outb io 0x64 0xd1 d) of
             None \<Rightarrow> None
           | Some d \<Rightarrow> Some (outb io 0x60 0xdf d)))"

definition lgdt :: "u32 \<Rightarrow> sys_cpu \<Rightarrow> sys_cpu" where
  "lgdt p c = c\<lparr>s_gdtr := descreg_at (c_ram c) (base_of DS c + p)\<rparr>"

definition lgdt16 :: "u32 \<Rightarrow> sys_cpu \<Rightarrow> sys_cpu" where
  "lgdt16 p c =
     (let d = descreg_at (c_ram c) (base_of DS c + p) in c\<lparr>s_gdtr := d\<lparr>dr_base := dr_base d AND 0xFFFFFF\<rparr>\<rparr>)"

definition real_to_prot :: "u32 \<Rightarrow> sys_cpu \<Rightarrow> sys_cpu" where
  "real_to_prot gdtdesc c =
     (let c = lgdt16 gdtdesc c;
          c = c\<lparr>c_reg := (c_reg c)(EAX := rcr0 c OR 1)\<rparr>;
          c = wr_seg CS 8 (lcr0 (c_reg c EAX) c)
      in wr_segs [DS, ES, FS, GS, SS] 0x10 (set_reg16 EAX 0x10 c))"

definition call :: "u32 \<Rightarrow> u32 \<Rightarrow> sys_cpu \<Rightarrow> sys_cpu" where
  "call target ret c = (push_word ret c)\<lparr>c_eip := target\<rparr>"

definition boot_start ::
    "'d disk_io \<Rightarrow> u16 \<Rightarrow> u32 \<Rightarrow> u32 \<Rightarrow> u32 \<Rightarrow> u32 \<Rightarrow> sys_cpu \<Rightarrow> 'd \<Rightarrow> (sys_cpu \<times> 'd) option" where
  "boot_start io start gdtdesc main spin f c d =
     map_option (\<lambda>d. (call main spin (real_to_prot gdtdesc (real_start start c)\<lparr>c_flags := f\<rparr>), d)) (seta20 io d)"

text \<open>The boot sector as a whole: \<^verbatim>\<open>bootmain\<close> sees memory through its data segment. The result is the
  address it jumps to.\<close>

definition in_segment :: "u32 \<Rightarrow> bytes \<Rightarrow> bytes" where
  "in_segment b m = (\<lambda>x. m (b + x))"

definition boot_sector_run ::
    "'d disk_io \<Rightarrow> u16 \<Rightarrow> u32 \<Rightarrow> u32 \<Rightarrow> u32 \<Rightarrow> u32 \<Rightarrow> sys_cpu \<Rightarrow> 'd \<Rightarrow> (u32 option \<times> sys_cpu \<times> 'd) option" where
  "boot_sector_run io start gdtdesc main spin f c d =
     (case boot_start io start gdtdesc main spin f c d of
        None \<Rightarrow> None
      | Some (c, d) \<Rightarrow>
          map_option (\<lambda>(a, m, d). (a, c\<lparr>c_ram := in_segment (- base_of DS c) m\<rparr>, d))
            (bootmain io (in_segment (base_of DS c) (c_ram c)) d))"

section \<open>\<^verbatim>\<open>kern/entry.S\<close>\<close>

definition RELOC :: "u32 \<Rightarrow> u32" where
  "RELOC x = x - KERNBASE"

definition MULTIBOOT_HEADER_MAGIC :: u32 where "MULTIBOOT_HEADER_MAGIC = 0x1BADB002"
definition MULTIBOOT_HEADER_FLAGS :: u32 where "MULTIBOOT_HEADER_FLAGS = 2 OR 1"
definition CHECKSUM :: u32 where "CHECKSUM = - (MULTIBOOT_HEADER_MAGIC + MULTIBOOT_HEADER_FLAGS)"

definition kernel_gdt :: "u8 list" where
  "kernel_gdt = SEG_NULL_asm @ SEG_asm (STA_X OR STA_R) (- KERNBASE) 0xffffffff @ SEG_asm STA_W (- KERNBASE) 0xffffffff"

definition kernel_entry :: "u32 \<Rightarrow> u32 \<Rightarrow> u32 \<Rightarrow> u32 \<Rightarrow> sys_cpu \<Rightarrow> sys_cpu" where
  "kernel_entry mygdtdesc bootstacktop init spin c =
     (let c = c\<lparr>c_ram := store16 (base_of DS c + 0x472) 0x1234 (c_ram c)\<rparr>;
          c = lgdt (RELOC mygdtdesc) c;
          c = c\<lparr>c_reg := (c_reg c)(EAX := 0x10)\<rparr>;
          c = wr_seg CS 8 (wr_segs [DS, ES, SS] 0x10 c);
          c = c\<lparr>c_reg := (c_reg c)(EBP := 0, ESP := bootstacktop)\<rparr>
      in call init spin c)"

section \<open>What they set up\<close>

lemma bytes_at_nth: "bytes_at m a bs \<Longrightarrow> i < length bs \<Longrightarrow> m (a + of_nat i) = bs ! i"
  by (simp add: bytes_at_def)

lemma bytes_at_append:
  "bytes_at m a (xs @ ys) \<longleftrightarrow> bytes_at m a xs \<and> bytes_at m (a + of_nat (length xs)) ys"
proof -
  have "(\<forall>i < length (xs @ ys). P i) \<longleftrightarrow> (\<forall>i < length xs. P i) \<and> (\<forall>i < length ys. P (length xs + i))" for P
    by (auto) (metis add.commute le_add_diff_inverse2 less_diff_conv2 not_less)
  then show ?thesis by (simp add: bytes_at_def nth_append add.assoc)
qed

text \<open>The macros of the assembler and of C build the same descriptor.\<close>

lemma byte_bits:
  "bit (0x90 :: int) k \<longleftrightarrow> k = 4 \<or> k = 7" "bit (0xC0 :: int) k \<longleftrightarrow> k = 6 \<or> k = 7"
  "bit (0x1000 :: int) k \<longleftrightarrow> k = 12" "bit (0x8000 :: int) k \<longleftrightarrow> k = 15"
  "bit (0x400000 :: int) k \<longleftrightarrow> k = 22" "bit (0x800000 :: int) k \<longleftrightarrow> k = 23"
proof -
  have w: "(0x90 :: int) = push_bit 4 1 OR push_bit 7 1" "(0xC0 :: int) = push_bit 6 1 OR push_bit 7 1"
    "(0x1000 :: int) = push_bit 12 1" "(0x8000 :: int) = push_bit 15 1"
    "(0x400000 :: int) = push_bit 22 1" "(0x800000 :: int) = push_bit 23 1"
    by simp_all
  show "bit (0x90 :: int) k \<longleftrightarrow> k = 4 \<or> k = 7" "bit (0xC0 :: int) k \<longleftrightarrow> k = 6 \<or> k = 7"
    "bit (0x1000 :: int) k \<longleftrightarrow> k = 12" "bit (0x8000 :: int) k \<longleftrightarrow> k = 15"
    "bit (0x400000 :: int) k \<longleftrightarrow> k = 22" "bit (0x800000 :: int) k \<longleftrightarrow> k = 23"
    unfolding w by (auto simp only: bit_or_iff bit_push_bit_iff bit_1_iff possible_bit_def) auto
qed

lemma SEG_asm_words:
  assumes at: "bytes_at m a (SEG_asm ty b lim)" and ty: "unat ty < 16"
  shows "(load32 m a, load32 m (a + 4)) = segdesc_words (SEG ty b lim 0)"
proof -
  have m: "m a = ucast (drop_bit 12 lim)" "m (a + 1) = ucast (drop_bit 20 lim)" "m (a + 2) = ucast b"
    "m (a + 3) = ucast (drop_bit 8 b)" "m (a + 4) = ucast (drop_bit 16 b AND 0xff)"
    "m (a + 5) = ucast (0x90 OR ty)" "m (a + 6) = ucast (0xC0 OR (drop_bit 28 lim AND 0xf))"
    "m (a + 7) = ucast (drop_bit 24 b AND 0xff)"
    using bytes_at_nth [OF at, of 0] bytes_at_nth [OF at, of 1] bytes_at_nth [OF at, of 2] bytes_at_nth [OF at, of 3]
      bytes_at_nth [OF at, of 4] bytes_at_nth [OF at, of 5] bytes_at_nth [OF at, of 6] bytes_at_nth [OF at, of 7]
    by (simp_all add: SEG_asm_def)
  have lits: "(0xff :: u32) = mask 8" "(0xffff :: u32) = mask 16" "(0xf :: u32) = mask 4"
    by (simp_all add: mask_eq_exp_minus_1)
  have "ty = take_bit 4 ty" using ty by (simp add: word_unat_eq_iff unsigned_take_bit_eq take_bit_nat_eq_self)
  then have tb: "bit ty k \<Longrightarrow> k < 4" for k by (metis bit_take_bit_iff)
  have lo: "load32 m a = fst (segdesc_words (SEG ty b lim 0))"
  proof (rule bit_word_eqI)
    fix n assume "n < LENGTH(32)"
    then consider "n < 8" | "8 \<le> n" "n < 16" | "16 \<le> n" "n < 24" | "24 \<le> n" "n < 32" by force
    then show "bit (load32 m a) n = bit (fst (segdesc_words (SEG ty b lim 0))) n"
      by cases (auto simp: load32_def m segdesc_words_def SEG_def lits bit_simps)
  qed
  have hi: "load32 m (a + 4) = snd (segdesc_words (SEG ty b lim 0))"
  proof (rule bit_word_eqI)
    fix n assume "n < LENGTH(32)"
    then consider "n < 8" | "8 \<le> n" "n < 16" | "16 \<le> n" "n < 24" | "24 \<le> n" "n < 32" by force
    then show "bit (load32 m (a + 4)) n = bit (snd (segdesc_words (SEG ty b lim 0))) n"
    proof cases
      case 2
      then show ?thesis using tb
        by (auto simp: load32_def m segdesc_words_def SEG_def lits bit_simps byte_bits offset_last [of _ a])
    next
      case 3
      then show ?thesis using tb
        by (auto simp: load32_def m segdesc_words_def SEG_def lits bit_simps byte_bits offset_last [of _ a])
    qed (auto simp: load32_def m segdesc_words_def SEG_def lits bit_simps byte_bits offset_last [of _ a] dest: tb)
  qed
  show ?thesis using lo hi by simp
qed

lemma descreg_at_gdtdesc:
  assumes at: "bytes_at m p (boot_gdtdesc g)"
  shows "descreg_at m p = \<lparr>dr_limit = 0x17, dr_base = g\<rparr>"
proof -
  have m: "m p = 0x17" "m (p + 1) = 0" "m (p + 2) = ucast g" "m (p + 3) = ucast (drop_bit 8 g)"
    "m (p + 4) = ucast (drop_bit 16 g)" "m (p + 5) = ucast (drop_bit 24 g)"
    using bytes_at_nth [OF at, of 0] bytes_at_nth [OF at, of 1] bytes_at_nth [OF at, of 2] bytes_at_nth [OF at, of 3]
      bytes_at_nth [OF at, of 4] bytes_at_nth [OF at, of 5]
    by (simp_all add: boot_gdtdesc_def)
  have "load32 m (p + 2) = g"
  proof (rule bit_word_eqI)
    fix n assume "n < LENGTH(32)"
    then consider "n < 8" | "8 \<le> n" "n < 16" | "16 \<le> n" "n < 24" | "24 \<le> n" "n < 32" by force
    then show "bit (load32 m (p + 2)) n = bit g n"
      by cases (auto simp: load32_def m bit_simps offset_last [of _ p])
  qed
  then show ?thesis by (simp add: descreg_at_def load16_def m)
qed

section \<open>From the BIOS to the kernel\<close>

text \<open>The keyboard controller answers when its status, polled again and again, at last is not busy.\<close>

inductive takes_command :: "'d disk_io \<Rightarrow> 'd \<Rightarrow> 'd \<Rightarrow> bool" for io where
  free: "inb io 0x64 d = (v, d') \<Longrightarrow> v AND 2 = 0 \<Longrightarrow> takes_command io d d'"
| full: "inb io 0x64 d = (v, d1) \<Longrightarrow> v AND 2 \<noteq> 0 \<Longrightarrow> takes_command io d1 d' \<Longrightarrow> takes_command io d d'"

lemma wait_8042_free: "takes_command io d d' \<Longrightarrow> wait_8042 io d = Some d'"
  by (induction rule: takes_command.induct) (subst wait_8042.simps, simp)+

lemma seta20_enables:
  assumes "takes_command io d d1" and "takes_command io (outb io 0x64 0xd1 d1) d2"
  shows "seta20 io d = Some (outb io 0x60 0xdf d2)"
  using wait_8042_free [OF assms(1)] wait_8042_free [OF assms(2)] by (simp add: seta20_def)

lemma and_low16: "(w AND 0xFFFF0000) OR ucast (v :: u16) = ucast v" if "w AND 0xFFFF0000 = 0" for w :: u32
  using that by simp

lemmas start_defs = real_start_def real_to_prot_def lgdt16_def lgdt_def set_reg16_def wr_segs_def wr_seg_def
  lcr0_def rcr0_def wr_ctl_def rd_ctl_def

text \<open>The segments of both tables: all of memory from a base on, for code and for data.\<close>

definition code_seg :: "u32 \<Rightarrow> seg_hidden" where
  "code_seg b = \<lparr>h_base = b, h_limit = 0xffffffff, h_type = 0xA\<rparr>"

definition data_seg :: "u32 \<Rightarrow> seg_hidden" where
  "data_seg b = \<lparr>h_base = b, h_limit = 0xffffffff, h_type = 2\<rparr>"

lemma gdt_words:
  assumes "bytes_at m g (SEG_NULL_asm @ SEG_asm (STA_X OR STA_R) b 0xffffffff @ SEG_asm STA_W b 0xffffffff)"
  shows "(load32 m (g + 8), load32 m (g + 12)) = segdesc_words (SEG (STA_X OR STA_R) b 0xffffffff 0)"
    and "(load32 m (g + 16), load32 m (g + 20)) = segdesc_words (SEG STA_W b 0xffffffff 0)"
proof -
  have len: "length SEG_NULL_asm = 8" "length (SEG_asm ty b l) = 8" for ty b l
    by (simp_all add: SEG_NULL_asm_def SEG_asm_def)
  have "bytes_at m (g + 8) (SEG_asm (STA_X OR STA_R) b 0xffffffff)"
    "bytes_at m (g + 16) (SEG_asm STA_W b 0xffffffff)"
    using assms unfolding bytes_at_append by (simp_all add: len add.assoc)
  from SEG_asm_words [OF this(1)] SEG_asm_words [OF this(2)]
  show "(load32 m (g + 8), load32 m (g + 12)) = segdesc_words (SEG (STA_X OR STA_R) b 0xffffffff 0)"
    "(load32 m (g + 16), load32 m (g + 20)) = segdesc_words (SEG STA_W b 0xffffffff 0)"
    by (simp_all add: add.assoc)
qed

lemma hidden_SEG:
  assumes "(lo, hi) = segdesc_words (SEG ty b l dp)"
  shows "hidden_of (segdesc_of lo hi) = \<lparr>h_base = b, h_limit = l OR 0xfff, h_type = ucast (ucast ty :: 4 word)\<rparr>"
proof -
  have w: "lo = fst (segdesc_words (SEG ty b l dp))" "hi = snd (segdesc_words (SEG ty b l dp))"
    using assms by (simp_all add: prod_eq_iff)
  have "seg_type (segdesc_of lo hi) = ucast (ucast ty :: 4 word)" unfolding w segdesc_of_words by (simp add: SEG_def)
  then show ?thesis unfolding w hidden_of_def by (simp add: SEG_base SEG_limit)
qed

lemma gdt_hidden:
  assumes "bytes_at (c_ram c) (dr_base (s_gdtr c))
     (SEG_NULL_asm @ SEG_asm (STA_X OR STA_R) b 0xffffffff @ SEG_asm STA_W b 0xffffffff)"
  shows "desc_hidden 8 c = code_seg b" "desc_hidden 0x10 c = data_seg b"
  using hidden_SEG [OF gdt_words(1) [OF assms]] hidden_SEG [OF gdt_words(2) [OF assms]]
  by (simp_all add: desc_hidden_def code_seg_def data_seg_def add.assoc)

text \<open>The state in which \<^verbatim>\<open>boot.S\<close> calls \<^verbatim>\<open>bootmain\<close>.\<close>

lemma wr_seg_keeps:
  "protected (wr_seg x u c) = protected c" "desc_hidden v (wr_seg x u c) = desc_hidden v c"
  by (simp_all add: wr_seg_def protected_def desc_hidden_def)

lemma load_segs:
  assumes "protected c"
  shows "wr_segs xs v c = c\<lparr>c_seg := (\<lambda>x. if x \<in> set xs then v else c_seg c x),
    s_hidden := (\<lambda>x. if x \<in> set xs then desc_hidden v c else s_hidden c x)\<rparr>"
  using assms
proof (induction xs arbitrary: c)
  case (Cons x xs)
  then have "wr_segs (x # xs) v c = (wr_seg x v c)\<lparr>c_seg := (\<lambda>y. if y \<in> set xs then v else c_seg (wr_seg x v c) y),
      s_hidden := (\<lambda>y. if y \<in> set xs then desc_hidden v c else s_hidden (wr_seg x v c) y)\<rparr>"
    using Cons.IH [of "wr_seg x v c"] unfolding wr_segs_def wr_seg_keeps by simp
  then show ?case using Cons.prems by (simp add: wr_seg_def fun_eq_iff)
qed (simp add: wr_segs_def)

lemma or_1_and_1: "(w OR 1) AND 1 = 1" for w :: u32
  by (rule bit_word_eqI) (auto simp: bit_simps)

lemma real_to_prot_state:
  assumes at: "bytes_at (c_ram c) gdtdesc (boot_gdtdesc g)" "bytes_at (c_ram c) (g AND 0xFFFFFF) boot_gdt"
    and real: "base_of DS c = 0"
  shows "c_ctl (real_to_prot gdtdesc c) CR0 = c_ctl c CR0 OR 1"
    "s_gdtr (real_to_prot gdtdesc c) = \<lparr>dr_limit = 0x17, dr_base = g AND 0xFFFFFF\<rparr>"
    "c_reg (real_to_prot gdtdesc c) ESP = c_reg c ESP" "c_ram (real_to_prot gdtdesc c) = c_ram c"
    "map (c_seg (real_to_prot gdtdesc c)) [CS, DS, ES, FS, GS, SS] = [8, 0x10, 0x10, 0x10, 0x10, 0x10]"
    "map (s_hidden (real_to_prot gdtdesc c)) [CS, DS, ES, FS, GS, SS] = code_seg 0 # replicate 5 (data_seg 0)"
proof -
  define c1 where "c1 = (lgdt16 gdtdesc c)\<lparr>c_reg := (c_reg c)(EAX := c_ctl c CR0 OR 1), c_ctl := (c_ctl c)(CR0 := c_ctl c CR0 OR 1)\<rparr>"
  have gdtr: "s_gdtr c1 = \<lparr>dr_limit = 0x17, dr_base = g AND 0xFFFFFF\<rparr>" and ram: "c_ram c1 = c_ram c"
    by (simp_all add: c1_def lgdt16_def real descreg_at_gdtdesc [OF at(1)] Let_def)
  have "bytes_at (c_ram c1) (dr_base (s_gdtr c1)) boot_gdt" using at(2) by (simp add: gdtr ram)
  note sel = gdt_hidden [OF this [unfolded boot_gdt_def]]
  have p: "protected c1" by (simp add: protected_def c1_def or_1_and_1)
  define c2 where "c2 = set_reg16 EAX 0x10 (wr_seg CS 8 c1)"
  have c2: "protected c2" "desc_hidden 0x10 c2 = data_seg 0"
    using p sel by (simp_all add: c2_def set_reg16_def wr_seg_def protected_def desc_hidden_def)
  have run: "real_to_prot gdtdesc c = wr_segs [DS, ES, FS, GS, SS] 0x10 c2"
    by (simp add: real_to_prot_def c2_def c1_def lcr0_def rcr0_def wr_ctl_def rd_ctl_def Let_def lgdt16_def)
  show "c_ctl (real_to_prot gdtdesc c) CR0 = c_ctl c CR0 OR 1"
    "s_gdtr (real_to_prot gdtdesc c) = \<lparr>dr_limit = 0x17, dr_base = g AND 0xFFFFFF\<rparr>"
    "c_reg (real_to_prot gdtdesc c) ESP = c_reg c ESP" "c_ram (real_to_prot gdtdesc c) = c_ram c"
    "map (c_seg (real_to_prot gdtdesc c)) [CS, DS, ES, FS, GS, SS] = [8, 0x10, 0x10, 0x10, 0x10, 0x10]"
    "map (s_hidden (real_to_prot gdtdesc c)) [CS, DS, ES, FS, GS, SS] = code_seg 0 # replicate 5 (data_seg 0)"
    unfolding run load_segs [OF c2(1)] c2(2)
    using p sel gdtr ram
    by (simp_all add: c2_def set_reg16_def wr_seg_def numeral_eq_Suc) (simp_all add: c1_def lgdt16_def Let_def)
qed

lemma real_start_state:
  assumes "\<not> protected c" and "c_reg c ESP AND 0xFFFF0000 = 0"
  shows "c_reg (real_start start c) ESP = ucast start" "base_of DS (real_start start c) = 0"
    "c_ctl (real_start start c) = c_ctl c" "c_ram (real_start start c) = c_ram c"
  using assms by (simp_all add: real_start_def set_reg16_def wr_segs_def wr_seg_def base_of_def protected_def)

lemma boot_start_state:
  assumes "seta20 io d = Some d'" and at: "bytes_at (c_ram c) gdtdesc (boot_gdtdesc g)"
    and gdt: "bytes_at (c_ram c) (g AND 0xFFFFFF) boot_gdt"
    and real: "\<not> protected c" and sp: "c_reg c ESP AND 0xFFFF0000 = 0"
  shows "\<exists>c'. boot_start io start gdtdesc main spin f c d = Some (c', d') \<and> c_ctl c' CR0 = c_ctl c CR0 OR 1 \<and>
    map (c_seg c') [CS, DS, ES, FS, GS, SS] = [8, 0x10, 0x10, 0x10, 0x10, 0x10] \<and>
    map (s_hidden c') [CS, DS, ES, FS, GS, SS] = code_seg 0 # replicate 5 (data_seg 0) \<and>
    s_gdtr c' = \<lparr>dr_limit = 0x17, dr_base = g AND 0xFFFFFF\<rparr> \<and> c_reg c' ESP = ucast start - 4 \<and> c_eip c' = main \<and>
    c_ram c' = store32 (ucast start - 4) spin (c_ram c)"
proof -
  note r = real_start_state [OF real sp, of start]
  note p = real_to_prot_state [of "real_start start c" gdtdesc g, unfolded r, OF at gdt refl]
  have ss: "base_of SS (real_to_prot gdtdesc (real_start start c)) = 0"
    using p(6) by (simp add: base_of_def data_seg_def numeral_eq_Suc)
  show ?thesis
    unfolding boot_start_def assms(1) using p ss
    by (simp add: call_def push_word_def base_of_def)
qed

lemma kernel_entry_state:
  assumes at: "bytes_at (store16 0x472 0x1234 (c_ram c)) (RELOC mygdtdesc) (boot_gdtdesc g)"
    and gdt: "bytes_at (store16 0x472 0x1234 (c_ram c)) g kernel_gdt"
    and prot: "protected c" and flat: "base_of DS c = 0"
  shows "map (c_seg (kernel_entry mygdtdesc tos init spin c)) [CS, DS, ES, SS] = [8, 0x10, 0x10, 0x10]"
    "map (s_hidden (kernel_entry mygdtdesc tos init spin c)) [CS, DS, ES, SS] =
      code_seg (- KERNBASE) # replicate 3 (data_seg (- KERNBASE))"
    "s_gdtr (kernel_entry mygdtdesc tos init spin c) = \<lparr>dr_limit = 0x17, dr_base = g\<rparr>"
    "map (c_reg (kernel_entry mygdtdesc tos init spin c)) [EBP, ESP] = [0, tos - 4]"
    "c_eip (kernel_entry mygdtdesc tos init spin c) = init"
    "c_ram (kernel_entry mygdtdesc tos init spin c) = store32 (RELOC tos - 4) spin (store16 0x472 0x1234 (c_ram c))"
    "c_ctl (kernel_entry mygdtdesc tos init spin c) = c_ctl c"
    "map (c_seg (kernel_entry mygdtdesc tos init spin c)) [FS, GS] = map (c_seg c) [FS, GS]"
proof -
  define c1 where "c1 = (lgdt (RELOC mygdtdesc) (c\<lparr>c_ram := store16 0x472 0x1234 (c_ram c)\<rparr>))\<lparr>c_reg := (c_reg c)(EAX := 0x10)\<rparr>"
  have flat': "base_of DS (c\<lparr>c_ram := m\<rparr>) = 0" for m using flat by (simp add: base_of_def)
  have gdtr: "s_gdtr c1 = \<lparr>dr_limit = 0x17, dr_base = g\<rparr>"
    by (simp add: c1_def lgdt_def flat' descreg_at_gdtdesc [OF at])
  have ram: "c_ram c1 = store16 0x472 0x1234 (c_ram c)" by (simp add: c1_def lgdt_def)
  have "bytes_at (c_ram c1) (dr_base (s_gdtr c1)) kernel_gdt" using gdt by (simp add: gdtr ram)
  note sel = gdt_hidden [OF this [unfolded kernel_gdt_def]]
  have p: "protected c1" using prot by (simp add: protected_def c1_def lgdt_def)
  define c2 where "c2 = wr_seg CS 8 (wr_segs [DS, ES, SS] 0x10 c1)"
  have e: "kernel_entry mygdtdesc tos init spin c = call init spin (c2\<lparr>c_reg := (c_reg c2)(EBP := 0, ESP := tos)\<rparr>)"
    by (simp add: kernel_entry_def c2_def c1_def flat Let_def)  (simp add: lgdt_def)
  have c2: "c2 = c1\<lparr>c_seg := (c_seg c1)(DS := 0x10, ES := 0x10, SS := 0x10, CS := 8),
      s_hidden := (s_hidden c1)(DS := data_seg (- KERNBASE), ES := data_seg (- KERNBASE), SS := data_seg (- KERNBASE),
        CS := code_seg (- KERNBASE))\<rparr>"
  proof -
    have load: "wr_seg x v c' = c'\<lparr>c_seg := (c_seg c')(x := v), s_hidden := (s_hidden c')(x := desc_hidden v c')\<rparr>"
      if "protected c'" for x v c'
      using that by (simp add: wr_seg_def)
    have keeps: "protected (c'\<lparr>c_seg := a, s_hidden := h\<rparr>) = protected c'"
      "desc_hidden v (c'\<lparr>c_seg := a, s_hidden := h\<rparr>) = desc_hidden v c'" for c' a h v
      by (simp_all add: protected_def desc_hidden_def)
    show ?thesis unfolding c2_def wr_segs_def by (simp add: load keeps p sel)
  qed
  have same: "c_ctl c1 = c_ctl c" "c_seg c1 = c_seg c" by (simp_all add: c1_def lgdt_def)
  show "map (c_seg (kernel_entry mygdtdesc tos init spin c)) [CS, DS, ES, SS] = [8, 0x10, 0x10, 0x10]"
    "map (s_hidden (kernel_entry mygdtdesc tos init spin c)) [CS, DS, ES, SS] =
      code_seg (- KERNBASE) # replicate 3 (data_seg (- KERNBASE))"
    "s_gdtr (kernel_entry mygdtdesc tos init spin c) = \<lparr>dr_limit = 0x17, dr_base = g\<rparr>"
    "map (c_reg (kernel_entry mygdtdesc tos init spin c)) [EBP, ESP] = [0, tos - 4]"
    "c_eip (kernel_entry mygdtdesc tos init spin c) = init"
    "c_ram (kernel_entry mygdtdesc tos init spin c) = store32 (RELOC tos - 4) spin (store16 0x472 0x1234 (c_ram c))"
    "c_ctl (kernel_entry mygdtdesc tos init spin c) = c_ctl c"
    "map (c_seg (kernel_entry mygdtdesc tos init spin c)) [FS, GS] = map (c_seg c) [FS, GS]"
    unfolding e c2 by (simp_all add: call_def push_word_def base_of_def data_seg_def gdtr ram same RELOC_def
      numeral_eq_Suc algebra_simps)
qed

lemma multiboot_checksum: "MULTIBOOT_HEADER_MAGIC + MULTIBOOT_HEADER_FLAGS + CHECKSUM = 0"
  by (simp add: CHECKSUM_def)

lemma in_segment_0 [simp]: "in_segment 0 m = m"
  by (simp add: in_segment_def)

lemma boot_sector_runs:
  assumes "takes_command io d d1" and "takes_command io (outb io 0x64 0xd1 d1) d2" and "idle (outb io 0x60 0xdf d2)"
    and "serves_disk io img idle" and "bootable img" and "\<not> protected c" and "c_reg c ESP AND 0xFFFF0000 = 0"
    and "bytes_at (c_ram c) gdtdesc (boot_gdtdesc g)" and "bytes_at (c_ram c) (g AND 0xFFFFFF) boot_gdt"
  shows "\<exists>c' d'. boot_sector_run io start gdtdesc main spin f c d =
      Some (Some (e_entry (image_elf img) AND 0xFFFFFF), c', d') \<and> idle d' \<and>
    c_ctl c' CR0 = c_ctl c CR0 OR 1 \<and> map (c_seg c') [CS, DS, ES, FS, GS, SS] = [8, 0x10, 0x10, 0x10, 0x10, 0x10] \<and>
    map (s_hidden c') [CS, DS, ES, FS, GS, SS] = code_seg 0 # replicate 5 (data_seg 0) \<and>
    s_gdtr c' = \<lparr>dr_limit = 0x17, dr_base = g AND 0xFFFFFF\<rparr> \<and> c_reg c' ESP = ucast start - 4 \<and>
    (\<forall>p \<in> set (image_phdrs img). phdr_loaded img (c_ram c') p) \<and>
    (\<forall>x. (unat x < 0x10000 \<or> 0x11000 \<le> unat x) \<and>
       (\<forall>p \<in> set (image_phdrs img). unat x < phdr_low p \<or> phdr_high p \<le> unat x) \<longrightarrow>
       c_ram c' x = store32 (ucast start - 4) spin (c_ram c) x)"
proof -
  obtain c1 where s: "boot_start io start gdtdesc main spin f c d = Some (c1, outb io 0x60 0xdf d2)"
    "c_ctl c1 CR0 = c_ctl c CR0 OR 1" "map (c_seg c1) [CS, DS, ES, FS, GS, SS] = [8, 0x10, 0x10, 0x10, 0x10, 0x10]"
    "map (s_hidden c1) [CS, DS, ES, FS, GS, SS] = code_seg 0 # replicate 5 (data_seg 0)"
    "s_gdtr c1 = \<lparr>dr_limit = 0x17, dr_base = g AND 0xFFFFFF\<rparr>" "c_reg c1 ESP = ucast start - 4"
    "c_ram c1 = store32 (ucast start - 4) spin (c_ram c)"
    using boot_start_state [OF seta20_enables [OF assms(1,2)] assms(8,9,6,7), where start = start and main = main and spin = spin and f = f]
    by (elim exE conjE) (rule that; assumption)
  have ds: "base_of DS c1 = 0" using s(4) by (simp add: base_of_def data_seg_def numeral_eq_Suc)
  obtain m' d' where b: "bootmain io (c_ram c1) (outb io 0x60 0xdf d2) = Some (Some (e_entry (image_elf img) AND 0xFFFFFF), m', d')"
    "idle d'" "\<forall>p \<in> set (image_phdrs img). phdr_loaded img m' p"
    "\<forall>x. (unat x < 0x10000 \<or> 0x11000 \<le> unat x) \<and>
       (\<forall>p \<in> set (image_phdrs img). unat x < phdr_low p \<or> phdr_high p \<le> unat x) \<longrightarrow> m' x = c_ram c1 x"
    using bootmain_boots [OF assms(4,3,5), where m = "c_ram c1"] by (elim exE conjE) (rule that; assumption)
  have run: "boot_sector_run io start gdtdesc main spin f c d =
      Some (Some (e_entry (image_elf img) AND 0xFFFFFF), c1\<lparr>c_ram := m'\<rparr>, d')"
    unfolding boot_sector_run_def s(1) by (simp add: b(1) ds)
  have ram: "c_ram (c1\<lparr>c_ram := m'\<rparr>) = m'" by simp
  show ?thesis
  proof (intro exI conjI)
    show "boot_sector_run io start gdtdesc main spin f c d =
      Some (Some (e_entry (image_elf img) AND 0xFFFFFF), c1\<lparr>c_ram := m'\<rparr>, d')" by (rule run)
    show "idle d'" by (rule b(2))
    show "\<forall>p \<in> set (image_phdrs img). phdr_loaded img (c_ram (c1\<lparr>c_ram := m'\<rparr>)) p"
      unfolding ram by (rule b(3))
    show "\<forall>x. (unat x < 0x10000 \<or> 0x11000 \<le> unat x) \<and>
       (\<forall>p \<in> set (image_phdrs img). unat x < phdr_low p \<or> phdr_high p \<le> unat x) \<longrightarrow>
       c_ram (c1\<lparr>c_ram := m'\<rparr>) x = store32 (ucast start - 4) spin (c_ram c) x"
      unfolding ram s(7) [symmetric] by (rule b(4))
  qed (use s(2-6) in simp_all)
qed

text \<open>Images that leave the sector with the running loader alone.\<close>

definition spares_loader :: "(nat \<Rightarrow> u8) \<Rightarrow> u16 \<Rightarrow> bool" where
  "spares_loader img start \<longleftrightarrow> unat start + 512 \<le> 0x10000 \<and>
     (\<forall>p \<in> set (image_phdrs img). phdr_high p \<le> unat start \<or> unat start + 512 \<le> phdr_low p)"

lemma sector_spared:
  assumes spares: "spares_loader img start"
    and frame: "\<forall>x. (unat x < 0x10000 \<or> 0x11000 \<le> unat x) \<and>
       (\<forall>p \<in> set (image_phdrs img). unat x < phdr_low p \<or> phdr_high p \<le> unat x) \<longrightarrow>
       m' x = store32 (ucast start - 4) spin m x"
  shows "\<forall>i < 512. m' (ucast start + of_nat i) = m (ucast start + of_nat i)"
proof (intro allI impI)
  fix i :: nat assume i: "i < 512"
  have u: "unat (ucast start :: u32) = unat start" by transfer simp
  have s: "unat start + 512 \<le> 0x10000" using spares by (simp add: spares_loader_def)
  have at: "unat (ucast start + of_nat i :: u32) = unat start + i"
    using s i u by (subst unat_add_small) (simp_all add: unat_of_nat)
  have "\<forall>p \<in> set (image_phdrs img). unat start + i < phdr_low p \<or> phdr_high p \<le> unat start + i"
    using spares i by (auto simp: spares_loader_def)
  then have e: "m' (ucast start + of_nat i) = store32 (ucast start - 4) spin m (ucast start + of_nat i)"
    using frame s i by (simp add: at)
  have "(ucast start + of_nat i) - (ucast start - 4) = (of_nat (i + 4) :: u32)" by simp
  then have "4 \<le> unat ((ucast start + of_nat i) - (ucast start - 4) :: u32)"
    using i by (simp only: unat_of_nat) simp
  then show "m' (ucast start + of_nat i) = m (ucast start + of_nat i)" unfolding e by (rule store32_other)
qed

text \<open>C10: From real mode, with the high half of the stack pointer zero as the BIOS leaves it, the boot
  sector reaches the kernel, when its own tables are in memory, the keyboard controller takes both
  commands and the disk behind it holds a bootable image that spares the sector. \<^verbatim>\<open>bootmain\<close> runs in
  protected mode, on segments that the processor took from the boot sector's table: all of
  memory from address 0, executable and readable for CS and writable for the others; and on a stack
  that ends where the boot sector starts. It jumps to the entry point with all segments of the
  image in memory and the boot sector untouched. Outside the image, the page of scratch space and the word
  of the return address the memory is as it was.\<close>

theorem boot_sector_boots:
  assumes "takes_command io d d1" and "takes_command io (outb io 0x64 0xd1 d1) d2" and "idle (outb io 0x60 0xdf d2)"
    and "serves_disk io img idle" and "bootable img" and "spares_loader img start"
    and "\<not> protected c" and "c_reg c ESP AND 0xFFFF0000 = 0"
    and "bytes_at (c_ram c) gdtdesc (boot_gdtdesc g)" and "bytes_at (c_ram c) (g AND 0xFFFFFF) boot_gdt"
  shows "\<exists>c' d'. boot_sector_run io start gdtdesc main spin f c d =
      Some (Some (e_entry (image_elf img) AND 0xFFFFFF), c', d') \<and> idle d' \<and>
    c_ctl c' CR0 = c_ctl c CR0 OR 1 \<and> map (c_seg c') [CS, DS, ES, FS, GS, SS] = [8, 0x10, 0x10, 0x10, 0x10, 0x10] \<and>
    map (s_hidden c') [CS, DS, ES, FS, GS, SS] =
      \<lparr>h_base = 0, h_limit = 0xffffffff, h_type = 0xA\<rparr> # replicate 5 \<lparr>h_base = 0, h_limit = 0xffffffff, h_type = 2\<rparr> \<and>
    s_gdtr c' = \<lparr>dr_limit = 0x17, dr_base = g AND 0xFFFFFF\<rparr> \<and> c_reg c' ESP = ucast start - 4 \<and>
    (\<forall>p \<in> set (image_phdrs img). phdr_loaded img (c_ram c') p) \<and>
    (\<forall>i < 512. c_ram c' (ucast start + of_nat i) = c_ram c (ucast start + of_nat i)) \<and>
    (\<forall>x. (unat x < 0x10000 \<or> 0x11000 \<le> unat x) \<and>
       (\<forall>p \<in> set (image_phdrs img). unat x < phdr_low p \<or> phdr_high p \<le> unat x) \<longrightarrow>
       c_ram c' x = store32 (ucast start - 4) spin (c_ram c) x)"
  using boot_sector_runs [OF assms(1-5,7-10), where start = start and main = main and spin = spin and f = f]
  unfolding code_seg_def data_seg_def
  by (elim exE conjE) (intro exI conjI; (rule sector_spared [OF assms(6)])?; assumption)

text \<open>A processor in real mode, with the table of the boot sector at 0x7C60 and its register's value behind it.\<close>

definition demo_real_mode :: sys_cpu where
  "demo_real_mode =
     \<lparr>c_reg = \<lambda>_. 0, c_seg = \<lambda>_. 0, c_ctl = \<lambda>k. if k = CR0 then 0x10 else 0, c_eip = 0x7C00, c_flags = 2,
      c_vmcs = \<lambda>_. 0,
      c_ram = \<lambda>x. if unat (x - 0x7C60) < 30 then (boot_gdt @ boot_gdtdesc 0x7C60) ! unat (x - 0x7C60) else 0,
      s_hidden = \<lambda>_. \<lparr>h_base = 0, h_limit = 0xFFFF, h_type = 2\<rparr>,
      s_gdtr = \<lparr>dr_limit = 0, dr_base = 0\<rparr>, s_idtr = \<lparr>dr_limit = 0x3FF, dr_base = 0\<rparr>, s_ldtr = 0,
      s_ldt = \<lparr>h_base = 0, h_limit = 0xFFFF, h_type = 2\<rparr>, s_tr = 0,
      s_dr7 = 0x400, s_tsc = 0, s_tlb = []\<rparr>"

lemma demo_8042: "takes_command (ide_disk img) d d"
  by (rule takes_command.free [of _ _ "0x40"]) (simp_all add: ide_disk_def)

lemma demo_real_mode_tables:
  "bytes_at (c_ram demo_real_mode) 0x7C78 (boot_gdtdesc 0x7C60)" "bytes_at (c_ram demo_real_mode) 0x7C60 boot_gdt"
proof -
  have len: "length boot_gdt = 24" "length (boot_gdtdesc 0x7C60) = 6"
    by (simp_all add: boot_gdt_def SEG_NULL_asm_def SEG_asm_def boot_gdtdesc_def)
  have "c_ram demo_real_mode (0x7C60 + of_nat i) = (boot_gdt @ boot_gdtdesc 0x7C60) ! i" if "i < 30" for i
    using that by (simp add: demo_real_mode_def unat_of_nat)
  then have "bytes_at (c_ram demo_real_mode) 0x7C60 (boot_gdt @ boot_gdtdesc 0x7C60)"
    by (simp add: bytes_at_def len)
  then show "bytes_at (c_ram demo_real_mode) 0x7C78 (boot_gdtdesc 0x7C60)" "bytes_at (c_ram demo_real_mode) 0x7C60 boot_gdt"
    by (simp_all add: bytes_at_append len)
qed

lemma demo_real_mode_cpu: "\<not> protected demo_real_mode" "c_reg demo_real_mode ESP AND 0xFFFF0000 = 0"
  by (simp_all add: demo_real_mode_def protected_def)

lemma boot_sector_boots_witness:
  "\<exists>c' d'. boot_sector_run (ide_disk demo_disk) 0x7C00 0x7C78 0x7D00 0x7C5A 2 demo_real_mode (\<lambda>_. 0, 0) =
      Some (Some 0x10000C, c', d') \<and> c_ctl c' CR0 = 0x11 \<and> c_seg c' CS = 8 \<and>
      s_hidden c' SS = \<lparr>h_base = 0, h_limit = 0xffffffff, h_type = 2\<rparr> \<and> s_gdtr c' = \<lparr>dr_limit = 0x17, dr_base = 0x7C60\<rparr>"
proof -
  have start: "e_entry (image_elf demo_disk) AND 0xFFFFFF = 0x10000C" "c_ctl demo_real_mode CR0 OR 1 = 0x11"
    "(0x7C60 :: u32) AND 0xFFFFFF = 0x7C60"
    by (simp_all add: demo_elf demo_real_mode_def)
  have tables: "bytes_at (c_ram demo_real_mode) (0x7C60 AND 0xFFFFFF) boot_gdt"
    using demo_real_mode_tables(2) by (simp only: start)
  have spares: "spares_loader demo_disk 0x7C00"
    unfolding spares_loader_def demo_phdrs by (simp add: demo_phdr_def seg_high_def seg_low_def seg_at_def)
  obtain c' d' where "boot_sector_run (ide_disk demo_disk) 0x7C00 0x7C78 0x7D00 0x7C5A 2 demo_real_mode (\<lambda>_. 0, 0) =
      Some (Some 0x10000C, c', d')" "c_ctl c' CR0 = 0x11" "map (c_seg c') [CS, DS, ES, FS, GS, SS] = [8, 0x10, 0x10, 0x10, 0x10, 0x10]"
    "map (s_hidden c') [CS, DS, ES, FS, GS, SS] =
      \<lparr>h_base = 0, h_limit = 0xffffffff, h_type = 0xA\<rparr> # replicate 5 \<lparr>h_base = 0, h_limit = 0xffffffff, h_type = 2\<rparr>"
    "s_gdtr c' = \<lparr>dr_limit = 0x17, dr_base = 0x7C60\<rparr>"
    using boot_sector_boots [OF demo_8042 [of _ "(\<lambda>_. 0, 0)"] demo_8042 TrueI ide_disk_serves demo_bootable spares
      demo_real_mode_cpu demo_real_mode_tables(1) tables,
      where main = "0x7D00" and spin = "0x7C5A" and f = 2, unfolded start]
    by (elim exE conjE) (rule that; assumption)
  then show ?thesis by (intro exI conjI) (simp_all add: numeral_eq_Suc)
qed

end
