(* ===== verification/Boot_Chain.thy ===== *)
theory Boot_Chain
  imports Boot_Start
begin

text \<open>
  From the BIOS to \<^verbatim>\<open>i386_init\<close>: the boot sector, the image it loads and the entry code of that
  image in turn. The tables that the entry code loads come from the image.
\<close>

section \<open>The run\<close>

text \<open>The labels of \<^verbatim>\<open>boot/boot.S\<close> and of \<^verbatim>\<open>kern/entry.S\<close> that the linker places.\<close>

record boot_labels =
  l_start :: u16
  l_gdtdesc :: u32
  l_bootmain :: u32
  l_spin :: u32

record kernel_labels =
  k_start :: u32
  k_mygdt :: u32
  k_mygdtdesc :: u32
  k_bootstacktop :: u32
  k_i386_init :: u32
  k_spin :: u32

text \<open>There is no result when the boot loader never ends, gives up, or calls another address.\<close>

definition machine_start ::
    "'d disk_io \<Rightarrow> boot_labels \<Rightarrow> kernel_labels \<Rightarrow> u32 \<Rightarrow> sys_cpu \<Rightarrow> 'd \<Rightarrow> (sys_cpu \<times> 'd) option" where
  "machine_start io b k f c d =
     (case boot_sector_run io (l_start b) (l_gdtdesc b) (l_bootmain b) (l_spin b) f c d of
        Some (Some a, c, d) \<Rightarrow>
          if a = k_start k AND 0xFFFFFF then
            Some (kernel_entry (k_mygdtdesc k) (k_bootstacktop k) (k_i386_init k) (k_spin k) c, d)
          else None
      | _ \<Rightarrow> None)"

section \<open>What the image holds\<close>

definition image_has :: "(nat \<Rightarrow> u8) \<Rightarrow> u32 \<Rightarrow> u8 list \<Rightarrow> bool" where
  "image_has img a bs \<longleftrightarrow>
     (\<exists>p \<in> set (image_phdrs img). seg_at (p_va p) \<le> unat a \<and>
        unat a + length bs \<le> seg_at (p_va p) + unat (p_filesz p) \<and>
        (\<forall>i < length bs. img (512 + unat (p_offset p) + (unat a - seg_at (p_va p)) + i) = bs ! i))"

text \<open>An image with the entry code of \<^verbatim>\<open>kern/entry.S\<close>: its tables are above the word that \<^verbatim>\<open>_start\<close>
  writes for the BIOS, and the stack does not reach into the table.\<close>

definition kernel_image :: "(nat \<Rightarrow> u8) \<Rightarrow> kernel_labels \<Rightarrow> bool" where
  "kernel_image img k \<longleftrightarrow> bootable img \<and> e_entry (image_elf img) = k_start k \<and>
     image_has img (RELOC (k_mygdt k)) kernel_gdt \<and>
     image_has img (RELOC (k_mygdtdesc k)) (boot_gdtdesc (RELOC (k_mygdt k))) \<and>
     0x474 \<le> unat (RELOC (k_mygdt k)) \<and> 0x474 \<le> unat (RELOC (k_mygdtdesc k)) \<and>
     disjoint_blocks (RELOC (k_mygdt k)) 24 (RELOC (k_bootstacktop k) - 4) 4"

lemma bytes_at_cong:
  "bytes_at m a bs \<Longrightarrow> (\<And>i. i < length bs \<Longrightarrow> m' (a + of_nat i) = m (a + of_nat i)) \<Longrightarrow> bytes_at m' a bs"
  by (simp add: bytes_at_def)

lemma image_has_loaded:
  assumes has: "image_has img a bs" and ok: "bootable img"
    and loaded: "\<forall>p \<in> set (image_phdrs img). phdr_loaded img m p"
  shows "bytes_at m a bs" and "unat a + length bs < 2 ^ 32"
proof -
  obtain p where p: "p \<in> set (image_phdrs img)" "seg_at (p_va p) \<le> unat a"
    "unat a + length bs \<le> seg_at (p_va p) + unat (p_filesz p)"
    "\<forall>i < length bs. img (512 + unat (p_offset p) + (unat a - seg_at (p_va p)) + i) = bs ! i"
    using has unfolding image_has_def by blast
  have fit: "unat (p_filesz p) \<le> unat (p_memsz p)" "seg_at (p_va p) + unat (p_memsz p) < 2 ^ 32"
    using ok p(1) by (auto simp: bootable_def phdr_ok_def seg_fits_def seg_high_def word_le_nat_alt)
  with p(3) show "unat a + length bs < 2 ^ 32" by linarith
  show "bytes_at m a bs"
    unfolding bytes_at_def
  proof (intro allI impI)
    fix i assume i: "i < length bs"
    define k where "k = unat a - seg_at (p_va p) + i"
    have k: "k < unat (p_filesz p)" "seg_at (p_va p) + k = unat a + i" using p(2,3) i by (simp_all add: k_def)
    have "a + of_nat i = of_nat (seg_at (p_va p) + k)" unfolding k(2) by simp
    moreover have "m (of_nat (seg_at (p_va p) + k)) = img (512 + unat (p_offset p) + k)"
      using loaded p(1) k(1) fit(1) by (auto simp: seg_loaded_def)
    moreover have "img (512 + unat (p_offset p) + k) = bs ! i" using p(4) i by (simp add: k_def add.assoc)
    ultimately show "m (a + of_nat i) = bs ! i" by (simp only:)
  qed
qed

text \<open>What \<^verbatim>\<open>_start\<close> writes: the word for the BIOS and the return address.\<close>

lemma store16_other: "x \<noteq> a \<Longrightarrow> x \<noteq> a + 1 \<Longrightarrow> store16 a w m x = m x"
  by (simp add: store16_def)

lemma bytes_at_bios_word:
  assumes "bytes_at m a bs" and "0x474 \<le> unat a" and "unat a + length bs < 2 ^ 32"
  shows "bytes_at (store16 0x472 w m) a bs"
proof (rule bytes_at_cong [OF assms(1)])
  fix i assume "i < length bs"
  then have "unat (a + of_nat i) = unat a + i"
    using assms(3) by (subst unat_add_small) (simp_all add: unat_of_nat)
  then have "0x474 \<le> unat (a + of_nat i)" using assms(2) by simp
  then have "a + of_nat i \<noteq> 0x472" "a + of_nat i \<noteq> 0x472 + 1" by auto
  then show "store16 0x472 w m (a + of_nat i) = m (a + of_nat i)" by (rule store16_other)
qed

lemma disjoint_blocks_byte:
  assumes "disjoint_blocks a n b k" and "i < n" and "0 < k"
  shows "k \<le> unat (a + of_nat i - b)"
proof -
  have ne: "b \<noteq> a" using assms by (auto simp: disjoint_blocks_def)
  then have s: "unat (b - a) + unat (a - b) = 2 ^ 32"
    using unat_lt_32 [of a] unat_lt_32 [of b]
    by (auto simp: unat_sub_if' word_unat_eq_iff simp del: unat_lt_32)
  have d: "n \<le> unat (b - a)" "k \<le> unat (a - b)" using assms(1) by (simp_all add: disjoint_blocks_def)
  have "i < 2 ^ 32" using d(1) assms(2) unat_lt_32 [of "b - a"] by (simp del: unat_lt_32)
  then have i: "unat (of_nat i :: u32) = i" by (simp add: unat_of_nat)
  then have "unat (a - b + of_nat i) = unat (a - b) + i"
    using s d assms(2) by (subst unat_add_small) simp_all
  moreover have "a + of_nat i - b = a - b + of_nat i" by simp
  ultimately show ?thesis using d(2) by (simp only:)
qed

lemma bytes_at_store32:
  assumes "bytes_at m a bs" and "disjoint_blocks a (length bs) b 4"
  shows "bytes_at (store32 b w m) a bs"
  by (rule bytes_at_cong [OF assms(1)]) (simp add: store32_other disjoint_blocks_byte [OF assms(2)])

lemma length_kernel_gdt: "length kernel_gdt = 24"
  by (simp add: kernel_gdt_def SEG_NULL_asm_def SEG_asm_def)

section \<open>The state at \<^verbatim>\<open>i386_init\<close>\<close>

text \<open>C9: When the boot sector's tables are in memory, the high half of the stack pointer is zero as the BIOS
  leaves it, the keyboard controller takes both commands and the disk serves the image of a kernel, the
  machine comes from real mode to the call of \<^verbatim>\<open>i386_init\<close>, in protected mode, with a stack at the top
  of the boot stack and an empty frame pointer. The descriptor table in use is the kernel's, in
  memory, and its code and data segments, which the processor has loaded, take the addresses the
  kernel is linked at to those it is loaded at; and every segment of the image is in memory, but for
  the word for the BIOS and the return address. Instructions are not in the memory of the model, so
  that the image does not overwrite the running loader is not checked here.\<close>

theorem kernel_starts:
  assumes "takes_command io d d1" and "takes_command io (outb io 0x64 0xd1 d1) d2" and "idle (outb io 0x60 0xdf d2)"
    and "serves_disk io img idle" and image: "kernel_image img k"
    and "bytes_at (c_ram c) (l_gdtdesc b) (boot_gdtdesc g)" and "bytes_at (c_ram c) (g AND 0xFFFFFF) boot_gdt"
    and "\<not> protected c" and "c_reg c ESP AND 0xFFFF0000 = 0"
  shows "\<exists>c' d'. machine_start io b k f c d = Some (c', d') \<and> idle d' \<and>
    c_eip c' = k_i386_init k \<and> c_ctl c' CR0 = c_ctl c CR0 OR 1 \<and>
    map (c_seg c') [CS, DS, ES, FS, GS, SS] = [8, 0x10, 0x10, 0x10, 0x10, 0x10] \<and>
    map (s_hidden c') [CS, DS, ES, SS] = \<lparr>h_base = - KERNBASE, h_limit = 0xffffffff, h_type = 0xA\<rparr> #
      replicate 3 \<lparr>h_base = - KERNBASE, h_limit = 0xffffffff, h_type = 2\<rparr> \<and>
    map (c_reg c') [EBP, ESP] = [0, k_bootstacktop k - 4] \<and>
    s_gdtr c' = \<lparr>dr_limit = 0x17, dr_base = RELOC (k_mygdt k)\<rparr> \<and>
    (load32 (c_ram c') (RELOC (k_mygdt k) + 8), load32 (c_ram c') (RELOC (k_mygdt k) + 12)) =
      segdesc_words (SEG (STA_X OR STA_R) (- KERNBASE) 0xffffffff 0) \<and>
    (load32 (c_ram c') (RELOC (k_mygdt k) + 16), load32 (c_ram c') (RELOC (k_mygdt k) + 20)) =
      segdesc_words (SEG STA_W (- KERNBASE) 0xffffffff 0) \<and>
    (\<forall>p \<in> set (image_phdrs img). \<forall>j < unat (p_memsz p).
       of_nat (seg_at (p_va p) + j) \<notin> {0x472, 0x473 :: u32} \<longrightarrow>
       4 \<le> unat (of_nat (seg_at (p_va p) + j) - (RELOC (k_bootstacktop k) - 4)) \<longrightarrow>
       c_ram c' (of_nat (seg_at (p_va p) + j)) =
         (if j < unat (p_filesz p) then img (512 + unat (p_offset p) + j) else 0))"
proof -
  let ?gdt = "RELOC (k_mygdt k)" and ?sp = "RELOC (k_bootstacktop k) - 4"
  have boot: "bootable img" using image by (simp add: kernel_image_def)
  obtain c1 d' where r: "boot_sector_run io (l_start b) (l_gdtdesc b) (l_bootmain b) (l_spin b) f c d =
      Some (Some (e_entry (image_elf img) AND 0xFFFFFF), c1, d')" "idle d'"
    "c_ctl c1 CR0 = c_ctl c CR0 OR 1" "map (c_seg c1) [CS, DS, ES, FS, GS, SS] = [8, 0x10, 0x10, 0x10, 0x10, 0x10]"
    "map (s_hidden c1) [CS, DS, ES, FS, GS, SS] = code_seg 0 # replicate 5 (data_seg 0)"
    "\<forall>p \<in> set (image_phdrs img). phdr_loaded img (c_ram c1) p"
    using boot_sector_runs [OF assms(1-4) boot assms(8,9,6,7), where start = "l_start b" and main = "l_bootmain b" and
      spin = "l_spin b" and f = f]
    by (elim exE conjE) (rule that; assumption)
  let ?m = "store16 0x472 0x1234 (c_ram c1)"
  have tables: "image_has img ?gdt kernel_gdt" "image_has img (RELOC (k_mygdtdesc k)) (boot_gdtdesc ?gdt)"
    "0x474 \<le> unat ?gdt" "0x474 \<le> unat (RELOC (k_mygdtdesc k))" "disjoint_blocks ?gdt 24 ?sp 4"
    using image by (simp_all add: kernel_image_def)
  note desc = bytes_at_bios_word [OF image_has_loaded(1) [OF tables(2) boot r(6)] tables(4) image_has_loaded(2) [OF tables(2) boot r(6)]]
  note gdt = bytes_at_bios_word [OF image_has_loaded(1) [OF tables(1) boot r(6)] tables(3) image_has_loaded(2) [OF tables(1) boot r(6)]]
  let ?c = "kernel_entry (k_mygdtdesc k) (k_bootstacktop k) (k_i386_init k) (k_spin k) c1"
  have flat: "base_of DS c1 = 0" using r(5) by (simp add: base_of_def data_seg_def numeral_eq_Suc)
  have prot: "protected c1" by (simp add: protected_def r(3) or_1_and_1)
  note e = kernel_entry_state [OF desc gdt prot flat, where tos = "k_bootstacktop k" and init = "k_i386_init k" and spin = "k_spin k"]
  have run: "machine_start io b k f c d = Some (?c, d')"
    using image by (simp add: machine_start_def r(1) kernel_image_def)
  have "bytes_at (c_ram ?c) ?gdt kernel_gdt"
    unfolding e(6) by (rule bytes_at_store32 [OF gdt]) (simp add: tables(5) length_kernel_gdt)
  note words = gdt_words [OF this [unfolded kernel_gdt_def]]
  have kept: "c_ram ?c x = c_ram c1 x" if "x \<notin> {0x472, 0x473}" "4 \<le> unat (x - ?sp)" for x
    unfolding e(6) using that by (simp add: store32_other store16_other)
  have segs: "\<forall>p \<in> set (image_phdrs img). \<forall>j < unat (p_memsz p).
       of_nat (seg_at (p_va p) + j) \<notin> {0x472, 0x473 :: u32} \<longrightarrow>
       4 \<le> unat (of_nat (seg_at (p_va p) + j) - ?sp) \<longrightarrow>
       c_ram ?c (of_nat (seg_at (p_va p) + j)) =
         (if j < unat (p_filesz p) then img (512 + unat (p_offset p) + j) else 0)"
  proof (intro ballI allI impI)
    fix p j assume a: "p \<in> set (image_phdrs img)" "j < unat (p_memsz p)"
      "of_nat (seg_at (p_va p) + j) \<notin> {0x472, 0x473 :: u32}" "4 \<le> unat (of_nat (seg_at (p_va p) + j) - ?sp)"
    show "c_ram ?c (of_nat (seg_at (p_va p) + j)) = (if j < unat (p_filesz p) then img (512 + unat (p_offset p) + j) else 0)"
      using kept [OF a(3,4)] r(6) a(1,2) unfolding seg_loaded_def by metis
  qed
  have regs: "c_ctl ?c CR0 = c_ctl c1 CR0" "c_seg ?c FS = c_seg c1 FS" "c_seg ?c GS = c_seg c1 GS"
    using e(7,8) by simp_all
  show ?thesis
  proof (intro exI conjI)
    show "map (c_seg ?c) [CS, DS, ES, FS, GS, SS] = [8, 0x10, 0x10, 0x10, 0x10, 0x10]" using e(1) regs r(4) by simp
    show "c_ctl ?c CR0 = c_ctl c CR0 OR 1" using regs r(3) by simp
  qed (rule run r(2) e(2) [unfolded code_seg_def data_seg_def] e(3-5) words segs)+
qed

text \<open>A kernel with its tables: the headers, four bytes of code, the table at 0x58, its register's value
  at 0x70 and a stack below 0xF0102000.\<close>

definition demo_code :: "u8 list" where
  "demo_code =
     [0x7F, 0x45, 0x4C, 0x46, 1, 1, 1, 0, 0, 0, 0, 0, 0, 0, 0, 0, 2, 0, 3, 0, 1, 0, 0, 0,
      0x0C, 0, 0x10, 0xF0, 0x34, 0, 0, 0, 0, 0, 0, 0, 0, 0, 0, 0, 0x34, 0, 0x20, 0, 1, 0, 0, 0, 0, 0, 0, 0,
      1, 0, 0, 0, 0, 0, 0, 0, 0, 0, 0x10, 0xF0, 0, 0, 0x10, 0, 0x76, 0, 0, 0, 0, 0x20, 0, 0, 7, 0, 0, 0, 0, 0x10, 0, 0,
      0xEB, 0xFE, 0x90, 0x90]"

definition demo_gdt_kernel :: "u8 list" where
  "demo_gdt_kernel = demo_code @ kernel_gdt @ boot_gdtdesc 0x100058"

abbreviation demo_gdt_disk :: "nat \<Rightarrow> u8" where
  "demo_gdt_disk \<equiv> disk_of (replicate 512 0 @ demo_gdt_kernel)"

definition demo_gdt_phdr :: Proghdr where
  "demo_gdt_phdr = \<lparr>p_type = 1, p_offset = 0, p_va = 0xF0100000, p_pa = 0x100000, p_filesz = 0x76, p_memsz = 0x2000,
     p_flags = 7, p_align = 0x1000\<rparr>"

definition demo_labels :: kernel_labels where
  "demo_labels = \<lparr>k_start = 0xF010000C, k_mygdt = 0xF0100058, k_mygdtdesc = 0xF0100070, k_bootstacktop = 0xF0102000,
     k_i386_init = 0xF0100054, k_spin = 0xF0100056\<rparr>"

lemma length_demo_gdt_kernel: "length demo_gdt_kernel = 118"
  by (simp add: demo_gdt_kernel_def length_kernel_gdt boot_gdtdesc_def demo_code_def)

lemma demo_gdt_parts:
  "i < 88 \<Longrightarrow> demo_gdt_kernel ! i = demo_code ! i" "i < 24 \<Longrightarrow> demo_gdt_kernel ! (88 + i) = kernel_gdt ! i"
  "i < 6 \<Longrightarrow> demo_gdt_kernel ! (112 + i) = boot_gdtdesc 0x100058 ! i"
proof -
  have l: "length demo_code = 88" by (simp add: demo_code_def)
  show "i < 88 \<Longrightarrow> demo_gdt_kernel ! i = demo_code ! i" "i < 24 \<Longrightarrow> demo_gdt_kernel ! (88 + i) = kernel_gdt ! i"
    "i < 6 \<Longrightarrow> demo_gdt_kernel ! (112 + i) = boot_gdtdesc 0x100058 ! i"
    by (simp_all add: demo_gdt_kernel_def nth_append l length_kernel_gdt)
qed

lemma demo_gdt_bytes: "j < 118 \<Longrightarrow> demo_gdt_disk (512 + j) = demo_gdt_kernel ! j"
  by (simp add: disk_of_def nth_append length_demo_gdt_kernel)

lemma demo_gdt_mem:
  "0x10000 \<le> unat x \<Longrightarrow> unat x - 0x10000 < 88 \<Longrightarrow> file_mem demo_gdt_disk x = demo_code ! (unat x - 0x10000)"
  using le_Suc_ex [of "0x10000" "unat x"] by (auto simp: file_mem_def demo_gdt_bytes demo_gdt_parts)

lemma demo_gdt_elf:
  "e_magic (image_elf demo_gdt_disk) = ELF_MAGIC" "e_phoff (image_elf demo_gdt_disk) = 52"
  "e_phnum (image_elf demo_gdt_disk) = 1" "e_entry (image_elf demo_gdt_disk) = 0xF010000C"
  by (simp_all add: image_elf_def elf_at_def load32_def load16_def demo_gdt_mem) (simp_all add: demo_code_def)

lemma demo_gdt_phdrs: "image_phdrs demo_gdt_disk = [demo_gdt_phdr]"
  by (simp add: image_phdrs_def demo_gdt_elf image_phdr_def proghdr_at_def load32_def demo_gdt_mem)
    (simp add: demo_code_def demo_gdt_phdr_def)

lemma demo_gdt_bootable: "bootable demo_gdt_disk"
proof -
  have "phdr_ok demo_gdt_phdr"
    by (simp add: phdr_ok_def demo_gdt_phdr_def seg_fits_def seg_high_def seg_low_def seg_at_def)
  then show ?thesis by (simp add: bootable_def demo_gdt_elf demo_gdt_phdrs del: ELF_MAGIC_def)
qed

lemma demo_gdt_has:
  assumes "0x100000 \<le> unat a" and "unat a - 0x100000 + length bs \<le> 118"
    and "\<And>i. i < length bs \<Longrightarrow> demo_gdt_kernel ! (unat a - 0x100000 + i) = bs ! i"
  shows "image_has demo_gdt_disk a bs"
proof -
  have p: "seg_at (p_va demo_gdt_phdr) = 0x100000" "unat (p_filesz demo_gdt_phdr) = 118" "unat (p_offset demo_gdt_phdr) = 0"
    by (simp_all add: demo_gdt_phdr_def seg_at_def)
  have "demo_gdt_disk (512 + (unat a - 0x100000) + i) = bs ! i" if "i < length bs" for i
    using demo_gdt_bytes [of "unat a - 0x100000 + i"] assms(2,3) that by (simp add: add.assoc)
  with assms(1,2) show ?thesis
    unfolding image_has_def demo_gdt_phdrs by (simp add: p)
qed

lemma demo_kernel_image: "kernel_image demo_gdt_disk demo_labels"
proof -
  have "image_has demo_gdt_disk 0x100058 kernel_gdt"
    by (rule demo_gdt_has) (simp_all add: length_kernel_gdt demo_gdt_parts)
  moreover have "image_has demo_gdt_disk 0x100070 (boot_gdtdesc 0x100058)"
  proof (rule demo_gdt_has)
    fix i assume "i < length (boot_gdtdesc 0x100058)"
    then have "i < 6" by (simp add: boot_gdtdesc_def)
    from demo_gdt_parts(3) [OF this]
    show "demo_gdt_kernel ! (unat (0x100070 :: u32) - 0x100000 + i) = boot_gdtdesc 0x100058 ! i" by simp
  qed (simp_all add: boot_gdtdesc_def)
  ultimately show ?thesis
    by (simp add: kernel_image_def demo_gdt_bootable demo_gdt_elf demo_labels_def RELOC_def disjoint_blocks_def)
qed

lemma kernel_starts_witness:
  "\<exists>c' d'. machine_start (ide_disk demo_gdt_disk) \<lparr>l_start = 0x7C00, l_gdtdesc = 0x7C78, l_bootmain = 0x7D00, l_spin = 0x7C5A\<rparr>
      demo_labels 2 demo_real_mode (\<lambda>_. 0, 0) = Some (c', d') \<and>
    c_eip c' = 0xF0100054 \<and> map (c_reg c') [EBP, ESP] = [0, 0xF0101FFC] \<and>
    (load32 (c_ram c') 0x100060, load32 (c_ram c') 0x100064) = segdesc_words (SEG (STA_X OR STA_R) 0x10000000 0xffffffff 0)"
    (is "\<exists>c' d'. machine_start _ ?b _ _ _ _ = _ \<and> _")
proof -
  have low: "(0x7C60 :: u32) AND 0xFFFFFF = 0x7C60" by simp
  have at: "bytes_at (c_ram demo_real_mode) (l_gdtdesc ?b) (boot_gdtdesc 0x7C60)"
    "bytes_at (c_ram demo_real_mode) (0x7C60 AND 0xFFFFFF) boot_gdt"
    using demo_real_mode_tables by (simp_all only: low) simp
  have l: "RELOC (k_mygdt demo_labels) + 8 = 0x100060" "RELOC (k_mygdt demo_labels) + 12 = 0x100064"
    "k_i386_init demo_labels = 0xF0100054" "k_bootstacktop demo_labels - 4 = 0xF0101FFC" "- KERNBASE = 0x10000000"
    by (simp_all add: demo_labels_def RELOC_def)
  show ?thesis
    using kernel_starts [OF demo_8042 [of _ "(\<lambda>_. 0, 0)"] demo_8042 TrueI ide_disk_serves demo_kernel_image at demo_real_mode_cpu,
      where f = 2, unfolded l]
    by (elim exE conjE) (intro exI conjI; assumption)
qed

end
