(* ===== verification/Trap_Entry.thy ===== *)
theory Trap_Entry
  imports X86_Cpu Trap
begin

text \<open>
  \<^verbatim>\<open>kern/trapentry.S\<close>: the stubs of the exception vectors and \<^verbatim>\<open>_alltraps\<close>, between the processor
  that delivers an exception and the C function \<^verbatim>\<open>trap\<close>, and back to the interrupted code.
\<close>

section \<open>The entry code\<close>

definition TRAPHANDLER :: "u32 \<Rightarrow> instr list" where
  "TRAPHANDLER num = [Push (Imm num)]"

definition TRAPHANDLER_NOEC :: "u32 \<Rightarrow> instr list" where
  "TRAPHANDLER_NOEC num = [Push (Imm 0), Push (Imm num)]"

definition trap_vectors :: "nat set" where
  "trap_vectors = {0..19} \<union> {48}"

definition handler_code :: "nat \<Rightarrow> instr list" where
  "handler_code n =
     (if n \<in> {8, 10, 11, 12, 13, 14, 15} then TRAPHANDLER (of_nat n) else TRAPHANDLER_NOEC (of_nat n))"

definition alltraps_entry :: "instr list" where
  "alltraps_entry =
     [Push (Seg DS), Push (Seg ES), Pushal,
      Mov (Imm GD_KD) (Reg EAX), Mov (Reg EAX) (Seg DS), Mov (Reg EAX) (Seg ES), Push (Reg ESP)]"

definition alltraps_exit :: "instr list" where
  "alltraps_exit = [Pop (Reg ESP), Popal, Pop (Seg ES), Pop (Seg DS), Addl 8 ESP, Iret]"

section \<open>The processor's part\<close>

text \<open>
  Delivery through a gate of the kernel's code segment: from a less privileged segment the stack is
  the one of the task state segment (\<open>kss\<close>, \<open>kesp\<close>). The error code is there for some vectors only.
  What becomes of the flags is the argument \<open>f\<close>.
\<close>

definition pushes_error_code :: "nat \<Rightarrow> bool" where
  "pushes_error_code n \<longleftrightarrow> n \<in> {8, 10, 11, 12, 13, 14, 17}"

definition from_user :: "cpu \<Rightarrow> bool" where
  "from_user c \<longleftrightarrow> c_seg c CS AND 3 \<noteq> 0"

definition switch_stack :: "u16 \<Rightarrow> u32 \<Rightarrow> cpu \<Rightarrow> cpu" where
  "switch_stack kss kesp c =
     push32 (reg ESP c) (push16 (c_seg c SS) ((set_reg ESP kesp c)\<lparr>c_seg := (c_seg c)(SS := kss)\<rparr>))"

definition deliver :: "u16 \<Rightarrow> u32 \<Rightarrow> u32 \<Rightarrow> u32 \<Rightarrow> u32 option \<Rightarrow> cpu \<Rightarrow> cpu" where
  "deliver kss kesp entry f err c =
     (let s = (if from_user c then switch_stack kss kesp c else c);
          s = push32 (c_eip c) (push16 (c_seg c CS) (push32 (c_flags c) s));
          s = (case err of None \<Rightarrow> s | Some v \<Rightarrow> push32 v s)
      in s\<lparr>c_eip := entry, c_flags := f, c_seg := (c_seg s)(CS := ucast GD_KT)\<rparr>)"

text \<open>From the exception to the call of \<^verbatim>\<open>trap\<close>.\<close>

definition trap_enter ::
    "(instr \<Rightarrow> cpu \<Rightarrow> u32) \<Rightarrow> u16 \<Rightarrow> u32 \<Rightarrow> u32 \<Rightarrow> u32 \<Rightarrow> nat \<Rightarrow> u32 option \<Rightarrow> cpu \<Rightarrow> cpu" where
  "trap_enter fl kss kesp entry f n err c =
     exec fl (handler_code n @ alltraps_entry) (deliver kss kesp entry f err c)"

definition trapframe_at :: "bytes \<Rightarrow> u32 \<Rightarrow> Trapframe" where
  "trapframe_at m p =
     \<lparr>tf_regs = \<lparr>reg_edi = load32 m p, reg_esi = load32 m (p + 4), reg_ebp = load32 m (p + 8),
        reg_oesp = load32 m (p + 12), reg_ebx = load32 m (p + 16), reg_edx = load32 m (p + 20),
        reg_ecx = load32 m (p + 24), reg_eax = load32 m (p + 28)\<rparr>,
      tf_es = load16 m (p + 32), tf_padding1 = load16 m (p + 34), tf_ds = load16 m (p + 36),
      tf_padding2 = load16 m (p + 38), tf_trapno = load32 m (p + 40), tf_err = load32 m (p + 44),
      tf_eip = load32 m (p + 48), tf_cs = load16 m (p + 52), tf_padding3 = load16 m (p + 54),
      tf_eflags = load32 m (p + 56), tf_esp = load32 m (p + 60), tf_ss = load16 m (p + 64),
      tf_padding4 = load16 m (p + 66)\<rparr>"

section \<open>The frame\<close>

text \<open>The address of the frame that is built: below the stack of the interrupted code or of the
  kernel, 15 or 17 words.\<close>

definition frame_base :: "u32 \<Rightarrow> cpu \<Rightarrow> u32" where
  "frame_base kesp c = (if from_user c then kesp - 68 else reg ESP c - 60)"

text \<open>What the entry code leaves, by the address \<open>q\<close> of the argument of \<^verbatim>\<open>trap\<close>; the frame follows it.\<close>

lemma alltraps_entry_state:
  fixes fl
  assumes "reg ESP s = q + 44"
  defines "x \<equiv> exec fl alltraps_entry s"
  shows "reg ESP x = q" and "load32 (c_ram x) q = q + 4"
    and "load32 (c_ram x) (q + 4) = reg EDI s" "load32 (c_ram x) (q + 8) = reg ESI s"
    "load32 (c_ram x) (q + 12) = reg EBP s" "load32 (c_ram x) (q + 16) = q + 36"
    "load32 (c_ram x) (q + 20) = reg EBX s" "load32 (c_ram x) (q + 24) = reg EDX s"
    "load32 (c_ram x) (q + 28) = reg ECX s" "load32 (c_ram x) (q + 32) = reg EAX s"
    "load16 (c_ram x) (q + 36) = c_seg s ES" "load16 (c_ram x) (q + 40) = c_seg s DS"
    and "44 \<le> unat j \<Longrightarrow> unat j \<le> 68 \<Longrightarrow> load32 (c_ram x) (q + j) = load32 (c_ram s) (q + j)"
    and "c_seg x = (c_seg s)(DS := 0x10, ES := 0x10)"
proof -
  note rules = offset_last [of _ q] cpu_defs assms(1) load32_store32_apart load32_store16_apart load16_apart
    apart_same_base
  have x: "x = s\<lparr>c_reg := (c_reg s)(ESP := q, EAX := 0x10), c_seg := (c_seg s)(DS := 0x10, ES := 0x10),
    c_ram := store32 q (q + 4) (store32 (q + 4) (reg EDI s) (store32 (q + 8) (reg ESI s)
      (store32 (q + 12) (reg EBP s) (store32 (q + 16) (q + 36) (store32 (q + 20) (reg EBX s)
      (store32 (q + 24) (reg EDX s) (store32 (q + 28) (reg ECX s) (store32 (q + 32) (reg EAX s)
      (store16 (q + 36) (c_seg s ES) (store16 (q + 40) (c_seg s DS) (c_ram s)))))))))))\<rparr>"
    unfolding x_def alltraps_entry_def by (simp add: rules fun_eq_iff)
  show "reg ESP x = q" "load32 (c_ram x) q = q + 4"
    "load32 (c_ram x) (q + 4) = reg EDI s" "load32 (c_ram x) (q + 8) = reg ESI s"
    "load32 (c_ram x) (q + 12) = reg EBP s" "load32 (c_ram x) (q + 16) = q + 36"
    "load32 (c_ram x) (q + 20) = reg EBX s" "load32 (c_ram x) (q + 24) = reg EDX s"
    "load32 (c_ram x) (q + 28) = reg ECX s" "load32 (c_ram x) (q + 32) = reg EAX s"
    "load16 (c_ram x) (q + 36) = c_seg s ES" "load16 (c_ram x) (q + 40) = c_seg s DS"
    "c_seg x = (c_seg s)(DS := 0x10, ES := 0x10)"
    by (simp_all add: x rules)
  assume j: "44 \<le> unat j" "unat j \<le> 68"
  have "apart (q + i) (q + j)" if i: "unat i \<le> 40" for i
  proof -
    have "unat (j - i) = unat j - unat i" using i j by (intro unat_sub) (simp add: word_le_nat_alt)
    moreover have "unat (i - j) = 4294967296 + unat i - unat j" using i j by (simp add: unat_sub_if')
    ultimately show ?thesis using i j by (intro apart_same_base(1)) auto
  qed
  from this [of 0] this show "load32 (c_ram x) (q + j) = load32 (c_ram s) (q + j)"
    by (simp add: x load32_store32_apart load32_store16_apart)
qed

text \<open>The way back, from the words of the frame.\<close>

lemma alltraps_exit_state:
  fixes fl
  assumes "reg ESP t = q" and "load32 (c_ram t) q = q + 4"
  defines "x \<equiv> exec fl alltraps_exit t" and "m \<equiv> c_ram t"
  defines "outer \<equiv> load16 m (q + 56) AND 3 \<noteq> c_seg t CS AND 3"
  shows "reg EDI x = load32 m (q + 4)" "reg ESI x = load32 m (q + 8)" "reg EBP x = load32 m (q + 12)"
    "reg EBX x = load32 m (q + 20)" "reg EDX x = load32 m (q + 24)" "reg ECX x = load32 m (q + 28)"
    "reg EAX x = load32 m (q + 32)" "c_seg x ES = load16 m (q + 36)" "c_seg x DS = load16 m (q + 40)"
    "c_eip x = load32 m (q + 52)" "c_seg x CS = load16 m (q + 56)" "c_flags x = load32 m (q + 60)"
    "reg ESP x = (if outer then load32 m (q + 64) else q + 64)"
    "c_seg x SS = (if outer then load16 m (q + 68) else c_seg t SS)" "c_ram x = m"
    "c_seg x FS = c_seg t FS" "c_seg x GS = c_seg t GS"
  unfolding x_def m_def outer_def alltraps_exit_def
  by (simp_all add: offset_last [of _ q] cpu_defs assms(1,2) iret_def Let_def load16_load32)

text \<open>The processor's words and those of the stub, for a stub that fits the vector.\<close>

definition stub_fits :: "nat \<Rightarrow> u32 option \<Rightarrow> bool" where
  "stub_fits n err \<longleftrightarrow> n \<in> trap_vectors \<and> n \<noteq> 15 \<and> n \<noteq> 17 \<and> (err \<noteq> None \<longleftrightarrow> pushes_error_code n)"

lemma stub_fits_cases:
  assumes "stub_fits n err"
  shows "(\<exists>v. err = Some v \<and> handler_code n = TRAPHANDLER (of_nat n)) \<or>
    (err = None \<and> handler_code n = TRAPHANDLER_NOEC (of_nat n))"
  using assms by (auto simp: stub_fits_def pushes_error_code_def handler_code_def)

definition error_code_of :: "u32 option \<Rightarrow> u32" where
  "error_code_of err = (case err of None \<Rightarrow> 0 | Some v \<Rightarrow> v)"

lemma delivered_state:
  fixes fl kss kesp entry f c
  assumes fits: "stub_fits n err"
  defines "s \<equiv> exec fl (handler_code n) (deliver kss kesp entry f err c)" and "q \<equiv> frame_base kesp c - 4"
  shows "reg ESP s = q + 44" and "load32 (c_ram s) (q + 44) = of_nat n"
    and "load32 (c_ram s) (q + 48) = error_code_of err" and "load32 (c_ram s) (q + 52) = c_eip c"
    and "load16 (c_ram s) (q + 56) = c_seg c CS" and "load32 (c_ram s) (q + 60) = c_flags c"
    and "from_user c \<Longrightarrow> load32 (c_ram s) (q + 64) = reg ESP c"
    and "from_user c \<Longrightarrow> load16 (c_ram s) (q + 68) = c_seg c SS"
    and "r \<noteq> ESP \<Longrightarrow> reg r s = reg r c"
    and "c_seg s = (c_seg c)(CS := 8, SS := (if from_user c then kss else c_seg c SS))"
proof -
  have b: "from_user c \<Longrightarrow> kesp = q + 72" "\<not> from_user c \<Longrightarrow> reg ESP c = q + 64"
    by (simp_all add: q_def frame_base_def)
  note rules = offset_last [of _ q] cpu_defs load32_store32_apart load32_store16_apart load16_apart
    apart_same_base deliver_def switch_stack_def error_code_of_def TRAPHANDLER_def TRAPHANDLER_NOEC_def
  consider v where "err = Some v" "handler_code n = TRAPHANDLER (of_nat n)"
    | "err = None" "handler_code n = TRAPHANDLER_NOEC (of_nat n)"
    using stub_fits_cases [OF fits] by blast
  note cases = this
  show "reg ESP s = q + 44" "load32 (c_ram s) (q + 44) = of_nat n"
    "load32 (c_ram s) (q + 48) = error_code_of err" "load32 (c_ram s) (q + 52) = c_eip c"
    "load16 (c_ram s) (q + 56) = c_seg c CS" "load32 (c_ram s) (q + 60) = c_flags c"
    "c_seg s = (c_seg c)(CS := 8, SS := (if from_user c then kss else c_seg c SS))"
    by (cases rule: cases; cases "from_user c"; simp add: s_def b rules fun_eq_iff)+
  show "from_user c \<Longrightarrow> load32 (c_ram s) (q + 64) = reg ESP c"
    "from_user c \<Longrightarrow> load16 (c_ram s) (q + 68) = c_seg c SS"
    by (cases rule: cases; simp add: s_def b rules)+
  show "r \<noteq> ESP \<Longrightarrow> reg r s = reg r c"
    by (cases rule: cases; cases "from_user c"; simp add: s_def b rules)
qed

section \<open>In and out\<close>

lemma trap_enter_eq:
  "trap_enter fl kss kesp entry f n err c =
     exec fl alltraps_entry (exec fl (handler_code n) (deliver kss kesp entry f err c))"
  by (simp add: trap_enter_def)

lemma trap_enter_frame:
  fixes fl kss kesp entry f c
  assumes fits: "stub_fits n err"
  defines "x \<equiv> trap_enter fl kss kesp entry f n err c" and "q \<equiv> frame_base kesp c - 4"
  shows "reg ESP x = q" and "load32 (c_ram x) q = q + 4"
    and "load32 (c_ram x) (q + 4) = reg EDI c" "load32 (c_ram x) (q + 8) = reg ESI c"
    "load32 (c_ram x) (q + 12) = reg EBP c" "load32 (c_ram x) (q + 16) = q + 36"
    "load32 (c_ram x) (q + 20) = reg EBX c" "load32 (c_ram x) (q + 24) = reg EDX c"
    "load32 (c_ram x) (q + 28) = reg ECX c" "load32 (c_ram x) (q + 32) = reg EAX c"
    "load16 (c_ram x) (q + 36) = c_seg c ES" "load16 (c_ram x) (q + 40) = c_seg c DS"
    and "load32 (c_ram x) (q + 44) = of_nat n" "load32 (c_ram x) (q + 48) = error_code_of err"
    "load32 (c_ram x) (q + 52) = c_eip c" "load16 (c_ram x) (q + 56) = c_seg c CS"
    "load32 (c_ram x) (q + 60) = c_flags c"
    and "from_user c \<Longrightarrow> load32 (c_ram x) (q + 64) = reg ESP c"
    and "from_user c \<Longrightarrow> load16 (c_ram x) (q + 68) = c_seg c SS"
    and "c_seg x = (c_seg c)(CS := 8, SS := (if from_user c then kss else c_seg c SS), DS := 0x10, ES := 0x10)"
proof -
  define s where "s = exec fl (handler_code n) (deliver kss kesp entry f err c)"
  have x: "x = exec fl alltraps_entry s" by (simp add: x_def s_def trap_enter_eq)
  note d = delivered_state [OF fits, where fl = fl and kss = kss and kesp = kesp and entry = entry and f = f and c = c,
      folded s_def q_def]
  note a = alltraps_entry_state [OF d(1), where fl = fl, folded x]
  show "reg ESP x = q" "load32 (c_ram x) q = q + 4"
    "load32 (c_ram x) (q + 4) = reg EDI c" "load32 (c_ram x) (q + 8) = reg ESI c"
    "load32 (c_ram x) (q + 12) = reg EBP c" "load32 (c_ram x) (q + 16) = q + 36"
    "load32 (c_ram x) (q + 20) = reg EBX c" "load32 (c_ram x) (q + 24) = reg EDX c"
    "load32 (c_ram x) (q + 28) = reg ECX c" "load32 (c_ram x) (q + 32) = reg EAX c"
    "load16 (c_ram x) (q + 36) = c_seg c ES" "load16 (c_ram x) (q + 40) = c_seg c DS"
    "c_seg x = (c_seg c)(CS := 8, SS := (if from_user c then kss else c_seg c SS), DS := 0x10, ES := 0x10)"
    using a(1-12,14) d(9,10) by (simp_all add: fun_eq_iff)
  show "load32 (c_ram x) (q + 44) = of_nat n" "load32 (c_ram x) (q + 48) = error_code_of err"
    "load32 (c_ram x) (q + 52) = c_eip c" "load16 (c_ram x) (q + 56) = c_seg c CS"
    "load32 (c_ram x) (q + 60) = c_flags c"
    "from_user c \<Longrightarrow> load32 (c_ram x) (q + 64) = reg ESP c"
    "from_user c \<Longrightarrow> load16 (c_ram x) (q + 68) = c_seg c SS"
    using d(2-8) by (simp_all add: a(13) load16_load32)
qed

text \<open>What \<^verbatim>\<open>trap\<close> must do to return: leave the frame and its stack pointer as they were.\<close>

definition keeps_frame :: "cpu \<Rightarrow> cpu \<Rightarrow> bool" where
  "keeps_frame x t \<longleftrightarrow> reg ESP t = reg ESP x \<and> c_seg t CS = c_seg x CS \<and> c_seg t SS = c_seg x SS \<and>
     (\<forall>i \<le> 17. load32 (c_ram t) (reg ESP x + of_nat (4 * i)) = load32 (c_ram x) (reg ESP x + of_nat (4 * i)))"

lemma keeps_frame_word:
  assumes "keeps_frame x t" and "reg ESP x = q" and "i \<le> 17"
  shows "load32 (c_ram t) (q + of_nat (4 * i)) = load32 (c_ram x) (q + of_nat (4 * i))"
  using assms by (simp add: keeps_frame_def)

lemma keeps_frame_words:
  assumes "keeps_frame x t" and "reg ESP x = q"
  shows "load32 (c_ram t) q = load32 (c_ram x) q"
    "load32 (c_ram t) (q + 4) = load32 (c_ram x) (q + 4)" "load32 (c_ram t) (q + 8) = load32 (c_ram x) (q + 8)"
    "load32 (c_ram t) (q + 12) = load32 (c_ram x) (q + 12)" "load32 (c_ram t) (q + 20) = load32 (c_ram x) (q + 20)"
    "load32 (c_ram t) (q + 24) = load32 (c_ram x) (q + 24)" "load32 (c_ram t) (q + 28) = load32 (c_ram x) (q + 28)"
    "load32 (c_ram t) (q + 32) = load32 (c_ram x) (q + 32)" "load32 (c_ram t) (q + 36) = load32 (c_ram x) (q + 36)"
    "load32 (c_ram t) (q + 40) = load32 (c_ram x) (q + 40)" "load32 (c_ram t) (q + 52) = load32 (c_ram x) (q + 52)"
    "load32 (c_ram t) (q + 56) = load32 (c_ram x) (q + 56)" "load32 (c_ram t) (q + 60) = load32 (c_ram x) (q + 60)"
    "load32 (c_ram t) (q + 64) = load32 (c_ram x) (q + 64)" "load32 (c_ram t) (q + 68) = load32 (c_ram x) (q + 68)"
  using keeps_frame_word [OF assms, of 0] keeps_frame_word [OF assms, of 1] keeps_frame_word [OF assms, of 2]
    keeps_frame_word [OF assms, of 3] keeps_frame_word [OF assms, of 5] keeps_frame_word [OF assms, of 6]
    keeps_frame_word [OF assms, of 7] keeps_frame_word [OF assms, of 8] keeps_frame_word [OF assms, of 9]
    keeps_frame_word [OF assms, of 10] keeps_frame_word [OF assms, of 13] keeps_frame_word [OF assms, of 14]
    keeps_frame_word [OF assms, of 15] keeps_frame_word [OF assms, of 16] keeps_frame_word [OF assms, of 17]
  by simp_all

definition demo_interrupted :: cpu where
  "demo_interrupted = \<lparr>c_reg = (\<lambda>_. 7)(ESP := 0x8000, EAX := 42), c_seg = (\<lambda>_. 0x10)(CS := 8),
     c_ctl = (\<lambda>_. 0), c_eip = 0xF0100123, c_flags = 0x202, c_vmcs = (\<lambda>_. 0), c_ram = (\<lambda>_. 0)\<rparr>"

lemma frame_fields:
  assumes "stub_fits n err"
  shows "let x = trap_enter fl kss kesp entry f n err c; p = frame_base kesp c; tf = trapframe_at (c_ram x) p in
    load32 (c_ram x) (reg ESP x) = p \<and>
    tf_regs tf = \<lparr>reg_edi = reg EDI c, reg_esi = reg ESI c, reg_ebp = reg EBP c, reg_oesp = p + 32,
      reg_ebx = reg EBX c, reg_edx = reg EDX c, reg_ecx = reg ECX c, reg_eax = reg EAX c\<rparr> \<and>
    tf_es tf = c_seg c ES \<and> tf_ds tf = c_seg c DS \<and> tf_trapno tf = of_nat n \<and>
    tf_err tf = error_code_of err \<and> tf_eip tf = c_eip c \<and> tf_cs tf = c_seg c CS \<and> tf_eflags tf = c_flags c \<and>
    (if from_user c then tf_esp tf = reg ESP c \<and> tf_ss tf = c_seg c SS else True) \<and>
    map (c_seg x) [DS, ES, CS] = map ucast [GD_KD, GD_KD, GD_KT]"
proof -
  define x where "x = trap_enter fl kss kesp entry f n err c"
  define q where "q = frame_base kesp c - 4"
  have p: "frame_base kesp c = q + 4" by (simp add: q_def)
  note e = trap_enter_frame [OF assms, where fl = fl and kss = kss and kesp = kesp and entry = entry and f = f and c = c,
      folded x_def q_def]
  have "map (c_seg x) [DS, ES, CS] = map ucast [GD_KD, GD_KD, GD_KT]" by (simp add: e(20))
  then show ?thesis
    unfolding Let_def x_def [symmetric] p trapframe_at_def e(1)
    by (simp add: e(2-19) offset_last [of _ q])
qed

text \<open>C18: When an exception or the system call is delivered, \<^verbatim>\<open>trap\<close> is called with the address of a trap
  frame that holds the interrupted state: every general register, the data segments, the
  instruction pointer, code segment and flags, the vector, its error code or 0, and for code in
  user mode the stack. The kernel's segments are loaded. Vector 17 is excluded.\<close>

theorem trap_frame_built:
  assumes "stub_fits n err"
  shows "let x = trap_enter fl kss kesp entry f n err c; p = frame_base kesp c; tf = trapframe_at (c_ram x) p in
    load32 (c_ram x) (reg ESP x) = p \<and>
    tf_regs tf = \<lparr>reg_edi = reg EDI c, reg_esi = reg ESI c, reg_ebp = reg EBP c, reg_oesp = p + 32,
      reg_ebx = reg EBX c, reg_edx = reg EDX c, reg_ecx = reg ECX c, reg_eax = reg EAX c\<rparr> \<and>
    tf_es tf = c_seg c ES \<and> tf_ds tf = c_seg c DS \<and> tf_trapno tf = of_nat n \<and>
    tf_err tf = error_code_of err \<and> tf_eip tf = c_eip c \<and> tf_cs tf = c_seg c CS \<and> tf_eflags tf = c_flags c \<and>
    (if from_user c then tf_esp tf = reg ESP c \<and> tf_ss tf = c_seg c SS else True) \<and>
    map (c_seg x) [DS, ES, CS] = map ucast [GD_KD, GD_KD, GD_KT]"
  by (rule frame_fields [OF assms])

lemma trap_frame_built_witness:
  "tf_eip (trapframe_at (c_ram (trap_enter (\<lambda>_ _. 0) 0x10 0xF0000000 0xF0104000 2 13 (Some 0x28) demo_interrupted))
     0x7FC4) = 0xF0100123"
  using trap_frame_built [of 13 "Some 0x28" "\<lambda>_ _. 0" "0x10" "0xF0000000" "0xF0104000" 2 demo_interrupted]
  by (simp add: stub_fits_def pushes_error_code_def trap_vectors_def frame_base_def from_user_def demo_interrupted_def Let_def)

lemma interrupted_state:
  fixes fl kss kesp entry f c
  assumes fits: "stub_fits n err" and t: "keeps_frame (trap_enter fl kss kesp entry f n err c) t"
  defines "y \<equiv> exec fl alltraps_exit t"
  shows "reg r y = reg r c \<and> c_eip y = c_eip c \<and> c_flags y = c_flags c \<and>
    map (c_seg y) [ES, CS, SS, DS] = map (c_seg c) [ES, CS, SS, DS]"
proof -
  define x where "x = trap_enter fl kss kesp entry f n err c"
  define q where "q = frame_base kesp c - 4"
  note e = trap_enter_frame [OF fits, where fl = fl and kss = kss and kesp = kesp and entry = entry and f = f and c = c, folded x_def q_def]
  have k: "keeps_frame x t" using t by (simp add: x_def)
  note w = keeps_frame_words [OF k e(1)]
  have seg: "reg ESP t = q" "c_seg t CS = 8" "c_seg t SS = (if from_user c then kss else c_seg c SS)"
    using k e(1,20) by (simp_all add: keeps_frame_def)
  have "load32 (c_ram t) q = q + 4" using w(1) e(2) by simp
  note a = alltraps_exit_state [OF seg(1) this, where fl = fl, folded y_def]
  have o: "load16 (c_ram t) (q + 56) AND 3 \<noteq> c_seg t CS AND 3 \<longleftrightarrow> from_user c"
    using w(12) e(16) seg(2) by (simp add: load16_load32 from_user_def)
  have "\<not> from_user c \<Longrightarrow> q + 64 = reg ESP c" by (simp add: q_def frame_base_def)
  then have "reg ESP y = reg ESP c" using a(13) o w(14) e(18) by auto
  moreover have "c_seg y SS = c_seg c SS" using a(14) o seg(3) w(15) e(19) by (auto simp: load16_load32)
  moreover have "reg r y = reg r c" if "r \<noteq> ESP" for r
    using that a(1-7) w e by (cases r) simp_all
  ultimately show ?thesis using a(8-12) w e by (cases "r = ESP") (simp_all add: load16_load32)
qed

text \<open>C19: If \<^verbatim>\<open>trap\<close> returns and has left the frame alone, the interrupted code goes on as if nothing
  had happened: every general register, the stack pointer included, the segments, the flags and
  the instruction pointer are those of the moment of the exception.\<close>

theorem trap_returns:
  fixes fl kss kesp entry f c
  assumes fits: "stub_fits n err" and t: "keeps_frame (trap_enter fl kss kesp entry f n err c) t"
  defines "y \<equiv> exec fl alltraps_exit t"
  shows "reg r y = reg r c \<and> c_eip y = c_eip c \<and> c_flags y = c_flags c \<and>
    map (c_seg y) [ES, CS, SS, DS] = map (c_seg c) [ES, CS, SS, DS]"
  unfolding y_def by (rule interrupted_state [OF fits t])

lemma trap_returns_witness:
  "reg EAX (exec (\<lambda>_ _. 0) alltraps_exit
     (trap_enter (\<lambda>_ _. 0) 0x10 0xF0000000 0xF0104000 2 3 None demo_interrupted)) = 42"
  using trap_returns [of 3 None "\<lambda>_ _. 0" "0x10" "0xF0000000" "0xF0104000" 2 demo_interrupted _ EAX]
  by (simp add: stub_fits_def pushes_error_code_def trap_vectors_def keeps_frame_def) (simp add: demo_interrupted_def)

section \<open>The alignment check\<close>

lemma delivered_state_17:
  fixes fl kss kesp entry f c e
  defines "s \<equiv> exec fl (handler_code 17) (deliver kss kesp entry f (Some e) c)" and "q \<equiv> frame_base kesp c - 8"
  shows "reg ESP s = q + 44" and "load32 (c_ram s) (q + 44) = 17" and "load32 (c_ram s) (q + 48) = 0"
    and "load32 (c_ram s) (q + 52) = e" and "load32 (c_ram s) (q + 56) = c_eip c"
proof -
  have b: "from_user c \<Longrightarrow> kesp = q + 76" "\<not> from_user c \<Longrightarrow> reg ESP c = q + 68"
    by (simp_all add: q_def frame_base_def)
  note rules = offset_last [of _ q] cpu_defs load32_store32_apart load32_store16_apart load16_apart
    apart_same_base deliver_def switch_stack_def handler_code_def TRAPHANDLER_NOEC_def
  show "reg ESP s = q + 44" "load32 (c_ram s) (q + 44) = 17" "load32 (c_ram s) (q + 48) = 0"
    "load32 (c_ram s) (q + 52) = e" "load32 (c_ram s) (q + 56) = c_eip c"
    by (cases "from_user c"; simp add: s_def b rules)+
qed

text \<open>C37: The stub of vector 17, the alignment check, is one for exceptions without an error code,
  although the processor pushes one. The frame \<^verbatim>\<open>trap\<close> gets is then off by a word: its error code
  is 0, the real one is in the place of the instruction pointer, the instruction pointer in that
  of the code segment; and if \<^verbatim>\<open>trap\<close> returned, execution would go on at the error code.\<close>

theorem alignment_check_frame:
  fixes fl kss kesp entry f c e
  assumes t: "keeps_frame (trap_enter fl kss kesp entry f 17 (Some e) c) t"
  shows "let x = trap_enter fl kss kesp entry f 17 (Some e) c; tf = trapframe_at (c_ram x) (load32 (c_ram x) (reg ESP x)) in
    tf_trapno tf = 17 \<and> tf_err tf = 0 \<and> tf_eip tf = e \<and> tf_cs tf = ucast (c_eip c) \<and>
    c_eip (exec fl alltraps_exit t) = e"
proof -
  define x where "x = trap_enter fl kss kesp entry f 17 (Some e) c"
  define q where "q = frame_base kesp c - 8"
  note d = delivered_state_17 [where fl = fl and kss = kss and kesp = kesp and entry = entry and f = f and c = c and e = e,
      folded q_def]
  note a = alltraps_entry_state [OF d(1), where fl = fl, folded trap_enter_eq, folded x_def]
  have k: "keeps_frame x t" using t by (simp add: x_def)
  note w = keeps_frame_words [OF k a(1)]
  have t': "reg ESP t = q" "load32 (c_ram t) q = q + 4"
    using k a(1,2) w(1) by (simp_all add: keeps_frame_def)
  have "c_eip (exec fl alltraps_exit t) = e"
    using alltraps_exit_state(10) [OF t'] w(11) a(13) [of 52] d(4) by simp
  moreover have "load32 (c_ram x) (q + 44) = 17" "load32 (c_ram x) (q + 48) = 0" "load32 (c_ram x) (q + 52) = e"
    "load16 (c_ram x) (q + 56) = ucast (c_eip c)"
    using d(2-5) by (simp_all add: a(13) load16_load32)
  ultimately show ?thesis
    unfolding Let_def x_def [symmetric] trapframe_at_def a(1,2) by (simp add: offset_last [of _ q])
qed

lemma alignment_check_frame_witness:
  "c_eip (exec (\<lambda>_ _. 0) alltraps_exit
     (trap_enter (\<lambda>_ _. 0) 0x10 0xF0000000 0xF0104000 2 17 (Some 0) demo_interrupted)) = 0"
  using alignment_check_frame [of "\<lambda>_ _. 0" "0x10" "0xF0000000" "0xF0104000" 2 0 demo_interrupted]
  by (simp add: keeps_frame_def Let_def)

end
