(* ===== verification/Trap_Path.thy ===== *)
theory Trap_Path
  imports Trap_Entry
begin

text \<open>
  An exception from end to end: the gate and the stack that \<^verbatim>\<open>idt_init\<close> has set up, the stub and
  \<^verbatim>\<open>_alltraps\<close>, the C function \<^verbatim>\<open>trap\<close>, and the way back.
\<close>

section \<open>The path\<close>

text \<open>
  \<open>code\<close> are the instructions at an address, up to the jump to \<^verbatim>\<open>_alltraps\<close>. Without a present gate there
  is no result: the processor raises another exception instead.
\<close>

definition take_exception ::
    "(instr \<Rightarrow> cpu \<Rightarrow> u32) \<Rightarrow> (u32 \<Rightarrow> instr list) \<Rightarrow> trap_state \<Rightarrow> u32 \<Rightarrow> nat \<Rightarrow> u32 option \<Rightarrow> cpu \<Rightarrow> cpu option" where
  "take_exception fl code s f n err c =
     (let g = idt s ! n in
      if gd_p g = 0 then None
      else Some (exec fl (code (gate_offset g) @ alltraps_entry)
        (deliver (ts_ss0 (ts s)) (ts_esp0 (ts s)) (gate_offset g) f err c)))"

text \<open>\<open>after\<close> is what \<^verbatim>\<open>trap\<close>, when it returns, has made of the processor.\<close>

definition handle_exception ::
    "'s sink \<Rightarrow> (u32 \<Rightarrow> string) \<Rightarrow> (string \<Rightarrow> u32) \<Rightarrow> (u32 \<Rightarrow> Trapframe \<Rightarrow> 's \<Rightarrow> 's res) \<Rightarrow> (cpu \<Rightarrow> cpu) \<Rightarrow>
     (instr \<Rightarrow> cpu \<Rightarrow> u32) \<Rightarrow> (u32 \<Rightarrow> instr list) \<Rightarrow> trap_state \<Rightarrow> u32 \<Rightarrow> nat \<Rightarrow> u32 option \<Rightarrow> cpu \<Rightarrow> 's \<Rightarrow>
     (cpu \<times> 's) res option" where
  "handle_exception put str lit monitor after fl code s f n err c st =
     (case take_exception fl code s f n err c of
        None \<Rightarrow> None
      | Some x \<Rightarrow>
          (let p = load32 (c_ram x) (reg ESP x) in
           Some (res_bind (trap put str lit monitor p (trapframe_at (c_ram x) p) st)
             (\<lambda>st. Inr (exec fl alltraps_exit (after x), st)))))"

section \<open>Where it leads\<close>

definition stubs_at :: "(u32 \<Rightarrow> instr list) \<Rightarrow> (nat \<Rightarrow> u32) \<Rightarrow> bool" where
  "stubs_at code handler \<longleftrightarrow> (\<forall>n \<in> trap_vectors. code (handler n) = handler_code n)"

lemma idt_init_stack:
  "ts_ss0 (ts (idt_init handler tsa idta trap_state_init)) = 0x10"
  "ts_esp0 (ts (idt_init handler tsa idta trap_state_init)) = KSTACKTOP"
  by (simp_all add: idt_init_def set_gate_def Let_def trap_state_init_def)

lemma take_exception_enters:
  assumes "stubs_at code handler" and "n \<in> trap_vectors" and "n \<noteq> 0"
  shows "take_exception fl code (idt_init handler tsa idta trap_state_init) f n err c =
    Some (trap_enter fl 0x10 KSTACKTOP (handler n) f n err c)"
proof -
  have n: "n < 256" "n \<in> {1..19} \<or> n = 48" using assms(2,3) by (auto simp: trap_vectors_def)
  then have "gate_offset (intended_gate handler n) = handler n" by (auto simp: intended_gate_def)
  moreover have "gd_p (intended_gate handler n) = 1" using n(2) by (auto simp: intended_gate_def SETGATE_def)
  ultimately show ?thesis using assms(1,2) n(1)
    by (simp add: take_exception_def idt_init_gate idt_init_stack trap_enter_def stubs_at_def)
qed

lemma no_gate:
  assumes "n < 256" and "n \<notin> {1..19}" and "n \<noteq> 48"
  shows "take_exception fl code (idt_init handler tsa idta trap_state_init) f n err c = None"
proof -
  have "intended_gate handler n = zero_gate" using assms by (auto simp: intended_gate_def)
  then show ?thesis using assms(1) by (simp add: take_exception_def idt_init_gate zero_gate_def)
qed

text \<open>Vector 15, which is reserved, has a stub for an exception with an error code, but the processor has
  none for it: the frame is off by a word in the other direction than that of vector 17.\<close>

lemma delivered_state_15:
  fixes fl kss kesp entry f c
  defines "s \<equiv> exec fl (handler_code 15) (deliver kss kesp entry f None c)" and "q \<equiv> frame_base kesp c"
  shows "reg ESP s = q + 44" and "load32 (c_ram s) (q + 44) = 15"
    and "load32 (c_ram s) (q + 48) = c_eip c" and "load32 (c_ram s) (q + 56) = c_flags c"
proof -
  have b: "from_user c \<Longrightarrow> kesp = q + 68" "\<not> from_user c \<Longrightarrow> reg ESP c = q + 60"
    by (simp_all add: q_def frame_base_def)
  note rules = offset_last [of _ q] cpu_defs load32_store32_apart load32_store16_apart load16_apart
    apart_same_base deliver_def switch_stack_def handler_code_def TRAPHANDLER_def
  show "reg ESP s = q + 44" "load32 (c_ram s) (q + 44) = 15" "load32 (c_ram s) (q + 48) = c_eip c"
    "load32 (c_ram s) (q + 56) = c_flags c"
    by (cases "from_user c"; simp add: s_def b rules)+
qed

text \<open>The vector and the code segment that \<^verbatim>\<open>trap\<close> finds in the frame.\<close>

definition seen_cs :: "nat \<Rightarrow> cpu \<Rightarrow> u16" where
  "seen_cs n c = (if n = 15 then ucast (c_flags c) else if n = 17 then ucast (c_eip c) else c_seg c CS)"

lemma frame_seen:
  fixes fl kss kesp entry f c
  assumes n: "n \<in> trap_vectors" and err: "err \<noteq> None \<longleftrightarrow> pushes_error_code n"
  defines "x \<equiv> trap_enter fl kss kesp entry f n err c"
  shows "tf_trapno (trapframe_at (c_ram x) (load32 (c_ram x) (reg ESP x))) = of_nat n"
    and "tf_cs (trapframe_at (c_ram x) (load32 (c_ram x) (reg ESP x))) = seen_cs n c"
proof -
  have "tf_trapno (trapframe_at (c_ram x) (load32 (c_ram x) (reg ESP x))) = of_nat n \<and>
    tf_cs (trapframe_at (c_ram x) (load32 (c_ram x) (reg ESP x))) = seen_cs n c"
  proof (cases "n = 15 \<or> n = 17")
    case False
    then have fits: "stub_fits n err" using n err by (simp add: stub_fits_def)
    from frame_fields [OF this, where fl = fl and kss = kss and kesp = kesp and entry = entry and f = f and c = c,
        unfolded Let_def, folded x_def]
    show ?thesis using False by (simp add: seen_cs_def)
  next
    case True
    then consider "n = 15" "err = None" | e where "n = 17" "err = Some e"
      using err by (auto simp: pushes_error_code_def)
    then show ?thesis
    proof cases
      case 1
      define q where "q = frame_base kesp c"
      note d = delivered_state_15 [where fl = fl and kss = kss and kesp = kesp and entry = entry and f = f and c = c,
          folded q_def]
      have x: "x = exec fl alltraps_entry (exec fl (handler_code 15) (deliver kss kesp entry f None c))"
        by (simp add: x_def 1 trap_enter_eq)
      note a = alltraps_entry_state [OF d(1), where fl = fl, folded x]
      have "load32 (c_ram x) (q + 44) = 15" "load16 (c_ram x) (q + 56) = ucast (c_flags c)"
        using d(2-4) by (simp_all add: a(13) load16_load32)
      then show ?thesis
        unfolding trapframe_at_def a(1,2) by (simp add: offset_last [of _ q] seen_cs_def 1)
    next
      case 2
      define q where "q = frame_base kesp c - 8"
      note d = delivered_state_17 [where fl = fl and kss = kss and kesp = kesp and entry = entry and f = f and c = c and e = e,
          folded q_def]
      have x: "x = exec fl alltraps_entry (exec fl (handler_code 17) (deliver kss kesp entry f (Some e) c))"
        by (simp add: x_def 2 trap_enter_eq)
      note a = alltraps_entry_state [OF d(1), where fl = fl, folded x]
      have "load32 (c_ram x) (q + 44) = 17" "load16 (c_ram x) (q + 56) = ucast (c_eip c)"
        using d(2-5) by (simp_all add: a(13) load16_load32)
      then show ?thesis
        unfolding trapframe_at_def a(1,2) by (simp add: offset_last [of _ q] seen_cs_def 2)
    qed
  qed
  then show "tf_trapno (trapframe_at (c_ram x) (load32 (c_ram x) (reg ESP x))) = of_nat n"
    "tf_cs (trapframe_at (c_ram x) (load32 (c_ram x) (reg ESP x))) = seen_cs n c" by simp_all
qed

lemma unhandled_exception:
  assumes stubs: "stubs_at code handler" and n: "n \<in> {1..19} \<union> {48}" "n \<noteq> 3"
    and err: "err \<noteq> None \<longleftrightarrow> pushes_error_code n"
    and lit: "str (lit (trapname (of_nat n))) = trapname (of_nat n)" "lit (trapname (of_nat n)) \<noteq> 0"
  shows "handle_exception put str lit monitor after fl code (idt_init handler tsa idta trap_state_init) f n err c st =
    Some (Inl (Panic (if seen_cs n c = 8 then ''unhandled trap in kernel'' else ''unhandled trap in user mode'')))"
proof -
  have v: "n \<in> trap_vectors" "n \<noteq> 0" using n(1) by (auto simp: trap_vectors_def)
  define x where "x = trap_enter fl 0x10 KSTACKTOP (handler n) f n err c"
  note take = take_exception_enters [OF stubs v, where fl = fl and f = f and err = err and c = c, folded x_def]
  note e = frame_seen [OF v(1) err, where fl = fl and kss = "0x10" and kesp = KSTACKTOP and entry = "handler n" and f = f
      and c = c, folded x_def]
  have "of_nat n \<noteq> (3 :: u32)" using of_nat_same_32 [of n 3] n by auto
  then have "trap put str lit monitor (load32 (c_ram x) (reg ESP x)) (trapframe_at (c_ram x) (load32 (c_ram x) (reg ESP x))) st =
      Inl (Panic (if seen_cs n c = 8 then ''unhandled trap in kernel'' else ''unhandled trap in user mode''))"
    using lit unfolding e(2) [symmetric] by (intro trap_unhandled_panics) (simp_all only: e(1) simp_thms)
  then show ?thesis by (simp add: handle_exception_def take Let_def)
qed

lemma breakpoint_handled:
  assumes stubs: "stubs_at code handler"
    and after: "\<And>x. take_exception fl code (idt_init handler tsa idta trap_state_init) f 3 None c = Some x \<Longrightarrow>
      keeps_frame x (after x)"
  shows "\<exists>tf y. tf_trapno tf = 3 \<and> tf_eip tf = c_eip c \<and> tf_cs tf = c_seg c CS \<and> tf_eflags tf = c_flags c \<and>
      reg_ebp (tf_regs tf) = reg EBP c \<and>
      handle_exception put str lit monitor after fl code (idt_init handler tsa idta trap_state_init) f 3 None c st =
        Some (res_bind (monitor (frame_base KSTACKTOP c) tf st) (\<lambda>st. Inr (y, st))) \<and>
      c_reg y = c_reg c \<and> c_eip y = c_eip c \<and> c_flags y = c_flags c \<and>
      map (c_seg y) [ES, CS, SS, DS] = map (c_seg c) [ES, CS, SS, DS]"
proof -
  have fits: "stub_fits 3 None" by (simp add: stub_fits_def trap_vectors_def pushes_error_code_def)
  have v: "3 \<in> trap_vectors" "(3 :: nat) \<noteq> 0" by (simp_all add: trap_vectors_def)
  define x where "x = trap_enter fl 0x10 KSTACKTOP (handler 3) f 3 None c"
  define p where "p = frame_base KSTACKTOP c"
  define tf where "tf = trapframe_at (c_ram x) p"
  define y where "y = exec fl alltraps_exit (after x)"
  note take = take_exception_enters [OF stubs v, where fl = fl and f = f and err = None and c = c, folded x_def]
  note e = frame_fields [OF fits, where fl = fl and kss = "0x10" and kesp = KSTACKTOP and entry = "handler 3" and f = f and c = c,
      unfolded Let_def, folded x_def p_def, folded tf_def]
  have "keeps_frame x (after x)" using after take by simp
  note i = interrupted_state [OF fits this [unfolded x_def], folded x_def y_def]
  have "handle_exception put str lit monitor after fl code (idt_init handler tsa idta trap_state_init) f 3 None c st =
      Some (res_bind (monitor p tf st) (\<lambda>st. Inr (y, st)))"
    using e by (simp add: handle_exception_def take trap_def y_def tf_def)
  moreover have "c_reg y = c_reg c" using i by auto
  ultimately show ?thesis using e i unfolding p_def by (intro exI [of _ tf] exI [of _ y]) simp
qed

text \<open>C17: What becomes of an exception that occurs after \<^verbatim>\<open>idt_init\<close>, in the kernel or in user mode, for each
  of the 256 vectors, with an error code exactly where the processor has one. Only the vectors 1 to
  19 and the system call reach a handler; the divide error, vector 0, does not. A breakpoint calls the
  monitor with a frame of the interrupted state, and when the monitor returns and has left the frame
  alone, the interrupted code goes on with every register as it was. The other vectors end in a
  panic. It says whether the kernel or a user program was interrupted, except for vectors 15 and 17,
  whose stubs do not fit: there the word that \<^verbatim>\<open>trap\<close> takes for the code segment is the low half of the
  flags or of the instruction pointer. That the name of the trap can be printed is assumed.\<close>

theorem exception_handled:
  assumes stubs: "stubs_at code handler" and vector: "n < 256" and err: "err \<noteq> None \<longleftrightarrow> pushes_error_code n"
    and after: "\<And>x. n = 3 \<Longrightarrow> take_exception fl code (idt_init handler tsa idta trap_state_init) f n err c = Some x \<Longrightarrow>
      keeps_frame x (after x)"
    and lit: "str (lit (trapname (of_nat n))) = trapname (of_nat n)" "lit (trapname (of_nat n)) \<noteq> 0"
  shows "let r = handle_exception put str lit monitor after fl code (idt_init handler tsa idta trap_state_init) f n err c st in
    if n \<notin> {1..19} \<union> {48} then r = None
    else if n = 3 then
      (\<exists>tf y. tf_trapno tf = 3 \<and> tf_eip tf = c_eip c \<and> tf_cs tf = c_seg c CS \<and> tf_eflags tf = c_flags c \<and>
        reg_ebp (tf_regs tf) = reg EBP c \<and>
        r = Some (res_bind (monitor (frame_base KSTACKTOP c) tf st) (\<lambda>st. Inr (y, st))) \<and>
        c_reg y = c_reg c \<and> c_eip y = c_eip c \<and> c_flags y = c_flags c \<and>
        map (c_seg y) [ES, CS, SS, DS] = map (c_seg c) [ES, CS, SS, DS])
    else
      r = Some (Inl (Panic
        (if (if n = 15 then ucast (c_flags c) else if n = 17 then ucast (c_eip c) else c_seg c CS) = 8
         then ''unhandled trap in kernel'' else ''unhandled trap in user mode'')))"
proof (cases "n \<notin> {1..19} \<union> {48}")
  case True
  then have "take_exception fl code (idt_init handler tsa idta trap_state_init) f n err c = None"
    by (intro no_gate [OF vector]) auto
  with True show ?thesis by (simp add: handle_exception_def Let_def)
next
  case handled: False
  show ?thesis
  proof (cases "n = 3")
    case True
    then have "err = None" using err by (simp add: pushes_error_code_def)
    with True handled show ?thesis
      unfolding Let_def using breakpoint_handled [OF stubs, where fl = fl and f = f and c = c and after = after and
        put = put and str = str and lit = lit and monitor = monitor and st = st and tsa = tsa and idta = idta] after
      by (simp only: if_True if_False simp_thms)
  next
    case False
    have "n \<in> {1..19} \<union> {48}" using handled by blast
    from unhandled_exception [where str = str and lit = lit and fl = fl and f = f and c = c and after = after and
        put = put and monitor = monitor and st = st and tsa = tsa and idta = idta, OF stubs this False err lit]
    show ?thesis unfolding Let_def seen_cs_def using handled False by (simp only: if_True if_False)
  qed
qed

text \<open>The monitor, here one that returns at once, is entered by a breakpoint.\<close>

definition demo_handler :: "nat \<Rightarrow> u32" where
  "demo_handler n = 0xF0104000 + 16 * of_nat n"

definition demo_stubs :: "u32 \<Rightarrow> instr list" where
  "demo_stubs a = handler_code (unat (a - 0xF0104000) div 16)"

lemma demo_stubs_at: "stubs_at demo_stubs demo_handler"
proof -
  have "unat (16 * of_nat n :: u32) = 16 * n" if "n \<in> trap_vectors" for n
  proof -
    have n: "n \<le> 48" using that by (auto simp: trap_vectors_def)
    then have "unat (of_nat n :: u32) = n" by (simp add: unat_of_nat)
    with n show ?thesis by (subst unat_mult_small) simp_all
  qed
  then show ?thesis by (simp add: stubs_at_def demo_stubs_def demo_handler_def)
qed

lemma exception_handled_witness:
  "\<exists>y. handle_exception collect (\<lambda>_. ''Breakpoint'') (\<lambda>_. 0x1000) (\<lambda>_ _. Inr) (\<lambda>x. x) (\<lambda>_ _. 0) demo_stubs
      (idt_init demo_handler 0 0 trap_state_init) 2 3 None demo_interrupted [] = Some (Inr (y, [])) \<and>
    c_reg y EAX = 42 \<and> c_eip y = 0xF0100123"
proof -
  let ?idt = "idt_init demo_handler 0 0 trap_state_init"
  have k: "keeps_frame x x" for x by (simp add: keeps_frame_def)
  have e: "(None :: u32 option) \<noteq> None \<longleftrightarrow> pushes_error_code 3" by (simp add: pushes_error_code_def)
  have l: "(\<lambda>_ :: u32. ''Breakpoint'') ((\<lambda>_. 0x1000) (trapname (of_nat 3))) = trapname (of_nat 3)"
    "(\<lambda>_. 0x1000) (trapname (of_nat 3)) \<noteq> (0 :: u32)"
    by (simp_all add: trapname_def excnames_def)
  have n: "(3 :: nat) < 256" by simp
  obtain y where "handle_exception collect (\<lambda>_. ''Breakpoint'') (\<lambda>_. 0x1000) (\<lambda>_ _. Inr) (\<lambda>x. x) (\<lambda>_ _. 0) demo_stubs
      ?idt 2 3 None demo_interrupted [] = Some (Inr (y, []))" "c_reg y = c_reg demo_interrupted" "c_eip y = c_eip demo_interrupted"
    using exception_handled [where str = "\<lambda>_. ''Breakpoint''" and lit = "\<lambda>_. 0x1000" and after = "\<lambda>x. x" and
        put = collect and monitor = "\<lambda>_ _. Inr" and fl = "\<lambda>_ _. 0" and tsa = 0 and idta = 0 and f = 2 and
        c = demo_interrupted and st = "[]", OF demo_stubs_at n e k l]
    by (auto simp: Let_def)
  then show ?thesis by (intro exI [of _ y]) (simp add: demo_interrupted_def)
qed

end
