(* ===== verification/Vm_Entry.thy ===== *)
theory Vm_Entry
  imports X86_Cpu Vt
begin

text \<open>
  \<^verbatim>\<open>asm_vmlaunch_regs_32\<close> and \<^verbatim>\<open>asm_vmresume_regs_32\<close> of \<^verbatim>\<open>hvm/asm_vmop.S\<close>: they load the guest's
  registers, enter the guest and store its registers when it exits. The stack discipline of the
  host is proved first, then that the two routines implement what \<open>vt_main\<close> takes them for.
\<close>

definition regs_entry :: "u32 \<Rightarrow> instr list" where
  "regs_entry lab =
     [Push (Reg EBP), Push (Reg EBX), Push (Reg ESI), Push (Reg EDI),
      Mov (Mem ESP 20) (Reg EDI), Push (Reg EDI),
      Mov (Imm VMCS_HOST_RSP) (Reg EAX), Mov (Reg ESP) (Reg EDX), Vmwrite EDX EAX,
      Mov (Imm VMCS_HOST_RIP) (Reg EAX), Mov (Imm lab) (Reg EDX), Vmwrite EDX EAX,
      Mov (Mem EDI 16) (Reg EAX), Mov (Reg EAX) (Ctl CR2),
      Mov (Mem EDI 0) (Reg EAX), Mov (Mem EDI 4) (Reg ECX), Mov (Mem EDI 8) (Reg EDX),
      Mov (Mem EDI 12) (Reg EBX), Mov (Mem EDI 20) (Reg EBP), Mov (Mem EDI 24) (Reg ESI),
      Mov (Mem EDI 28) (Reg EDI)]"

definition launch_failed :: "instr list" where
  "launch_failed = [Pop (Reg EDI), Xor EAX EAX, Dec EAX]"

definition resume_failed :: "instr list" where
  "resume_failed = [Pop (Reg EAX), Xor EAX EAX, Dec EAX]"

definition regs_exit :: "instr list" where
  "regs_exit =
     [Xchg (Mem ESP 0) EDI,
      Mov (Reg EAX) (Mem EDI 0), Mov (Reg ECX) (Mem EDI 4), Mov (Reg EDX) (Mem EDI 8),
      Mov (Reg EBX) (Mem EDI 12), Mov (Reg EBP) (Mem EDI 20), Mov (Reg ESI) (Mem EDI 24),
      Pop (Mem EDI 28), Mov (Ctl CR2) (Reg EAX), Mov (Reg EAX) (Mem EDI 16), Xor EAX EAX]"

definition regs_leave :: "instr list" where
  "regs_leave = [Pop (Reg EDI), Pop (Reg ESI), Pop (Reg EBX), Pop (Reg EBP), Ret]"

text \<open>
  The argument \<open>guest\<close> is the instruction that enters the guest, with all that happens until the
  guest exits: nothing when the entry fails. An exit loads the stack pointer and the
  instruction pointer from the VMCS.
\<close>

type_synonym guest_fun = "cpu \<Rightarrow> cpu option"

definition vm_exit :: "cpu \<Rightarrow> cpu" where
  "vm_exit g = (set_reg ESP (c_vmcs g VMCS_HOST_RSP) g)\<lparr>c_eip := c_vmcs g VMCS_HOST_RIP\<rparr>"

definition vm_regs ::
    "(instr \<Rightarrow> cpu \<Rightarrow> u32) \<Rightarrow> instr list \<Rightarrow> u32 \<Rightarrow> guest_fun \<Rightarrow> cpu \<Rightarrow> cpu option" where
  "vm_regs fl failed lab guest c =
     (let e = exec fl (regs_entry lab) c in
      case guest e of
        None \<Rightarrow> Some (exec fl (failed @ regs_leave) e)
      | Some g \<Rightarrow>
          if c_eip (vm_exit g) = lab then Some (exec fl (regs_exit @ regs_leave) (vm_exit g)) else None)"

definition asm_vmlaunch_regs_32 :: "(instr \<Rightarrow> cpu \<Rightarrow> u32) \<Rightarrow> u32 \<Rightarrow> guest_fun \<Rightarrow> cpu \<Rightarrow> cpu option" where
  "asm_vmlaunch_regs_32 fl lab guest c = vm_regs fl launch_failed lab guest c"

definition asm_vmresume_regs_32 :: "(instr \<Rightarrow> cpu \<Rightarrow> u32) \<Rightarrow> u32 \<Rightarrow> guest_fun \<Rightarrow> cpu \<Rightarrow> cpu option" where
  "asm_vmresume_regs_32 fl lab guest c = vm_regs fl resume_failed lab guest c"

text \<open>\<^verbatim>\<open>struct vt_vmentry_regs\<close> in memory.\<close>

definition regs_at :: "bytes \<Rightarrow> u32 \<Rightarrow> vt_vmentry_regs" where
  "regs_at m p =
     \<lparr>rax = load32 m p, rcx = load32 m (p + 4), rdx = load32 m (p + 8), rbx = load32 m (p + 12),
      cr2 = load32 m (p + 16), rbp = load32 m (p + 20), rsi = load32 m (p + 24), rdi = load32 m (p + 28)\<rparr>"

definition regs_of :: "cpu \<Rightarrow> vt_vmentry_regs" where
  "regs_of c =
     \<lparr>rax = reg EAX c, rcx = reg ECX c, rdx = reg EDX c, rbx = reg EBX c, cr2 = c_ctl c CR2,
      rbp = reg EBP c, rsi = reg ESI c, rdi = reg EDI c\<rparr>"

text \<open>The stack at the call: the argument is the second word, and five more are pushed.\<close>

definition called_with :: "u32 \<Rightarrow> cpu \<Rightarrow> bool" where
  "called_with p c \<longleftrightarrow> load32 (c_ram c) (reg ESP c + 4) = p \<and> disjoint_blocks p 32 (reg ESP c - 20) 28"

text \<open>The stack, named by the address of its lowest word.\<close>

lemma stack_apart:
  assumes "disjoint_blocks p 32 b 28"
  shows "unat i \<le> 28 \<Longrightarrow> unat j \<le> 24 \<Longrightarrow> apart (p + i) (b + j)"
    and "unat i \<le> 28 \<Longrightarrow> unat j \<le> 24 \<Longrightarrow> apart (b + j) (p + i)"
    and "unat i \<le> 28 \<Longrightarrow> apart (p + i) b" and "unat i \<le> 28 \<Longrightarrow> apart b (p + i)"
    and "unat j \<le> 24 \<Longrightarrow> apart p (b + j)" and "unat j \<le> 24 \<Longrightarrow> apart (b + j) p"
    and "apart p b" and "apart b p"
  using disjoint_blocks_apart [OF assms, of i j] disjoint_blocks_apart [OF assms, of i 0]
    disjoint_blocks_apart [OF assms, of 0 j] disjoint_blocks_apart [OF assms, of 0 0]
  by (auto intro: apart_sym)

lemma entry_state:
  fixes fl lab c
  assumes "called_with p c"
  defines "e \<equiv> exec fl (regs_entry lab) c" and "b \<equiv> reg ESP c - 20"
  shows "regs_of e = regs_at (c_ram c) p"
    and "reg ESP e = b"
    and "c_vmcs e = (c_vmcs c)(VMCS_HOST_RSP := b, VMCS_HOST_RIP := lab)"
    and "c_ram e = store32 b p (store32 (b + 4) (reg EDI c) (store32 (b + 8) (reg ESI c)
      (store32 (b + 12) (reg EBX c) (store32 (b + 16) (reg EBP c) (c_ram c)))))"
    and "c_seg e = c_seg c" and "c_ctl e = (c_ctl c)(CR2 := load32 (c_ram c) (p + 16))"
proof -
  have esp: "reg ESP c = b + 20" by (simp add: b_def)
  have p: "load32 (c_ram c) (b + 24) = p" and d: "disjoint_blocks p 32 b 28"
    using assms(1) by (simp_all add: called_with_def b_def add.commute)
  note rules = offset_last [of _ b] offset_last [of _ p] cpu_defs esp p load32_store32_apart stack_apart [OF d] apart_same_base
  have e: "e = c\<lparr>c_reg := (c_reg c)(ESP := b, EAX := load32 (c_ram c) p, ECX := load32 (c_ram c) (p + 4),
      EDX := load32 (c_ram c) (p + 8), EBX := load32 (c_ram c) (p + 12), EBP := load32 (c_ram c) (p + 20),
      ESI := load32 (c_ram c) (p + 24), EDI := load32 (c_ram c) (p + 28)),
    c_vmcs := (c_vmcs c)(VMCS_HOST_RSP := b, VMCS_HOST_RIP := lab),
    c_ctl := (c_ctl c)(CR2 := load32 (c_ram c) (p + 16)),
    c_ram := store32 b p (store32 (b + 4) (reg EDI c) (store32 (b + 8) (reg ESI c)
      (store32 (b + 12) (reg EBX c) (store32 (b + 16) (reg EBP c) (c_ram c)))))\<rparr>"
    unfolding e_def regs_entry_def by (simp add: rules fun_eq_iff)
  show "regs_of e = regs_at (c_ram c) p" "reg ESP e = b"
    "c_vmcs e = (c_vmcs c)(VMCS_HOST_RSP := b, VMCS_HOST_RIP := lab)"
    "c_ram e = store32 b p (store32 (b + 4) (reg EDI c) (store32 (b + 8) (reg ESI c)
      (store32 (b + 12) (reg EBX c) (store32 (b + 16) (reg EBP c) (c_ram c)))))"
    "c_seg e = c_seg c" "c_ctl e = (c_ctl c)(CR2 := load32 (c_ram c) (p + 16))"
    by (simp_all add: e regs_of_def regs_at_def)
qed

text \<open>What the guest must leave alone for the host to find its way back.\<close>

definition keeps_host :: "u32 \<Rightarrow> cpu \<Rightarrow> cpu \<Rightarrow> bool" where
  "keeps_host b e g \<longleftrightarrow>
     c_vmcs g VMCS_HOST_RSP = c_vmcs e VMCS_HOST_RSP \<and> c_vmcs g VMCS_HOST_RIP = c_vmcs e VMCS_HOST_RIP \<and>
     (\<forall>j \<in> {0, 4, 8, 12, 16, 20}. load32 (c_ram g) (b + j) = load32 (c_ram e) (b + j))"

lemma leave_state:
  assumes "reg ESP c = b + 4"
  shows "exec fl regs_leave c = c\<lparr>c_reg := (c_reg c)(EDI := load32 (c_ram c) (b + 4),
      ESI := load32 (c_ram c) (b + 8), EBX := load32 (c_ram c) (b + 12), EBP := load32 (c_ram c) (b + 16),
      ESP := b + 24), c_eip := load32 (c_ram c) (b + 20)\<rparr>"
  using assms by (simp add: regs_leave_def cpu_defs fun_eq_iff offset_last [of _ b])

lemma exit_state:
  fixes fl
  assumes "reg ESP g = b" and "load32 (c_ram g) b = p" and d: "disjoint_blocks p 32 b 28"
  defines "x \<equiv> exec fl regs_exit g"
  shows "regs_at (c_ram x) p = regs_of g" and "reg EAX x = 0" and "reg ESP x = b + 4"
    and "unat j \<le> 24 \<Longrightarrow> 4 \<le> unat j \<Longrightarrow> load32 (c_ram x) (b + j) = load32 (c_ram g) (b + j)"
    and "c_vmcs x = c_vmcs g" and "c_seg x = c_seg g" and "c_ctl x = c_ctl g"
    and "32 \<le> unat (a - p) \<Longrightarrow> 4 \<le> unat (a - b) \<Longrightarrow> c_ram x a = c_ram g a"
proof -
  note rules = offset_last [of _ b] offset_last [of _ p] cpu_defs assms(1,2) load32_store32_apart stack_apart [OF d] apart_same_base
  have x: "\<exists>v. x = g\<lparr>c_reg := (c_reg g)(ESP := b + 4, EAX := 0, EDI := p), c_flags := v,
    c_ram := store32 (p + 16) (c_ctl g CR2) (store32 (p + 28) (reg EDI g) (store32 (p + 24) (reg ESI g)
      (store32 (p + 20) (reg EBP g) (store32 (p + 12) (reg EBX g) (store32 (p + 8) (reg EDX g)
      (store32 (p + 4) (reg ECX g) (store32 p (reg EAX g) (store32 b (reg EDI g) (c_ram g)))))))))\<rparr>"
    unfolding x_def regs_exit_def
    by (rule exI [of _ "c_flags (exec fl regs_exit g)"]) (simp add: regs_exit_def rules fun_eq_iff)
  then obtain v where x: "x = g\<lparr>c_reg := (c_reg g)(ESP := b + 4, EAX := 0, EDI := p), c_flags := v,
    c_ram := store32 (p + 16) (c_ctl g CR2) (store32 (p + 28) (reg EDI g) (store32 (p + 24) (reg ESI g)
      (store32 (p + 20) (reg EBP g) (store32 (p + 12) (reg EBX g) (store32 (p + 8) (reg EDX g)
      (store32 (p + 4) (reg ECX g) (store32 p (reg EAX g) (store32 b (reg EDI g) (c_ram g)))))))))\<rparr>" ..
  show "regs_at (c_ram x) p = regs_of g" by (simp add: x regs_at_def regs_of_def rules)
  show "reg EAX x = 0" "reg ESP x = b + 4" "c_vmcs x = c_vmcs g" "c_seg x = c_seg g" "c_ctl x = c_ctl g"
    by (simp_all add: x)
  show "load32 (c_ram x) (b + j) = load32 (c_ram g) (b + j)" if "unat j \<le> 24" "4 \<le> unat j"
  proof -
    have "apart b (b + j)"
    proof -
      have "unat (- j) = 2 ^ 32 - unat j" using that by (simp add: unat_sub_if' flip: diff_0)
      then show ?thesis using that by (simp add: apart_def)
    qed
    then show ?thesis by (simp add: x load32_store32_apart stack_apart [OF d] that)
  qed
  show "c_ram x a = c_ram g a" if "32 \<le> unat (a - p)" "4 \<le> unat (a - b)"
  proof -
    have "4 \<le> unat (a - (p + i))" if i: "unat i \<le> 28" for i
    proof -
      have "a - (p + i) = a - p - i" by simp
      moreover have "unat (a - p - i) = unat (a - p) - unat i"
        using \<open>32 \<le> unat (a - p)\<close> i by (intro unat_sub) (simp add: word_le_nat_alt)
      ultimately have "unat (a - (p + i)) = unat (a - p) - unat i" by (simp only:)
      then show ?thesis using \<open>32 \<le> unat (a - p)\<close> i by linarith
    qed
    moreover have "4 \<le> unat (a - p)" using that by simp
    ultimately show ?thesis using that by (simp add: x store32_other)
  qed
qed

section \<open>The whole routine\<close>

definition saved_regs :: "gpr set" where
  "saved_regs = {EBX, EBP, ESI, EDI}"

text \<open>A routine that has returned by the calling convention of C.\<close>

definition returned :: "cpu \<Rightarrow> cpu \<Rightarrow> bool" where
  "returned c x \<longleftrightarrow> reg ESP x = reg ESP c + 4 \<and> c_eip x = load32 (c_ram c) (reg ESP c) \<and>
     (\<forall>r \<in> saved_regs. reg r x = reg r c)"

text \<open>The words of the frame after the entry block.\<close>

lemma entry_frame:
  fixes fl lab c
  assumes "called_with p c"
  defines "e \<equiv> exec fl (regs_entry lab) c" and "b \<equiv> reg ESP c - 20"
  shows "load32 (c_ram e) b = p" "load32 (c_ram e) (b + 4) = reg EDI c" "load32 (c_ram e) (b + 8) = reg ESI c"
    "load32 (c_ram e) (b + 12) = reg EBX c" "load32 (c_ram e) (b + 16) = reg EBP c"
    "load32 (c_ram e) (b + 20) = load32 (c_ram c) (reg ESP c)"
    "regs_at (c_ram e) p = regs_at (c_ram c) p"
proof -
  have d: "disjoint_blocks p 32 b 28" using assms(1) by (simp add: called_with_def b_def)
  have esp: "reg ESP c = b + 20" by (simp add: b_def)
  note ram = entry_state(4) [OF assms(1), where fl = fl and lab = lab, folded e_def b_def]
  note rules = ram load32_store32_apart stack_apart [OF d] apart_same_base
  show "load32 (c_ram e) b = p" "load32 (c_ram e) (b + 4) = reg EDI c" "load32 (c_ram e) (b + 8) = reg ESI c"
    "load32 (c_ram e) (b + 12) = reg EBX c" "load32 (c_ram e) (b + 16) = reg EBP c"
    by (simp_all add: rules)
  show "load32 (c_ram e) (b + 20) = load32 (c_ram c) (reg ESP c)" by (simp add: rules esp)
  show "regs_at (c_ram e) p = regs_at (c_ram c) p" by (simp add: regs_at_def rules)
qed

lemma returned_leave:
  assumes "reg ESP x = reg ESP c - 16"
    and "load32 (c_ram x) (reg ESP c - 16) = reg EDI c" and "load32 (c_ram x) (reg ESP c - 12) = reg ESI c"
    and "load32 (c_ram x) (reg ESP c - 8) = reg EBX c" and "load32 (c_ram x) (reg ESP c - 4) = reg EBP c"
    and "load32 (c_ram x) (reg ESP c) = load32 (c_ram c) (reg ESP c)"
  shows "returned c (exec fl regs_leave x)"
  using leave_state [of x "reg ESP c - 20" fl] assms
  by (simp add: returned_def saved_regs_def add.commute)

lemma vm_regs_exits:
  fixes c fl lab
  defines "e \<equiv> exec fl (regs_entry lab) c"
  assumes c: "called_with p c" and g: "guest e = Some g" and host: "keeps_host (reg ESP c - 20) e g"
  shows "\<exists>x. vm_regs fl failed lab guest c = Some x \<and> returned c x \<and> reg EAX x = 0 \<and>
    regs_at (c_ram x) p = regs_of g \<and> c_vmcs x = c_vmcs g \<and>
    (\<forall>a. 32 \<le> unat (a - p) \<and> 4 \<le> unat (a - (reg ESP c - 20)) \<longrightarrow> c_ram x a = c_ram g a)"
proof -
  define b where "b = reg ESP c - 20"
  have d: "disjoint_blocks p 32 b 28" using c by (simp add: called_with_def b_def)
  let ?g = "vm_exit g"
  let ?y = "exec fl regs_exit ?g"
  let ?x = "exec fl regs_leave ?y"
  note st = entry_state [OF c, where fl = fl and lab = lab, folded e_def b_def] and fr = entry_frame [OF c, where fl = fl and lab = lab, folded e_def b_def]
  have k: "c_vmcs g VMCS_HOST_RSP = b" "c_vmcs g VMCS_HOST_RIP = lab"
    "\<forall>j \<in> {0, 4, 8, 12, 16, 20}. load32 (c_ram g) (b + j) = load32 (c_ram e) (b + j)"
    using host st(3) by (simp_all add: keeps_host_def b_def)
  have g': "reg ESP ?g = b" "c_eip ?g = lab" "c_ram ?g = c_ram g" "regs_of ?g = regs_of g" "c_vmcs ?g = c_vmcs g"
    using k by (simp_all add: vm_exit_def set_reg_def regs_of_def)
  have "load32 (c_ram ?g) b = p" using k(3) fr(1) g'(3) by simp
  note y = exit_state [OF g'(1) this d, where fl = fl]
  have w: "load32 (c_ram ?y) (b + j) = load32 (c_ram e) (b + j)" if "j \<in> {4, 8, 12, 16, 20}" for j
    using y(4) [of j] k(3) g'(3) that by auto
  have "returned c ?x"
    using y(3) w [of 4] w [of 8] w [of 12] w [of 16] w [of 20] fr
    by (intro returned_leave) (simp_all add: b_def add.commute)
  moreover have l: "c_ram ?x = c_ram ?y" "c_vmcs ?x = c_vmcs ?y" "reg EAX ?x = reg EAX ?y"
    using leave_state [OF y(3)] by simp_all
  moreover have "vm_regs fl failed lab guest c = Some ?x"
    using g g'(2) by (simp add: vm_regs_def e_def)
  ultimately show ?thesis using y(1,2,5,8) g'(3-5) by (auto simp: b_def)
qed

lemma vm_regs_fails:
  fixes c fl lab
  defines "e \<equiv> exec fl (regs_entry lab) c"
  assumes c: "called_with p c" and g: "guest e = None" and f: "failed \<in> {launch_failed, resume_failed}"
  shows "\<exists>x. vm_regs fl failed lab guest c = Some x \<and> returned c x \<and> reg EAX x = - 1 \<and>
    regs_at (c_ram x) p = regs_at (c_ram c) p \<and> c_vmcs x = c_vmcs e \<and> c_ram x = c_ram e"
proof -
  define b where "b = reg ESP c - 20"
  note st = entry_state [OF c, where fl = fl and lab = lab, folded e_def b_def] and fr = entry_frame [OF c, where fl = fl and lab = lab, folded e_def b_def]
  let ?y = "exec fl failed e"
  let ?x = "exec fl regs_leave ?y"
  have y: "reg ESP ?y = b + 4" "reg EAX ?y = - 1" "c_ram ?y = c_ram e" "c_vmcs ?y = c_vmcs e"
    using f st(2) by (auto simp: launch_failed_def resume_failed_def cpu_defs)
  have "returned c ?x"
    using y fr by (intro returned_leave) (simp_all add: b_def add.commute)
  moreover have "c_ram ?x = c_ram ?y" "c_vmcs ?x = c_vmcs ?y" "reg EAX ?x = reg EAX ?y"
    using leave_state [OF y(1)] by simp_all
  moreover have "vm_regs fl failed lab guest c = Some ?x" using g by (simp add: vm_regs_def e_def)
  ultimately show ?thesis using y fr(7) by simp
qed

section \<open>The guest as the C code sees it\<close>

text \<open>
  To \<^verbatim>\<open>hvm/vt.c\<close> the guest is a function of the register structure and the VMCS. \<open>run_of\<close> is that
  function as an argument of \<open>vt_main\<close>: the routine also leaves its stack pointer and its return
  label in the VMCS.
\<close>

type_synonym guest_spec =
  "vt_vmentry_regs \<Rightarrow> (u32 \<Rightarrow> u32) \<Rightarrow> (vt_vmentry_regs \<times> (u32 \<Rightarrow> u32)) option"

definition run_of :: "guest_spec \<Rightarrow> u32 \<Rightarrow> u32 \<Rightarrow> run_fun" where
  "run_of G b lab s =
     (let v = (vmcs s)(VMCS_HOST_RSP := b, VMCS_HOST_RIP := lab) in
      case G (vr s) v of
        None \<Rightarrow> (- 1, s\<lparr>vmcs := v\<rparr>)
      | Some (r, v') \<Rightarrow> (0, s\<lparr>vr := r, vmcs := v'\<rparr>))"

definition represents :: "u32 \<Rightarrow> cpu \<Rightarrow> hv \<Rightarrow> bool" where
  "represents p c s \<longleftrightarrow> regs_at (c_ram c) p = vr s \<and> c_vmcs c = vmcs s"

definition guest_refines :: "guest_fun \<Rightarrow> guest_spec \<Rightarrow> u32 \<Rightarrow> bool" where
  "guest_refines guest G b \<longleftrightarrow>
     (\<forall>e. reg ESP e = b \<longrightarrow>
        (case guest e of
           None \<Rightarrow> G (regs_of e) (c_vmcs e) = None
         | Some g \<Rightarrow> G (regs_of e) (c_vmcs e) = Some (regs_of g, c_vmcs g) \<and> keeps_host b e g))"

lemma guest_refinesD:
  assumes "guest_refines guest G b" and "reg ESP e = b"
  shows "guest e = None \<Longrightarrow> G (regs_of e) (c_vmcs e) = None"
    and "guest e = Some g \<Longrightarrow> G (regs_of e) (c_vmcs e) = Some (regs_of g, c_vmcs g) \<and> keeps_host b e g"
  using assms(1) [unfolded guest_refines_def, rule_format, OF assms(2)] by simp_all

lemma regs_of_eq:
  "regs_of e = r \<Longrightarrow> reg EAX e = rax r \<and> reg ECX e = rcx r \<and> reg EDX e = rdx r \<and> reg EBX e = rbx r \<and>
    c_ctl e CR2 = cr2 r \<and> reg EBP e = rbp r \<and> reg ESI e = rsi r \<and> reg EDI e = rdi r"
  by (auto simp: regs_of_def)

lemma vm_regs_refines:
  assumes c: "called_with p c" and r: "represents p c s" and G: "guest_refines guest G (reg ESP c - 20)"
    and f: "failed \<in> {launch_failed, resume_failed}"
  shows "\<exists>x. vm_regs fl failed lab guest c = Some x \<and> returned c x \<and>
    (case run_of G (reg ESP c - 20) lab s of (ret, s') \<Rightarrow> sint (reg EAX x) = ret \<and> represents p x s')"
proof -
  let ?e = "exec fl (regs_entry lab) c" and ?b = "reg ESP c - 20"
  note st = entry_state [OF c, where fl = fl and lab = lab]
  have e: "regs_of ?e = vr s" "c_vmcs ?e = (vmcs s)(VMCS_HOST_RSP := ?b, VMCS_HOST_RIP := lab)"
    using st(1,3) r by (simp_all add: represents_def)
  show ?thesis
  proof (cases "guest ?e")
    case None
    then have "G (vr s) (c_vmcs ?e) = None" using guest_refinesD(1) [OF G st(2)] e(1) by simp
    moreover obtain x where "vm_regs fl failed lab guest c = Some x" "returned c x" "reg EAX x = - 1"
      "regs_at (c_ram x) p = regs_at (c_ram c) p" "c_vmcs x = c_vmcs ?e"
      using vm_regs_fails [where fl = fl and lab = lab and guest = guest, OF c None f] by blast
    ultimately show ?thesis using r e(2) by (auto simp: run_of_def represents_def Let_def)
  next
    case (Some g)
    then have "G (vr s) (c_vmcs ?e) = Some (regs_of g, c_vmcs g)" "keeps_host ?b ?e g"
      using guest_refinesD(2) [OF G st(2) Some] e(1) by simp_all
    moreover obtain x where "vm_regs fl failed lab guest c = Some x" "returned c x" "reg EAX x = 0"
      "regs_at (c_ram x) p = regs_of g" "c_vmcs x = c_vmcs g"
      using vm_regs_exits [where fl = fl and lab = lab and guest = guest, OF c Some calculation(2)] by blast
    ultimately show ?thesis using e(2) by (auto simp: run_of_def represents_def Let_def)
  qed
qed

text \<open>A guest that executes \<^verbatim>\<open>cpuid\<close> with 1 in EAX, and a machine about to call the routine.\<close>

definition demo_guest :: guest_fun where
  "demo_guest e = Some ((set_reg EAX 1 e)\<lparr>c_vmcs := (c_vmcs e)(VMCS_EXIT_REASON := EXIT_REASON_CPUID)\<rparr>)"

definition demo_spec :: guest_spec where
  "demo_spec r v = Some (r\<lparr>rax := 1\<rparr>, v(VMCS_EXIT_REASON := EXIT_REASON_CPUID))"

definition demo_cpu :: cpu where
  "demo_cpu = \<lparr>c_reg = (\<lambda>_. 7)(ESP := 0x8000), c_seg = (\<lambda>_. 0x10), c_ctl = (\<lambda>_. 0), c_eip = 0, c_flags = 2,
     c_vmcs = (\<lambda>_. 0), c_ram = store32 0x8004 0x2000 (\<lambda>_. 0)\<rparr>"

lemma demo_called: "called_with 0x2000 demo_cpu"
  by (simp add: called_with_def demo_cpu_def disjoint_blocks_def)

lemma demo_refines: "guest_refines demo_guest demo_spec b"
  by (simp add: guest_refines_def demo_guest_def demo_spec_def regs_of_def set_reg_def keeps_host_def)

lemma demo_represents: "represents 0x2000 demo_cpu blank_hv"
  by (simp add: represents_def demo_cpu_def regs_at_def blank_hv_def load32_store32_apart apart_def)
    (simp add: load32_def)

text \<open>C13: The assembly routines that enter the guest do what \<^verbatim>\<open>hvm/vt.c\<close> relies on. Called by the C
  convention with the address of the register structure, \<^verbatim>\<open>asm_vmlaunch_regs_32\<close> and
  \<^verbatim>\<open>asm_vmresume_regs_32\<close> always return to their caller, with the registers it must find unchanged
  and its stack as it was. They return 0 when the guest ran, with the guest's registers in the
  structure, and -1 when the entry failed, with the structure unchanged.\<close>

theorem vm_entry_refines:
  assumes "called_with p c" and "represents p c s" and "guest_refines guest G (reg ESP c - 20)"
  shows "\<exists>x y. asm_vmlaunch_regs_32 fl lab guest c = Some x \<and> asm_vmresume_regs_32 fl lab guest c = Some y \<and>
    returned c x \<and> returned c y \<and>
    (case run_of G (reg ESP c - 20) lab s of (ret, s') \<Rightarrow>
       sint (reg EAX x) = ret \<and> represents p x s' \<and> sint (reg EAX y) = ret \<and> represents p y s')"
  using vm_regs_refines [OF assms, of launch_failed fl lab] vm_regs_refines [OF assms, of resume_failed fl lab]
  unfolding asm_vmlaunch_regs_32_def asm_vmresume_regs_32_def by fastforce

lemma vm_entry_refines_witness:
  "\<exists>x. asm_vmlaunch_regs_32 (\<lambda>_ _. 0) 0xF0105000 demo_guest demo_cpu = Some x \<and> reg EAX x = 0 \<and>
     reg ESP x = 0x8004 \<and> reg EBX x = 7 \<and> load32 (c_ram x) 0x2000 = 1"
proof -
  from vm_entry_refines [OF demo_called demo_represents demo_refines, of "\<lambda>_ _. 0" "0xF0105000"]
  obtain x where x: "asm_vmlaunch_regs_32 (\<lambda>_ _. 0) 0xF0105000 demo_guest demo_cpu = Some x" "returned demo_cpu x"
    "sint (reg EAX x) = 0" "regs_at (c_ram x) 0x2000 = (vr blank_hv)\<lparr>rax := 1\<rparr>"
    by (auto simp: run_of_def demo_spec_def represents_def Let_def)
  have "reg EAX x = 0" using x(3) by (metis signed_0 signed_word_eqI)
  moreover have "load32 (c_ram x) 0x2000 = 1" using arg_cong [OF x(4), of rax] by (simp add: regs_at_def)
  moreover have "reg ESP x = 0x8004" "reg EBX x = 7" using x(2) by (simp_all add: returned_def saved_regs_def demo_cpu_def)
  ultimately show ?thesis using x(1) by blast
qed

text \<open>C14: What the guest sees of a \<^verbatim>\<open>cpuid\<close> instruction. When its exit has been handled and the guest is
  resumed, the processor enters it with the four answers in its registers, the VMX bit of leaf 1
  cleared, every other register as it was at the exit, and behind the instruction.\<close>

theorem guest_sees_cpuid:
  fixes fl lab c
  assumes exit: "asm_vmread s VMCS_EXIT_REASON = EXIT_REASON_CPUID"
    and handled: "vt_exit_reason cpuid s = Inr (again, s1)"
    and call: "called_with p c" "represents p c s1"
  defines "e \<equiv> exec fl (regs_entry lab) c"
  shows "again \<and> (reg EAX e, reg EBX e, reg ECX e, reg EDX e) =
      (case cpuid (rax (vr s)) of (oa, ob, oc, od) \<Rightarrow>
         (oa, ob, if rax (vr s) = 1 then oc AND NOT 0x20 else oc, od)) \<and>
    (reg EBP e, reg ESI e, reg EDI e, c_ctl e CR2) = (rbp (vr s), rsi (vr s), rdi (vr s), cr2 (vr s)) \<and>
    c_vmcs e VMCS_GUEST_RIP = asm_vmread s VMCS_GUEST_RIP + asm_vmread s VMCS_VMEXIT_INSTRUCTION_LEN"
proof -
  obtain oa ob oc od where q: "cpuid (rax (vr s)) = (oa, ob, oc, od)" by (metis prod.exhaust)
  have s1: "again" "do_cpuid cpuid s = Inr s1"
    using vt_exit_reason_dispatch [where cpuid = cpuid and s = s] exit by (auto simp: handled split: if_splits)
  note st = entry_state [OF call(1), where fl = fl and lab = lab, folded e_def]
  have "regs_of e = vr s1" "c_vmcs e VMCS_GUEST_RIP = vmcs s1 VMCS_GUEST_RIP"
    using st(1,3) call(2) by (simp_all add: represents_def)
  moreover have "s1 = add_ip (s\<lparr>vr := (vr s)
    \<lparr>rax := oa, rbx := ob, rcx := (if rax (vr s) = CPUID_1 then oc AND NOT CPUID_1_ECX_VMX_BIT else oc),
     rdx := od\<rparr>\<rparr>)"
    using s1(2) do_cpuid_eq [where cpuid = cpuid, OF q] by simp
  ultimately show ?thesis using q s1(1)
    by (auto dest!: regs_of_eq simp: add_ip_def asm_vmread_def asm_vmwrite_def)
qed

lemma guest_sees_cpuid_witness:
  "\<exists>c. reg ECX (exec (\<lambda>_ _. 0) (regs_entry 0xF0105000) c) = 0xFFFFFFDF"
proof -
  let ?s = "blank_hv\<lparr>vr := (vr blank_hv)\<lparr>rax := 1\<rparr>, vmcs := (\<lambda>_. 0)(VMCS_EXIT_REASON := EXIT_REASON_CPUID)\<rparr>"
  let ?q = "\<lambda>_ :: u32. (0, 0, - 1, 0) :: u32 \<times> u32 \<times> u32 \<times> u32"
  obtain s1 where h: "vt_exit_reason ?q ?s = Inr (True, s1)" and v: "vr s1 = (vr ?s)\<lparr>rax := 0, rcx := - 1 AND NOT 0x20\<rparr>"
    by (simp add: vt_exit_reason_def do_cpuid_eq asm_vmread_def asm_vmwrite_def add_ip_def Let_def blank_hv_def)
  let ?m = "store32 0x2004 (rcx (vr s1)) (store32 0x8004 0x2000 (\<lambda>_. 0))"
  let ?c = "demo_cpu\<lparr>c_ram := ?m, c_vmcs := vmcs s1\<rparr>"
  have "called_with 0x2000 ?c"
    by (simp add: called_with_def demo_cpu_def disjoint_blocks_def load32_store32_apart apart_def)
  moreover have "represents 0x2000 ?c s1"
    by (simp add: represents_def regs_at_def v blank_hv_def load32_store32_apart apart_def) (simp add: load32_def)
  moreover have "asm_vmread ?s VMCS_EXIT_REASON = EXIT_REASON_CPUID" by (simp add: asm_vmread_def)
  ultimately have "reg ECX (exec (\<lambda>_ _. 0) (regs_entry 0xF0105000) ?c) = 0xFFFFFFDF"
    using guest_sees_cpuid [OF _ h, of "0x2000" ?c "\<lambda>_ _. 0" "0xF0105000"] by (simp add: blank_hv_def)
  then show ?thesis by blast
qed

end
