(* ===== verification/Spec2Isabelle.thy ===== *)
theory Spec2Isabelle
  imports Kernel_Init Keyboard Boot_Disk Boot_Chain Trap_Path Vm_Entry
begin

text \<open>
  A model of JOS-vmx, a small 32-bit teaching kernel whose monitor can start a virtual machine
  with Intel VMX, and of the tools that bring it from a file to memory. File names are relative
  to the repository's \<^verbatim>\<open>src\<close>.

  \<^bold>\<open>The program.\<close> \<^verbatim>\<open>boot/mkbootdisk.c\<close> builds a disk image; \<^verbatim>\<open>boot/boot.S\<close> enters protected mode and
  \<^verbatim>\<open>boot/main.c\<close> loads the kernel from the disk and calls its entry point in \<^verbatim>\<open>kern/entry.S\<close>; \<^verbatim>\<open>i386_init\<close> of \<^verbatim>\<open>kern/init.c\<close> starts the console, detects memory,
  builds the kernel's page tables and the list of free pages, tests them, sets up the trap table
  and enters the monitor of \<^verbatim>\<open>kern/monitor.c\<close>. The monitor reads lines (\<^verbatim>\<open>lib/readline.c\<close> over
  \<^verbatim>\<open>kern/console.c\<close>), splits them and calls a command; \<^verbatim>\<open>matrix\<close> runs \<^verbatim>\<open>vt_main\<close> of \<^verbatim>\<open>hvm/vt.c\<close>, which
  fills the VMCS (\<^verbatim>\<open>hvm/vt_init.c\<close>, \<^verbatim>\<open>hvm/vt_regs.c\<close>, \<^verbatim>\<open>hvm/vt_ept.c\<close>), enters the guest through
  \<^verbatim>\<open>hvm/asm_vmop.S\<close> and handles its exits. An exception reaches \<^verbatim>\<open>kern/trap.c\<close> through \<^verbatim>\<open>kern/trapentry.S\<close>.
  A panic ends in the monitor and never returns. Several routines of \<^verbatim>\<open>hvm/\<close> are exercises that the
  code leaves as panics; one of them, \<^verbatim>\<open>has_vmx\<close>, is reached at the end of \<^verbatim>\<open>i386_init\<close>, so that as it
  is the kernel enters the monitor through that panic.

  \<^bold>\<open>Conventions\<close> (\<open>Jos_Prelude\<close>). C integers are words of their width, so additions wrap as they do in
  C, and an \<^verbatim>\<open>int\<close> is a word read with \<open>sint\<close>, or an \<open>int\<close> where it is only a result. A routine that
  can panic or fail an assertion returns \<open>'a res\<close>: \<open>Inl\<close> with the \<open>stop\<close>, or \<open>Inr\<close> with the result;
  \<open>res_bind\<close> sequences them. A loop that may not end is a \<open>partial_function (option)\<close>, and \<open>None\<close> is a
  run without an end; the properties that a routine returns are stated with \<open>Some\<close>. State is a
  record that is passed and returned. Devices, what a guest does, and addresses that the linker
  chooses are arguments (functions in a record), with what is relied on as hypotheses. Assembly code
  is a list of instructions, or the effect of each in turn, on the processor of \<open>X86_Cpu\<close>.
\<close>

text \<open>
  \<^bold>\<open>Theories and code.\<close>

  \<^item> \<open>Page_Queue\<close>, \<open>Mmu\<close>: the list macros of \<^verbatim>\<open>inc/queue.h\<close> on a heap of \<open>struct Page\<close> nodes, with the
    representation predicate \<open>linked\<close>; the paging macros of \<^verbatim>\<open>inc/mmu.h\<close> and the address-space layout of
    \<^verbatim>\<open>inc/memlayout.h\<close>. \<open>LIST_FOREACH\<close> has fuel, as a corrupted list may be cyclic; the length of the
    list is enough.
  \<^item> \<open>Pmap_Mem\<close>, \<open>Pmap_Page\<close>: the state of \<^verbatim>\<open>kern/pmap.c\<close> (page table memory, page descriptors, the
    free list, what was flushed from the TLB) and \<^verbatim>\<open>page_alloc\<close>, \<^verbatim>\<open>page_free\<close>, \<^verbatim>\<open>page_decref\<close>, \<^verbatim>\<open>pgdir_walk\<close>,
    \<^verbatim>\<open>page_insert\<close>, \<^verbatim>\<open>page_lookup\<close>, \<^verbatim>\<open>page_remove\<close>. \<open>Page_Pool\<close> states the allocator as the locale
    \<open>pool\<close>. \<open>Pmap_Insert\<close> and \<open>Pmap_Props\<close> hold the contract: what an operation maps, what it leaves
    alone, how reference counts change, what happens without memory. \<open>Pmap_Check\<close> runs the code's
    own \<^verbatim>\<open>page_check\<close> on every state that keeps the invariant.
  \<^item> \<open>Pmap_Boot\<close>, \<open>Boot_Map\<close>, \<open>Boot_Mem\<close>, \<open>Boot_Init\<close>: \<^verbatim>\<open>i386_mem_detect\<close> with \<^verbatim>\<open>kern/kclock.c\<close>,
    \<^verbatim>\<open>boot_alloc\<close>, \<^verbatim>\<open>boot_map_segment\<close>, \<^verbatim>\<open>boot_mem_init\<close> with its check, \<^verbatim>\<open>page_init\<close>; the address space
    that results, the free list, and that the boot sequence reaches a state of the contract above.
  \<^item> \<open>Segments\<close>, \<open>Trap\<close>: descriptors and gates of \<^verbatim>\<open>inc/mmu.h\<close>, the descriptor table, \<^verbatim>\<open>kern/trap.c\<close>.
  \<^item> \<open>Cells\<close>, \<open>Vmcs\<close>, \<open>Vt_Regs\<close>, \<open>Vt_Ept\<close>, \<open>Vt_Init\<close>, \<open>Vt\<close>: the locale \<open>cells\<close> of stores with a read and
    a write (the VMCS, the model-specific registers, the guest's registers are its instances), the
    constants of \<^verbatim>\<open>inc/hvm/constants.h\<close>, and the files of \<^verbatim>\<open>hvm/\<close>. The guest's run is also a step
    relation, \<open>cpuid_turn\<close>, one answered \<^verbatim>\<open>cpuid\<close> exit after another; when the run ends, how, and when it
    does not is stated with it. Exercises that the code leaves open are panics there and here.
  \<^item> \<open>Printfmt\<close>: \<^verbatim>\<open>lib/printfmt.c\<close> and \<^verbatim>\<open>kern/printf.c\<close>; the locale \<open>sink_map\<close> relates two sinks of
    characters. \<open>Str_Lib\<close>, \<open>Byte_Mem\<close>: \<^verbatim>\<open>lib/string.c\<close> on byte memory, strings, numbers and frames
    of memory that is left alone.
  \<^item> \<open>Console\<close>, \<open>Terminal\<close>, \<open>Console_Input\<close>, \<open>Keyboard\<close>: \<^verbatim>\<open>kern/console.c\<close>. \<open>Terminal\<close> is the abstract
    display, a list of 2000 cells and a cursor, and the refinement of it by \<^verbatim>\<open>cga_putc\<close>; the locale
    \<open>char_queue\<close> is what the input buffer promises, and the ring of 512 bytes implements it.
  \<^item> \<open>Readline\<close>, \<open>Cmd_Line\<close>, \<open>Monitor\<close>, \<open>Kdebug\<close>: \<^verbatim>\<open>lib/readline.c\<close> with the locale \<open>line_source\<close> over
    the console, with a sender on the serial port that may be slow; \<^verbatim>\<open>kern/monitor.c\<close>; \<^verbatim>\<open>kern/kdebug.c\<close>.
  \<^item> \<open>Kernel_Init\<close>: \<^verbatim>\<open>kern/init.c\<close>, where the components come together.
  \<^item> \<open>Boot_Loader\<close>, \<open>Boot_Disk\<close>: \<^verbatim>\<open>boot/main.c\<close> with the ELF headers of \<^verbatim>\<open>inc/elf.h\<close>, and
    \<^verbatim>\<open>boot/mkbootdisk.c\<close>. \<open>serves_disk\<close> is what is relied on of an IDE disk, \<open>ide_disk\<close> a disk that has it.
    \<open>layout\<close> is the reference for the image, and \<open>kernel_image_boots\<close> joins both programs.
  \<^item> \<open>X86_Cpu\<close>: registers, byte memory and the instructions of the assembly files, with the flags after
    arithmetic left open. \<open>X86_Insn\<close>: the wrappers of \<^verbatim>\<open>inc/x86.h\<close> and \<^verbatim>\<open>inc/hvm/asm.h\<close>, on the processor
    with its system registers, and with the hidden parts that a segment register takes from the
    descriptor table in memory; \<open>host_cpu_of\<close> is what \<^verbatim>\<open>vt_get_current_regs_host\<close> sees through them.
  \<^item> \<open>Boot_Start\<close>: \<^verbatim>\<open>boot/boot.S\<close> up to and with the run of \<^verbatim>\<open>bootmain\<close>, and \<^verbatim>\<open>kern/entry.S\<close>; \<open>Boot_Chain\<close>
    runs one after the other, up to the call of \<^verbatim>\<open>i386_init\<close>. Both code parts are reached through the segments
    that they have loaded from their own tables. \<open>Trap_Entry\<close>: \<^verbatim>\<open>kern/trapentry.S\<close>, between the
    delivery of an exception and \<^verbatim>\<open>trap\<close>; \<open>Trap_Path\<close> adds the gates and \<^verbatim>\<open>trap\<close> itself. \<open>Vm_Entry\<close>: the
    32-bit routines of \<^verbatim>\<open>hvm/asm_vmop.S\<close>, and that they implement the argument \<open>run_fun\<close> of \<open>vt_main\<close>.
\<close>

text \<open>
  \<^bold>\<open>What the lemmas show.\<close> Type and state invariants (VMCS encodings, reference counts, the free
  list), the effect of each operation on every branch, errors included; refinement of an abstract
  terminal, queue, pool, line editor and image layout, and of the guest's run by assembly code; round
  trips of numbers through \<^verbatim>\<open>printf\<close> and \<^verbatim>\<open>strtol\<close>, of descriptors through their fields and of an
  interrupted program through a trap; ends of loops, and for the guest's loop exactly
  when it ends; and that the boot sequence comes through its own checks. Where the code does
  something that its comments or its purpose deny (removing an unmapped page, gate 0 of the trap
  table, the stub of the alignment check, the free list without base memory, the search of the symbol table), the property or
  lemma states what it does.

  \<^bold>\<open>Bounds.\<close> Memory is what the clock chip reports. The boot properties ask for 67 pages beyond the end
  of the kernel, which its page tables and page descriptors take at most, and for 118 with the
  self-test; the kernel's mapping is proved for all of the 256 MB from \<open>KERNBASE\<close> on. Buffers keep the
  sizes of the code (1024 for a line, 512 for the input ring, 16 arguments, 2000 screen cells). The
  disk has 28-bit sector numbers; a segment must not wrap around the address space.

  \<^bold>\<open>Not modelled.\<close> Of \<^verbatim>\<open>hvm/asm_vmop.S\<close> the 64-bit routines and those for AMD processors, which the
  kernel does not call. Of the wrappers the VMX instructions except \<^verbatim>\<open>vmread\<close> and \<^verbatim>\<open>vmwrite\<close> (the code that
  would use them is an exercise), \<^verbatim>\<open>lsl\<close>, \<^verbatim>\<open>lar\<close> and \<^verbatim>\<open>cpuid\<close>'s answers, which are arguments, \<^verbatim>\<open>int3\<close> and
  \<^verbatim>\<open>write_eflags\<close>; single port accesses are the functions of the device records. Faults of an
  instruction, as on the load of a bad selector, the accessed bit that such a load sets in the
  descriptor, fixed bits of the control registers, and instructions as bytes in memory: the boot sector
  is assumed to be there while it runs, and the A20 gate is only the commands that open it. The timing of interrupts: the routines of the console are called in the order in which the polling
  code calls them. The messages of the memory setup and of the VMX components, and constants and
  macros no code uses. The build files and \<^verbatim>\<open>mergedep.pl\<close>.
\<close>

end
